(* ===== verification/Bonnie_Prelude.thy ===== *)
theory Bonnie_Prelude
  imports
    Main
    "HOL-Library.AList"
    "HOL-Library.Char_ord"
    "HOL-Library.List_Lexorder"
    "HOL-Library.Multiset"
    "HOL-Library.Sublist"
    "HOL-Library.Word"
begin

text \<open>
  Prelude of the development: the types every component shares and the lemmas about them.

  A Go \<open>map\<close> is an association list with distinct keys (\<open>gomap_ok\<close>); the order of the list is the
  order in which one \<open>range\<close> loop over the map happens to visit it, so a theorem about every such
  list covers every iteration order the Go runtime may choose.  A Go function that returns
  \<open>(value, error)\<close> returns a sum: \<open>Inl\<close> the error, \<open>Inr\<close> the value.  Timestamps are the RFC 3339
  texts that \<open>time.Time\<close> marshals to; the program stores and prints them and never compares them.
\<close>

named_theorems gomap_simps \<open>lookup, update and delete on Go maps\<close>
named_theorems inv_defs \<open>definitions of the component invariants\<close>

type_synonym ('k, 'v) gomap = "('k \<times> 'v) list"
type_synonym ('e, 'a) result = "'e + 'a"
type_synonym timestamp = string

text \<open>
  A call on some state, and what follows unless it returned an error, which is then returned at
  once: the \<open>if err != nil\<close> of Go.
\<close>

definition and_then ::
  "('s \<Rightarrow> ('e, 'a) result \<times> 's) \<Rightarrow> ('a \<Rightarrow> 's \<Rightarrow> ('e, 'b) result \<times> 's) \<Rightarrow> 's \<Rightarrow> ('e, 'b) result \<times> 's"
where
  "and_then m k s = (case m s of (Inl e, s') \<Rightarrow> (Inl e, s') | (Inr x, s') \<Rightarrow> k x s')"

abbreviation gm_get :: "('k, 'v) gomap \<Rightarrow> 'k \<Rightarrow> 'v option" where
  "gm_get m k \<equiv> map_of m k"

abbreviation gm_set :: "'k \<Rightarrow> 'v \<Rightarrow> ('k, 'v) gomap \<Rightarrow> ('k, 'v) gomap" where
  "gm_set k v m \<equiv> AList.update k v m"

abbreviation gm_del :: "'k \<Rightarrow> ('k, 'v) gomap \<Rightarrow> ('k, 'v) gomap" where
  "gm_del k m \<equiv> AList.delete k m"

definition gomap_ok :: "('k, 'v) gomap \<Rightarrow> bool" where
  "gomap_ok m \<longleftrightarrow> distinct (map fst m)"

section \<open>Maps\<close>

lemma gomap_ok_Nil [simp]: "gomap_ok []"
  by (simp add: gomap_ok_def)

lemma gomap_ok_set [simp, intro]: "gomap_ok m \<Longrightarrow> gomap_ok (gm_set k v m)"
  by (simp add: gomap_ok_def distinct_update)

lemma gomap_ok_del [simp, intro]: "gomap_ok m \<Longrightarrow> gomap_ok (gm_del k m)"
  by (simp add: gomap_ok_def distinct_delete)

lemma gm_get_set [gomap_simps]: "gm_get (gm_set k v m) = (gm_get m)(k \<mapsto> v)"
  by (rule update_conv')

lemma gm_get_del [gomap_simps]: "gm_get (gm_del k m) = (gm_get m)(k := None)"
  by (rule delete_conv')

lemma gm_get_iff: "gomap_ok m \<Longrightarrow> gm_get m k = Some v \<longleftrightarrow> (k, v) \<in> set m"
  by (simp add: gomap_ok_def)

lemma gm_get_in: "gm_get m k = Some v \<Longrightarrow> (k, v) \<in> set m"
  by (rule map_of_SomeD)

lemma gm_get_None_iff: "gm_get m k = None \<longleftrightarrow> k \<notin> fst ` set m"
  by (rule map_of_eq_None_iff)

text \<open>Two iteration orders of one map hold the same pairs.\<close>

lemma gomap_same_mset:
  assumes "gomap_ok m" and "gomap_ok m'" and "gm_get m = gm_get m'"
  shows "mset m = mset m'"
proof -
  have "set m = set m'"
    using assms by (auto simp: gm_get_iff [symmetric] simp del: map_of_eq_Some_iff)
  moreover have "distinct m" and "distinct m'"
    using assms by (auto simp: gomap_ok_def distinct_map)
  ultimately show ?thesis
    by (simp add: set_eq_iff_mset_eq_distinct)
qed

section \<open>Sorting\<close>

text \<open>
  \<open>sort.Slice\<close> is not stable, so its result is fixed only where the keys are distinct: any
  rearrangement that is sorted by an injective key is the one \<open>sort_key\<close> computes.
\<close>

lemma sort_key_unique:
  assumes "mset ys = mset xs" and "inj_on f (set xs)" and "sorted (map f ys)"
  shows "ys = sort_key f xs"
proof -
  have "mset (map f ys) = mset (map f (sort_key f xs))"
    using assms(1) by (simp add: mset_map)
  then have "map f ys = map f (sort_key f xs)"
    using assms(3) by (metis properties_for_sort sorted_sort_key)
  moreover have "set ys = set xs"
    using assms(1) by (metis set_mset_mset)
  ultimately show ?thesis
    using assms(2) by (intro map_inj_on [where f = f]) simp_all
qed

lemma sort_key_order_irrelevant:
  assumes "mset xs = mset ys" and "inj_on f (set xs)"
  shows "sort_key f xs = sort_key f ys"
proof (rule sort_key_unique)
  show "mset (sort_key f xs) = mset ys"
    using assms(1) by simp
  have "set xs = set ys"
    using assms(1) by (metis set_mset_mset)
  with assms(2) show "inj_on f (set ys)"
    by simp
qed simp

lemma sorted_distinct_strict:
  fixes xs :: "'a::linorder list"
  shows "sorted xs \<Longrightarrow> distinct xs \<Longrightarrow> sorted_wrt (<) xs"
  by (simp add: strict_sorted_iff)

section \<open>Reasoning about sequences of calls\<close>

text \<open>
  \<open>triple P m Q E\<close>: from a state with \<open>P\<close>, the call \<open>m\<close> ends in a state with \<open>Q x\<close> when it returns
  \<open>x\<close> and in a state with \<open>E e\<close> when it returns the error \<open>e\<close>.
\<close>

definition triple ::
  "('s \<Rightarrow> bool) \<Rightarrow> ('s \<Rightarrow> ('e, 'a) result \<times> 's) \<Rightarrow> ('a \<Rightarrow> 's \<Rightarrow> bool) \<Rightarrow> ('e \<Rightarrow> 's \<Rightarrow> bool) \<Rightarrow> bool"
where
  "triple P m Q E \<longleftrightarrow>
     (\<forall>s. P s \<longrightarrow> (case m s of (Inl e, s') \<Rightarrow> E e s' | (Inr x, s') \<Rightarrow> Q x s'))"

lemma tripleI:
  assumes "\<And>s e s'. P s \<Longrightarrow> m s = (Inl e, s') \<Longrightarrow> E e s'"
    and "\<And>s x s'. P s \<Longrightarrow> m s = (Inr x, s') \<Longrightarrow> Q x s'"
  shows "triple P m Q E"
  using assms by (auto simp: triple_def split: prod.split sum.split)

lemma triple_Inl: "triple P m Q E \<Longrightarrow> P s \<Longrightarrow> m s = (Inl e, s') \<Longrightarrow> E e s'"
  by (auto simp: triple_def)

lemma triple_Inr: "triple P m Q E \<Longrightarrow> P s \<Longrightarrow> m s = (Inr x, s') \<Longrightarrow> Q x s'"
  by (auto simp: triple_def)

lemma triple_bind:
  assumes "triple P m R E" and "\<And>x. triple (R x) (k x) Q E"
  shows "triple P (and_then m k) Q E"
proof (rule tripleI)
  fix s e s'
  assume P: "P s" and "and_then m k s = (Inl e, s')"
  then consider "m s = (Inl e, s')" | x s1 where "m s = (Inr x, s1)" "k x s1 = (Inl e, s')"
    by (auto simp: and_then_def split: prod.splits sum.splits)
  then show "E e s'"
    by cases (use P assms triple_Inl triple_Inr in metis)+
next
  fix s x s'
  assume P: "P s" and "and_then m k s = (Inr x, s')"
  then obtain y s1 where "m s = (Inr y, s1)" "k y s1 = (Inr x, s')"
    by (auto simp: and_then_def split: prod.splits sum.splits)
  with P show "Q x s'"
    using assms triple_Inr by metis
qed

lemma triple_weaken:
  assumes "triple P m Q E" and "\<And>s. P' s \<Longrightarrow> P s"
    and "\<And>x s. Q x s \<Longrightarrow> Q' x s" and "\<And>e s. E e s \<Longrightarrow> E' e s"
  shows "triple P' m Q' E'"
proof (rule tripleI)
  show "E' e s'" if "P' s" and "m s = (Inl e, s')" for s e s'
    using triple_Inl [OF assms(1) assms(2) [OF that(1)] that(2)] by (rule assms(4))
  show "Q' x s'" if "P' s" and "m s = (Inr x, s')" for s x s'
    using triple_Inr [OF assms(1) assms(2) [OF that(1)] that(2)] by (rule assms(3))
qed

end
