(* ===== verification/Go_Strings.thy ===== *)
theory Go_Strings
  imports Bonnie_Prelude
begin

text \<open>
  The parts of Go's \<open>strings\<close> and \<open>strconv\<close> packages that the program calls, on byte strings
  (\<open>char\<close> is a byte): prefixes, trimming, splitting, and decimal numbers at their 64-bit width.
  The lemmas are the round trips and bounds the parsers of the other theories rest on.
\<close>

section \<open>Prefixes and suffixes\<close>

definition has_prefix :: "string \<Rightarrow> string \<Rightarrow> bool" where
  "has_prefix s p \<longleftrightarrow> take (length p) s = p"

definition trim_prefix :: "string \<Rightarrow> string \<Rightarrow> string" where
  "trim_prefix s p = (if has_prefix s p then drop (length p) s else s)"

definition trim_suffix :: "string \<Rightarrow> string \<Rightarrow> string" where
  "trim_suffix s p = rev (trim_prefix (rev s) (rev p))"

lemma has_prefix_iff: "has_prefix s p \<longleftrightarrow> (\<exists>t. s = p @ t)"
  by (metis append_eq_conv_conj append_take_drop_id has_prefix_def)

lemma has_prefix_append [simp]: "has_prefix (p @ t) p"
  by (auto simp: has_prefix_iff)

lemma has_prefix_Nil [simp]: "has_prefix s []"
  by (simp add: has_prefix_def)

lemma has_prefix_Cons [simp]: "has_prefix (c # s) (d # p) \<longleftrightarrow> c = d \<and> has_prefix s p"
  by (auto simp: has_prefix_def)

lemma has_prefix_of_Nil [simp]: "has_prefix [] p \<longleftrightarrow> p = []"
  by (auto simp: has_prefix_def)

lemma trim_prefix_append [simp]: "trim_prefix (p @ t) p = t"
  by (simp add: trim_prefix_def)

section \<open>White space\<close>

text \<open>
  The UTF-8 encodings of the code points \<open>unicode.IsSpace\<close> accepts: the six ASCII ones, U+0085,
  U+00A0, U+1680, U+2000 to U+200A, U+2028, U+2029, U+202F, U+205F and U+3000.
\<close>

definition go_spaces :: "string list" where
  "go_spaces =
     [[CHR 0x20], [CHR 0x09], [CHR 0x0A], [CHR 0x0B], [CHR 0x0C], [CHR 0x0D],
      [CHR 0xC2, CHR 0x85], [CHR 0xC2, CHR 0xA0], [CHR 0xE1, CHR 0x9A, CHR 0x80]]
     @ map (\<lambda>c. [CHR 0xE2, CHR 0x80, c])
         [CHR 0x80, CHR 0x81, CHR 0x82, CHR 0x83, CHR 0x84, CHR 0x85, CHR 0x86, CHR 0x87,
          CHR 0x88, CHR 0x89, CHR 0x8A, CHR 0xA8, CHR 0xA9, CHR 0xAF]
     @ [[CHR 0xE2, CHR 0x81, CHR 0x9F], [CHR 0xE3, CHR 0x80, CHR 0x80]]"

text \<open>The bytes a space can start with, and the bytes it can end with.\<close>

definition space_head :: "char \<Rightarrow> bool" where
  "space_head c \<longleftrightarrow> (\<exists>p \<in> set go_spaces. hd p = c)"

definition space_last :: "char \<Rightarrow> bool" where
  "space_last c \<longleftrightarrow> (\<exists>p \<in> set go_spaces. last p = c)"

text \<open>\<open>strip_front ps s\<close> drops from the front of \<open>s\<close> every piece that is in \<open>ps\<close>.\<close>

function strip_front :: "string list \<Rightarrow> string \<Rightarrow> string" where
  "strip_front ps s =
     (case find (\<lambda>p. p \<noteq> [] \<and> has_prefix s p) ps of
        None \<Rightarrow> s
      | Some p \<Rightarrow> strip_front ps (drop (length p) s))"
  by pat_completeness auto
termination
  by (relation "measure (\<lambda>(ps, s). length s)")
    (auto simp: find_Some_iff has_prefix_iff)

declare strip_front.simps [simp del]

definition trim_left :: "string \<Rightarrow> string" where
  "trim_left s = strip_front go_spaces s"

definition trim_right :: "string \<Rightarrow> string" where
  "trim_right s = rev (strip_front (map rev go_spaces) (rev s))"

definition trim_space :: "string \<Rightarrow> string" where
  "trim_space s = trim_right (trim_left s)"

text \<open>\<open>strings.TrimRight(s, "\<dots>")\<close> for a cutset of one byte.\<close>

definition trim_right_byte :: "char \<Rightarrow> string \<Rightarrow> string" where
  "trim_right_byte c s = rev (dropWhile (\<lambda>x. x = c) (rev s))"

lemma strip_front_no_prefix:
  "(\<And>p. p \<in> set ps \<Longrightarrow> p \<noteq> [] \<Longrightarrow> \<not> has_prefix s p) \<Longrightarrow> strip_front ps s = s"
  by (subst strip_front.simps) (auto simp: find_None_iff split: option.split dest!: find_Some_iff [THEN iffD1])

lemma strip_front_Nil [simp]: "strip_front ps [] = []"
  by (rule strip_front_no_prefix) simp

lemma strip_front_head:
  "(\<And>p. p \<in> set ps \<Longrightarrow> p \<noteq> [] \<Longrightarrow> hd p \<noteq> c) \<Longrightarrow> strip_front ps (c # s) = c # s"
  by (rule strip_front_no_prefix) (metis has_prefix_Cons list.exhaust_sel)

lemma go_spaces_nonempty: "p \<in> set go_spaces \<Longrightarrow> p \<noteq> []"
  by (auto simp: go_spaces_def)

lemma trim_left_Cons: "\<not> space_head c \<Longrightarrow> trim_left (c # s) = c # s"
  unfolding trim_left_def by (rule strip_front_head) (auto simp: space_head_def)

lemma trim_right_snoc: "\<not> space_last c \<Longrightarrow> trim_right (s @ [c]) = s @ [c]"
proof -
  assume c: "\<not> space_last c"
  have "strip_front (map rev go_spaces) (c # rev s) = c # rev s"
    by (rule strip_front_head) (use c in \<open>auto simp: space_last_def hd_rev\<close>)
  then show ?thesis by (simp add: trim_right_def)
qed

text \<open>A text whose first and last bytes can't belong to a space is its own trimming.\<close>

definition trimmed :: "string \<Rightarrow> bool" where
  "trimmed s \<longleftrightarrow> (s \<noteq> [] \<longrightarrow> \<not> space_head (hd s) \<and> \<not> space_last (last s))"

lemma trim_space_trimmed [simp]: "trimmed s \<Longrightarrow> trim_space s = s"
proof (cases s)
  case Nil
  then show ?thesis by (simp add: trim_space_def trim_left_def trim_right_def)
next
  case (Cons c t)
  assume "trimmed s"
  with Cons have l: "trim_left s = s"
    by (simp add: trim_left_Cons trimmed_def)
  from Cons \<open>trimmed s\<close> have "\<not> space_last (last s)"
    by (simp add: trimmed_def)
  then have "trim_right (butlast s @ [last s]) = butlast s @ [last s]"
    by (rule trim_right_snoc)
  moreover have "butlast s @ [last s] = s"
    using Cons by (intro append_butlast_last_id) simp
  ultimately have "trim_right s = s"
    by simp
  with l show ?thesis
    by (simp add: trim_space_def)
qed

section \<open>Splitting\<close>

text \<open>\<open>cut sep s\<close> is the text before and after the first occurrence of \<open>sep\<close>.\<close>

fun cut :: "string \<Rightarrow> string \<Rightarrow> (string \<times> string) option" where
  "cut sep [] = (if sep = [] then Some ([], []) else None)"
| "cut sep (c # s) =
     (if has_prefix (c # s) sep then Some ([], drop (length sep) (c # s))
      else map_option (\<lambda>(a, b). (c # a, b)) (cut sep s))"

lemma cut_Some: "cut sep s = Some (a, b) \<Longrightarrow> s = a @ sep @ b"
proof (induction sep s arbitrary: a rule: cut.induct)
  case (1 sep)
  then show ?case by (auto split: if_splits)
next
  case (2 sep c s)
  then show ?case
    by (auto split: if_splits simp: has_prefix_iff)
qed

lemma cut_shorter: "cut sep s = Some (a, b) \<Longrightarrow> sep \<noteq> [] \<Longrightarrow> length b < length s"
  by (drule cut_Some) (cases sep; simp)

text \<open>\<open>strings.Split\<close>; the separators the program uses are not empty.\<close>

function go_split :: "string \<Rightarrow> string \<Rightarrow> string list" where
  "go_split sep s =
     (if sep = [] then map (\<lambda>c. [c]) s
      else case cut sep s of None \<Rightarrow> [s] | Some (a, b) \<Rightarrow> a # go_split sep b)"
  by pat_completeness auto
termination
  by (relation "measure (\<lambda>(sep, s). length s)") (auto dest: cut_shorter)

declare go_split.simps [simp del]

text \<open>\<open>strings.SplitN(s, sep, 2)\<close>.\<close>

definition split_n2 :: "string \<Rightarrow> string \<Rightarrow> string list" where
  "split_n2 sep s = (case cut sep s of None \<Rightarrow> [s] | Some (a, b) \<Rightarrow> [a, b])"

text \<open>\<open>strings.Join\<close>.\<close>

fun go_join :: "string \<Rightarrow> string list \<Rightarrow> string" where
  "go_join sep [] = []"
| "go_join sep [x] = x"
| "go_join sep (x # y # xs) = x @ sep @ go_join sep (y # xs)"

lemma go_split_nonempty [simp]: "sep \<noteq> [] \<Longrightarrow> go_split sep s \<noteq> []"
  by (subst go_split.simps) (auto split: option.split)

theorem go_join_split: "sep \<noteq> [] \<Longrightarrow> go_join sep (go_split sep s) = s"
proof (induction sep s rule: go_split.induct)
  case (1 sep s)
  show ?case
  proof (cases "cut sep s")
    case None
    then show ?thesis using 1(2) by (simp add: go_split.simps [of sep s])
  next
    case (Some ab)
    obtain a b where ab: "ab = (a, b)" by force
    from 1 Some ab have "go_join sep (go_split sep b) = b" by simp
    moreover obtain x xs where "go_split sep b = x # xs"
      using 1(2) by (metis go_split_nonempty neq_Nil_conv)
    ultimately show ?thesis
      using 1(2) Some ab by (simp add: go_split.simps [of sep s] cut_Some [symmetric])
  qed
qed

text \<open>\<open>bytes.IndexByte\<close> is a cut at one byte; a piece that lacks the byte is split off whole.\<close>

lemma cut_byte_None: "c \<notin> set s \<Longrightarrow> cut [c] s = None"
  by (induction s) auto

lemma cut_byte_Some: "c \<notin> set a \<Longrightarrow> cut [c] (a @ c # b) = Some (a, b)"
  by (induction a) auto

lemma cut_byte_None_iff: "cut [c] s = None \<longleftrightarrow> c \<notin> set s"
  by (metis cut_byte_None cut_byte_Some option.distinct(1) split_list_first)

lemma go_split_byte_None: "c \<notin> set s \<Longrightarrow> go_split [c] s = [s]"
  by (subst go_split.simps) (simp add: cut_byte_None)

lemma go_split_byte_Some: "c \<notin> set a \<Longrightarrow> go_split [c] (a @ c # b) = a # go_split [c] b"
  by (subst go_split.simps) (simp add: cut_byte_Some)

lemma go_split_byte_join:
  "xs \<noteq> [] \<Longrightarrow> (\<forall>x \<in> set xs. c \<notin> set x) \<Longrightarrow> go_split [c] (go_join [c] xs) = xs"
  by (induction "[c]" xs rule: go_join.induct) (auto simp: go_split_byte_None go_split_byte_Some)

lemma cut_byte_fresh: "cut [c] s = Some (a, b) \<Longrightarrow> c \<notin> set a"
  by (induction s arbitrary: a) (auto split: if_splits)

lemma go_split_byte_pieces: "x \<in> set (go_split [c] s) \<Longrightarrow> c \<notin> set x"
proof (induction "[c]" s rule: go_split.induct)
  case (1 s)
  then show ?case
    by (auto simp: go_split.simps [of "[c]" s] cut_byte_None_iff dest: cut_byte_fresh
        split: option.splits)
qed

section \<open>Fields\<close>

text \<open>\<open>strings.Fields\<close>: the pieces between runs of white space.\<close>

fun until_space :: "string \<Rightarrow> string \<times> string" where
  "until_space [] = ([], [])"
| "until_space (c # s) =
     (if \<exists>p \<in> set go_spaces. has_prefix (c # s) p then ([], c # s)
      else let (a, b) = until_space s in (c # a, b))"

lemma until_space_append: "until_space s = (a, b) \<Longrightarrow> s = a @ b"
  by (induction s arbitrary: a b) (auto split: if_splits prod.splits)

lemma strip_front_length: "length (strip_front ps s) \<le> length s"
proof (induction ps s rule: strip_front.induct)
  case (1 ps s)
  then show ?case
    by (subst strip_front.simps) (auto split: option.split intro: le_trans)
qed

function fields :: "string \<Rightarrow> string list" where
  "fields s =
     (case trim_left s of
        [] \<Rightarrow> []
      | c # t \<Rightarrow> (case until_space t of (a, b) \<Rightarrow> (c # a) # fields b))"
  by pat_completeness auto
termination
proof (relation "measure length", simp, simp)
  fix s c t a b
  assume "trim_left s = c # t" and "(a, b) = until_space t"
  then have "length (c # t) \<le> length s" and "length b \<le> length t"
    by (metis strip_front_length trim_left_def, metis until_space_append length_append le_add2)
  then show "length b < length s" by simp
qed

declare fields.simps [simp del]

section \<open>Numbers\<close>

datatype num_error = ErrSyntax | ErrRange

definition max_uint64 :: nat where
  "max_uint64 = 18446744073709551615"

definition digit_val :: "char \<Rightarrow> nat option" where
  "digit_val c = (let n = of_char c in if 48 \<le> n \<and> n \<le> 57 then Some (n - 48) else None)"

definition digit_char :: "nat \<Rightarrow> char" where
  "digit_char d = char_of (48 + d)"

text \<open>
  The loop of \<open>strconv.ParseUint(s, 10, 64)\<close>: a byte that is no digit is a syntax error, a value
  past \<open>2 ^ 64 - 1\<close> a range error, whichever comes first.
\<close>

fun parse_digits :: "nat \<Rightarrow> string \<Rightarrow> num_error + nat" where
  "parse_digits n [] = Inr n"
| "parse_digits n (c # cs) =
     (case digit_val c of
        None \<Rightarrow> Inl ErrSyntax
      | Some d \<Rightarrow>
          if max_uint64 < 10 * n + d then Inl ErrRange else parse_digits (10 * n + d) cs)"

definition parse_uint :: "string \<Rightarrow> num_error + 64 word" where
  "parse_uint s =
     (if s = [] then Inl ErrSyntax
      else case parse_digits 0 s of Inl e \<Rightarrow> Inl e | Inr n \<Rightarrow> Inr (word_of_nat n))"

text \<open>\<open>strconv.Atoi\<close> where \<open>int\<close> has 64 bits.\<close>

definition atoi_unsigned :: "bool \<Rightarrow> string \<Rightarrow> num_error + int" where
  "atoi_unsigned neg ds =
     (if ds = [] then Inl ErrSyntax
      else case parse_digits 0 ds of
        Inl e \<Rightarrow> Inl e
      | Inr n \<Rightarrow>
          if neg then (if 2 ^ 63 < n then Inl ErrRange else Inr (- int n))
          else (if 2 ^ 63 \<le> n then Inl ErrRange else Inr (int n)))"

definition atoi :: "string \<Rightarrow> num_error + int" where
  "atoi s =
     (case s of
        [] \<Rightarrow> Inl ErrSyntax
      | c # cs \<Rightarrow>
          if c = CHR ''-'' then atoi_unsigned True cs
          else if c = CHR ''+'' then atoi_unsigned False cs
          else atoi_unsigned False s)"

text \<open>Printing with \<open>%d\<close>.\<close>

fun show_nat :: "nat \<Rightarrow> string" where
  "show_nat n = (if n < 10 then [digit_char n] else show_nat (n div 10) @ [digit_char (n mod 10)])"

declare show_nat.simps [simp del]

definition show_int :: "int \<Rightarrow> string" where
  "show_int i = (if i < 0 then CHR ''-'' # show_nat (nat (- i)) else show_nat (nat i))"

definition int64_range :: "int \<Rightarrow> bool" where
  "int64_range i \<longleftrightarrow> - (2 ^ 63) \<le> i \<and> i < 2 ^ 63"

lemma of_char_digit_char [simp]: "d < 10 \<Longrightarrow> (of_char (digit_char d) :: nat) = 48 + d"
  by (simp add: digit_char_def)

lemma digit_val_digit_char [simp]: "d < 10 \<Longrightarrow> digit_val (digit_char d) = Some d"
  by (simp add: digit_val_def)

lemma digit_char_eval:
  "digit_char 0 = CHR ''0''" "digit_char 1 = CHR ''1''" "digit_char (Suc 0) = CHR ''1''"
  "digit_char 2 = CHR ''2''" "digit_char 3 = CHR ''3''" "digit_char 4 = CHR ''4''"
  "digit_char 5 = CHR ''5''" "digit_char 6 = CHR ''6''" "digit_char 7 = CHR ''7''"
  "digit_char 8 = CHR ''8''" "digit_char 9 = CHR ''9''"
  by (simp_all add: digit_char_def char_of_eq_iff)

text \<open>Bundles that evaluate these functions on literals.\<close>

lemmas num_eval =
  atoi_def atoi_unsigned_def parse_uint_def max_uint64_def digit_val_def
  show_int_def show_nat.simps digit_char_eval

lemmas trim_eval =
  trim_space_def trim_left_def trim_right_def strip_front.simps go_spaces_def

lemmas trimmed_eval = trimmed_def space_head_def space_last_def go_spaces_def

lemma parse_digits_bound: "parse_digits n s = Inr m \<Longrightarrow> n \<le> max_uint64 \<Longrightarrow> m \<le> max_uint64"
  by (induction n s rule: parse_digits.induct) (auto split: option.splits if_splits)

lemma parse_digits_snoc:
  "parse_digits n s = Inr m \<Longrightarrow> d < 10 \<Longrightarrow> 10 * m + d \<le> max_uint64 \<Longrightarrow>
   parse_digits n (s @ [digit_char d]) = Inr (10 * m + d)"
  by (induction n s rule: parse_digits.induct) (auto split: option.splits if_splits)

lemma parse_digits_show_nat: "n \<le> max_uint64 \<Longrightarrow> parse_digits 0 (show_nat n) = Inr n"
proof (induction n rule: show_nat.induct)
  case (1 n)
  show ?case
  proof (cases "n < 10")
    case True
    then show ?thesis
      by (subst show_nat.simps) (simp add: max_uint64_def)
  next
    case False
    have "parse_digits 0 (show_nat (n div 10) @ [digit_char (n mod 10)]) =
        Inr (10 * (n div 10) + n mod 10)"
      by (rule parse_digits_snoc) (use 1 False in auto)
    with False show ?thesis
      by (subst show_nat.simps) simp
  qed
qed

lemma show_nat_digits: "c \<in> set (show_nat n) \<Longrightarrow> 48 \<le> (of_char c :: nat) \<and> (of_char c :: nat) \<le> 57"
proof (induction n rule: show_nat.induct)
  case (1 n)
  show ?case
  proof (cases "n < 10")
    case True
    with 1(2) show ?thesis
      by (subst (asm) show_nat.simps) simp
  next
    case False
    with 1(2) have "c \<in> set (show_nat (n div 10)) \<or> c = digit_char (n mod 10)"
      by (subst (asm) show_nat.simps) auto
    with 1(1) False show ?thesis by auto
  qed
qed

lemma show_nat_nonempty [simp]: "show_nat n \<noteq> []"
  by (subst show_nat.simps) simp

theorem parse_uint_show: "parse_uint (show_nat (unat w)) = Inr w"
proof -
  have "unat w < 2 ^ LENGTH(64)"
    by (rule unsigned_less)
  then have "unat w \<le> max_uint64"
    by (simp add: max_uint64_def)
  then show ?thesis
    by (simp add: parse_uint_def parse_digits_show_nat)
qed

lemma show_nat_head: "hd (show_nat n) \<noteq> CHR ''-'' \<and> hd (show_nat n) \<noteq> CHR ''+''"
proof -
  have "48 \<le> (of_char (hd (show_nat n)) :: nat)"
    using show_nat_digits [of "hd (show_nat n)" n] by simp
  then show ?thesis by (auto simp: of_char_def)
qed

theorem atoi_show: "int64_range i \<Longrightarrow> atoi (show_int i) = Inr i"
proof (cases "i < 0")
  case True
  moreover assume "int64_range i"
  ultimately have "nat (- i) \<le> 2 ^ 63"
    by (simp add: int64_range_def)
  moreover from this have "parse_digits 0 (show_nat (nat (- i))) = Inr (nat (- i))"
    by (intro parse_digits_show_nat) (simp add: max_uint64_def)
  ultimately show ?thesis
    using True by (simp add: atoi_def show_int_def atoi_unsigned_def)
next
  case False
  moreover assume "int64_range i"
  ultimately have "nat i < 2 ^ 63"
    by (simp add: int64_range_def)
  moreover from this have "parse_digits 0 (show_nat (nat i)) = Inr (nat i)"
    by (intro parse_digits_show_nat) (simp add: max_uint64_def)
  moreover obtain c cs where "show_nat (nat i) = c # cs"
    by (metis show_nat_nonempty neq_Nil_conv)
  ultimately show ?thesis
    using False show_nat_head [of "nat i"] by (simp add: atoi_def show_int_def atoi_unsigned_def)
qed

lemma atoi_range: "atoi s = Inr i \<Longrightarrow> int64_range i"
  by (auto simp: atoi_def atoi_unsigned_def int64_range_def split: list.splits if_splits sum.splits)

text \<open>Different numbers print differently.\<close>

definition digits_value :: "string \<Rightarrow> nat" where
  "digits_value s = foldl (\<lambda>n c. 10 * n + (of_char c - 48)) 0 s"

lemma digits_value_show_nat: "digits_value (show_nat n) = n"
proof (induction n rule: show_nat.induct)
  case (1 n)
  then show ?case
    by (subst show_nat.simps) (auto simp: digits_value_def)
qed

lemma show_nat_inject [simp]: "show_nat m = show_nat n \<longleftrightarrow> m = n"
  by (metis digits_value_show_nat)

end
