(* ===== verification/Go_Utf8.thy ===== *)
theory Go_Utf8
  imports Go_Strings
begin

text \<open>
  UTF-8 as \<open>unicode/utf8\<close> reads and writes it.  A string is cut into runes and bytes that belong to
  none; \<open>encoding/json\<close> replaces each of these bytes by U+FFFD, in what it reads and in what it writes.
\<close>

section \<open>Runes\<close>

definition byte_in :: "nat \<Rightarrow> nat \<Rightarrow> char \<Rightarrow> bool" where
  "byte_in lo hi c \<longleftrightarrow> lo \<le> of_char c \<and> of_char c \<le> hi"

text \<open>\<open>utf8.DecodeRuneInString\<close>: the rune and its width, or \<open>None\<close> where the bytes are not UTF-8.\<close>

definition rune2 :: "char \<Rightarrow> char \<Rightarrow> nat" where
  "rune2 a b = (of_char a - 192) * 64 + (of_char b - 128)"

definition rune3 :: "char \<Rightarrow> char \<Rightarrow> char \<Rightarrow> nat" where
  "rune3 a b c = (of_char a - 224) * 4096 + (of_char b - 128) * 64 + (of_char c - 128)"

definition rune4 :: "char \<Rightarrow> char \<Rightarrow> char \<Rightarrow> char \<Rightarrow> nat" where
  "rune4 a b c d =
     (of_char a - 240) * 262144 + (of_char b - 128) * 4096 + (of_char c - 128) * 64 + (of_char d - 128)"

definition second3 :: "char \<Rightarrow> char \<Rightarrow> bool" where
  "second3 a b \<longleftrightarrow>
     byte_in (if a = CHR 0xE0 then 160 else 128) (if a = CHR 0xED then 159 else 191) b"

definition second4 :: "char \<Rightarrow> char \<Rightarrow> bool" where
  "second4 a b \<longleftrightarrow>
     byte_in (if a = CHR 0xF0 then 144 else 128) (if a = CHR 0xF4 then 143 else 191) b"

definition decode_rune :: "string \<Rightarrow> (nat \<times> nat) option" where
  "decode_rune s =
     (case s of
        [] \<Rightarrow> None
      | a # t \<Rightarrow>
          if byte_in 0 127 a then Some (of_char a, 1)
          else if byte_in 194 223 a then
            (case t of
               b # _ \<Rightarrow> if byte_in 128 191 b then Some (rune2 a b, 2) else None
             | _ \<Rightarrow> None)
          else if byte_in 224 239 a then
            (case t of
               b # c # _ \<Rightarrow> if second3 a b \<and> byte_in 128 191 c then Some (rune3 a b c, 3) else None
             | _ \<Rightarrow> None)
          else if byte_in 240 244 a then
            (case t of
               b # c # d # _ \<Rightarrow>
                 if second4 a b \<and> byte_in 128 191 c \<and> byte_in 128 191 d
                 then Some (rune4 a b c d, 4) else None
             | _ \<Rightarrow> None)
          else None)"

definition utf8 :: "nat \<Rightarrow> string" where
  "utf8 n =
     (if n < 128 then [char_of n]
      else if n < 2048 then [char_of (192 + n div 64), char_of (128 + n mod 64)]
      else if n < 65536 then
        [char_of (224 + n div 4096), char_of (128 + n div 64 mod 64), char_of (128 + n mod 64)]
      else
        [char_of (240 + n div 262144), char_of (128 + n div 4096 mod 64),
         char_of (128 + n div 64 mod 64), char_of (128 + n mod 64)])"

section \<open>Cutting a string into runes\<close>

text \<open>The bytes of each rune, and \<open>None\<close> for a byte that belongs to none.\<close>

function runes :: "string \<Rightarrow> string option list" where
  "runes s =
     (case s of
        [] \<Rightarrow> []
      | c # cs \<Rightarrow>
          (case decode_rune s of
             None \<Rightarrow> None # runes cs
           | Some (r, width) \<Rightarrow> Some (take width s) # runes (drop (width - 1) cs)))"
  by pat_completeness auto
termination
  by (relation "measure length") auto

declare runes.simps [simp del]

text \<open>U+FFFD.\<close>

definition rune_error :: string where
  "rune_error = [CHR 0xEF, CHR 0xBF, CHR 0xBD]"

definition valid_utf8 :: "string \<Rightarrow> bool" where
  "valid_utf8 s \<longleftrightarrow> None \<notin> set (runes s)"

text \<open>Every byte that belongs to no rune replaced by U+FFFD.\<close>

definition to_utf8 :: "string \<Rightarrow> string" where
  "to_utf8 s = concat (map (case_option rune_error (\<lambda>u. u)) (runes s))"

definition rune_bytes :: "string \<Rightarrow> bool" where
  "rune_bytes u \<longleftrightarrow> u \<noteq> [] \<and> map_option snd (decode_rune u) = Some (length u)"

lemma runes_Nil [simp]: "runes [] = []"
  by (simp add: runes.simps)

lemma utf8_error: "utf8 65533 = rune_error"
  by (simp add: utf8_def rune_error_def char_of_eq_iff)

lemma runes_Cons:
  "runes (c # cs) =
     (case decode_rune (c # cs) of
        None \<Rightarrow> None # runes cs
      | Some (r, width) \<Rightarrow> Some (take width (c # cs)) # runes (drop (width - 1) cs))"
  by (subst runes.simps) simp

text \<open>How a rune is found, one case per width.\<close>

lemma decode_rune_cases:
  assumes "decode_rune s = Some (r, w)"
  obtains (w1) a t where "s = a # t" "w = 1" "byte_in 0 127 a"
  | (w2) a b t where "s = a # b # t" "w = 2" "byte_in 194 223 a" "byte_in 128 191 b"
  | (w3) a b c t where "s = a # b # c # t" "w = 3" "byte_in 224 239 a" "second3 a b" "byte_in 128 191 c"
  | (w4) a b c d t where "s = a # b # c # d # t" "w = 4" "byte_in 240 244 a" "second4 a b"
      "byte_in 128 191 c" "byte_in 128 191 d"
  using assms unfolding decode_rune_def by (simp split: list.splits if_splits)

lemma decode_rune_wide:
  "byte_in 0 127 a \<Longrightarrow> decode_rune (a # t) = Some (of_char a, 1)"
  "byte_in 194 223 a \<Longrightarrow> byte_in 128 191 b \<Longrightarrow> decode_rune (a # b # t) = Some (rune2 a b, 2)"
  "byte_in 224 239 a \<Longrightarrow> second3 a b \<Longrightarrow> byte_in 128 191 c \<Longrightarrow>
     decode_rune (a # b # c # t) = Some (rune3 a b c, 3)"
  "byte_in 240 244 a \<Longrightarrow> second4 a b \<Longrightarrow> byte_in 128 191 c \<Longrightarrow> byte_in 128 191 d \<Longrightarrow>
     decode_rune (a # b # c # d # t) = Some (rune4 a b c d, 4)"
  by (simp_all add: decode_rune_def byte_in_def)

lemma decode_rune_local: "decode_rune s = Some (r, w) \<Longrightarrow> \<exists>r'. decode_rune (take w s @ x) = Some (r', w)"
  by (erule decode_rune_cases) (simp_all add: decode_rune_wide)

lemma decode_rune_bytes:
  assumes "decode_rune s = Some (r, w)"
  shows "0 < w" "w \<le> length s" "rune_bytes (take w s)"
proof -
  show w: "0 < w" "w \<le> length s"
    using assms by (auto elim: decode_rune_cases)
  show "rune_bytes (take w s)"
    using decode_rune_local [OF assms, of "[]"] w by (auto simp: rune_bytes_def)
qed

lemma decode_rune_append:
  assumes "rune_bytes u"
  shows "\<exists>r. decode_rune (u @ s) = Some (r, length u)"
  using assms decode_rune_local [of u _ "length u" s] by (auto simp: rune_bytes_def)

lemma runes_bytes: "Some u \<in> set (runes s) \<Longrightarrow> rune_bytes u"
proof (induction s rule: runes.induct)
  case (1 s)
  show ?case
  proof (cases s)
    case (Cons c cs)
    show ?thesis
    proof (cases "decode_rune s")
      case None
      with 1 Cons show ?thesis
        by (simp add: runes_Cons)
    next
      case (Some x)
      obtain r w where x: "x = (r, w)" by force
      with 1 Cons Some decode_rune_bytes(3) [of s r w] show ?thesis
        by (auto simp: runes_Cons)
    qed
  qed (use 1 in simp)
qed

lemma runes_append: "rune_bytes u \<Longrightarrow> runes (u @ s) = Some u # runes s"
  using decode_rune_append [of u s] by (cases u) (auto simp: rune_bytes_def runes_Cons)

lemma runes_concat: "\<forall>u \<in> set us. rune_bytes u \<Longrightarrow> runes (concat us @ s) = map Some us @ runes s"
  by (induction us) (simp_all add: runes_append)

lemma runes_whole: "concat (map (case_option [] (\<lambda>u. u)) (runes s)) = s" if "valid_utf8 s"
  using that unfolding valid_utf8_def
proof (induction s rule: runes.induct)
  case (1 s)
  show ?case
  proof (cases s)
    case (Cons c cs)
    obtain r w where d: "decode_rune s = Some (r, w)"
      using 1(3) Cons by (auto simp: runes_Cons split: option.splits)
    then have "runes s = Some (take w s) # runes (drop (w - 1) cs)"
      using Cons by (simp add: runes_Cons)
    moreover have "take w s @ drop (w - 1) cs = s"
      using Cons decode_rune_bytes(1) [OF d] by (cases w) simp_all
    ultimately show ?thesis
      using 1(2) [OF Cons d refl] 1(3) by simp
  qed simp
qed

lemma to_utf8_valid [simp]: "valid_utf8 s \<Longrightarrow> to_utf8 s = s"
  unfolding to_utf8_def
  by (subst (2) runes_whole [symmetric], assumption)
    (auto intro!: arg_cong [of _ _ concat] simp: valid_utf8_def split: option.split)

lemma rune_bytes_error: "rune_bytes rune_error"
  by (simp add: rune_bytes_def rune_error_def decode_rune_def byte_in_def second3_def)

lemma runes_to_utf8: "runes (to_utf8 s) = map (\<lambda>u. Some (case_option rune_error (\<lambda>u. u) u)) (runes s)"
proof -
  let ?us = "map (case_option rune_error (\<lambda>u. u)) (runes s)"
  have "\<forall>u \<in> set ?us. rune_bytes u"
    by (auto simp: rune_bytes_error runes_bytes split: option.split)
  from runes_concat [OF this, of "[]"] show ?thesis
    by (simp add: to_utf8_def)
qed

lemma valid_to_utf8 [simp]: "valid_utf8 (to_utf8 s)"
  by (auto simp: valid_utf8_def runes_to_utf8)

lemma rune_bytes_ascii: "(of_char c :: nat) < 128 \<Longrightarrow> rune_bytes [c]"
  by (simp add: rune_bytes_def decode_rune_def byte_in_def)

lemma valid_utf8_Nil [simp]: "valid_utf8 []"
  by (simp add: valid_utf8_def)

lemma valid_utf8_Cons: "(of_char c :: nat) < 128 \<Longrightarrow> valid_utf8 (c # s) \<longleftrightarrow> valid_utf8 s"
  using runes_append [OF rune_bytes_ascii, of c s] by (simp add: valid_utf8_def)

lemma valid_utf8_append: "valid_utf8 s \<Longrightarrow> valid_utf8 t \<Longrightarrow> valid_utf8 (s @ t)"
proof -
  assume s: "valid_utf8 s" and t: "valid_utf8 t"
  let ?us = "map (case_option [] (\<lambda>u. u)) (runes s)"
  have "rune_bytes u" if "u \<in> set ?us" for u
    using that s runes_bytes by (auto simp: valid_utf8_def split: option.splits)
  from runes_concat [of ?us t] this have "runes (s @ t) = map Some ?us @ runes t"
    by (simp add: runes_whole [OF s])
  with t show ?thesis
    by (auto simp: valid_utf8_def)
qed

text \<open>A rune is one byte of ASCII or bytes beyond it.\<close>

lemma rune_bytes_cases:
  assumes "rune_bytes u"
  obtains (ascii) c where "u = [c]" "(of_char c :: nat) < 128"
  | (wide) "1 < length u" "\<forall>c \<in> set u. (128 :: nat) \<le> of_char c"
proof -
  obtain r where d: "decode_rune u = Some (r, length u)"
    using assms by (auto simp: rune_bytes_def)
  then show ?thesis
  proof (cases rule: decode_rune_cases)
    case (w1 a t)
    then show ?thesis
      using ascii [of a] by (simp add: byte_in_def)
  qed (auto intro!: wide simp: byte_in_def second3_def second4_def split: if_splits)
qed

end
