(* ===== verification/Go_Json.thy ===== *)
theory Go_Json
  imports Go_Utf8
begin

text \<open>
  JSON as Go's \<open>encoding/json\<close> reads and writes it: the parser over bytes, the compact and the
  indented printer, and the decoding of an object into a struct.  The program keeps its index, its
  requests and its responses in this form.  A byte of a string that is not UTF-8 becomes U+FFFD when
  it is printed and when it is read.  The nesting limit of 10000 is left out.  The main theorem,
  \<open>parse_pp\<close>, is that the parser inverts every layout of the printer that adds only white space, up to
  these bytes; the compact and the indented form are the two instances.
\<close>

datatype json =
    JNull
  | JBool bool
  | JNum string
  | JStr string
  | JArr "json list"
  | JObj "(string \<times> json) list"

section \<open>Lexical parts\<close>

definition is_ws :: "char \<Rightarrow> bool" where
  "is_ws c \<longleftrightarrow> c = CHR 0x20 \<or> c = CHR 0x09 \<or> c = CHR 0x0A \<or> c = CHR 0x0D"

definition skip_ws :: "string \<Rightarrow> string" where
  "skip_ws s = dropWhile is_ws s"

definition is_digit :: "char \<Rightarrow> bool" where
  "is_digit c \<longleftrightarrow> digit_val c \<noteq> None"

text \<open>The number grammar: an integer part with no leading zero, a fraction, an exponent.\<close>

definition valid_exp :: "string \<Rightarrow> bool" where
  "valid_exp s \<longleftrightarrow>
     (case s of
        [] \<Rightarrow> True
      | c # r \<Rightarrow>
          (c = CHR ''e'' \<or> c = CHR ''E'') \<and>
          (let ds = (case r of [] \<Rightarrow> [] | x # y \<Rightarrow> if x = CHR ''+'' \<or> x = CHR ''-'' then y else r)
           in ds \<noteq> [] \<and> list_all is_digit ds))"

definition valid_frac :: "string \<Rightarrow> bool" where
  "valid_frac s \<longleftrightarrow>
     (case s of
        [] \<Rightarrow> True
      | c # r \<Rightarrow>
          if c = CHR ''.''
          then takeWhile is_digit r \<noteq> [] \<and> valid_exp (dropWhile is_digit r)
          else valid_exp s)"

definition valid_number :: "string \<Rightarrow> bool" where
  "valid_number s \<longleftrightarrow>
     (let t = (case s of [] \<Rightarrow> [] | c # r \<Rightarrow> if c = CHR ''-'' then r else s) in
      case t of
        [] \<Rightarrow> False
      | c # r \<Rightarrow>
          if c = CHR ''0'' then valid_frac r
          else is_digit c \<and> valid_frac (dropWhile is_digit r))"

definition num_char :: "char \<Rightarrow> bool" where
  "num_char c \<longleftrightarrow> is_digit c \<or> c \<in> set ''+-.eE''"

text \<open>Escapes inside a string.\<close>

definition hex_val :: "char \<Rightarrow> nat option" where
  "hex_val c =
     (let n = of_char c in
      if 48 \<le> n \<and> n \<le> 57 then Some (n - 48)
      else if 97 \<le> n \<and> n \<le> 102 then Some (n - 87)
      else if 65 \<le> n \<and> n \<le> 70 then Some (n - 55)
      else None)"

fun hex4 :: "string \<Rightarrow> (nat \<times> string) option" where
  "hex4 (a # b # c # d # r) =
     (case (hex_val a, hex_val b, hex_val c, hex_val d) of
        (Some w, Some x, Some y, Some z) \<Rightarrow> Some (4096 * w + 256 * x + 16 * y + z, r)
      | _ \<Rightarrow> None)"
| "hex4 _ = None"

text \<open>
  \<open>\u\<close> escapes: a high surrogate joins the low one that follows, a lone surrogate becomes U+FFFD.
\<close>

definition low_surrogate :: "string \<Rightarrow> (nat \<times> string) option" where
  "low_surrogate s =
     (if has_prefix s [CHR 0x5C, CHR ''u''] then
        (case hex4 (drop 2 s) of
           Some (n, r) \<Rightarrow> if 56320 \<le> n \<and> n < 57344 then Some (n, r) else None
         | None \<Rightarrow> None)
      else None)"

definition u_escape :: "string \<Rightarrow> (string \<times> string) option" where
  "u_escape s =
     (case hex4 s of
        None \<Rightarrow> None
      | Some (n, r) \<Rightarrow>
          if 55296 \<le> n \<and> n < 56320 then
            (case low_surrogate r of
               Some (m, r') \<Rightarrow> Some (utf8 (65536 + (n - 55296) * 1024 + (m - 56320)), r')
             | None \<Rightarrow> Some (rune_error, r))
          else if 56320 \<le> n \<and> n < 57344 then Some (rune_error, r)
          else Some (utf8 n, r))"

definition escape :: "string \<Rightarrow> (string \<times> string) option" where
  "escape s =
     (case s of
        [] \<Rightarrow> None
      | c # r \<Rightarrow>
          if c = CHR 0x22 \<or> c = CHR 0x5C \<or> c = CHR ''/'' then Some ([c], r)
          else if c = CHR ''b'' then Some ([CHR 0x08], r)
          else if c = CHR ''f'' then Some ([CHR 0x0C], r)
          else if c = CHR ''n'' then Some ([CHR 0x0A], r)
          else if c = CHR ''r'' then Some ([CHR 0x0D], r)
          else if c = CHR ''t'' then Some ([CHR 0x09], r)
          else if c = CHR ''u'' then u_escape r
          else None)"

lemma hex4_shorter: "hex4 s = Some (n, r) \<Longrightarrow> length r < length s"
  by (cases s rule: hex4.cases) (auto split: option.splits)

lemma u_escape_shorter: "u_escape s = Some (b, r) \<Longrightarrow> length r < length s"
  by (auto simp: u_escape_def low_surrogate_def split: option.splits if_splits
      dest!: hex4_shorter)

lemma escape_shorter: "escape s = Some (b, r) \<Longrightarrow> length r < length s"
  by (auto simp: escape_def split: list.splits if_splits dest: u_escape_shorter)

text \<open>The rest of a string after its opening quote, with the escapes replaced.\<close>

function str_body :: "string \<Rightarrow> (string \<times> string) option" where
  "str_body [] = None"
| "str_body (c # s) =
     (if c = CHR 0x22 then Some ([], s)
      else if c = CHR 0x5C then
        (case escape s of
           None \<Rightarrow> None
         | Some (b, r) \<Rightarrow> map_option (\<lambda>(t, r'). (b @ t, r')) (str_body r))
      else if (of_char c :: nat) < 32 then None
      else map_option (\<lambda>(t, r'). (c # t, r')) (str_body s))"
  by pat_completeness auto
termination
  by (relation "measure length") (auto dest: escape_shorter)

section \<open>The parser\<close>

text \<open>The next byte that is not white space.\<close>

definition next_tok :: "string \<Rightarrow> (char \<times> string) option" where
  "next_tok s = (case skip_ws s of [] \<Rightarrow> None | c # r \<Rightarrow> Some (c, r))"

text \<open>
  \<open>unquote\<close> replaces every byte that is not UTF-8 by U+FFFD.  What an escape stands for is whole runes,
  which begin with no continuation byte, so it is the same to do so after the escapes.
\<close>

definition pscalar :: "string \<Rightarrow> (json \<times> string) option" where
  "pscalar s =
     (if has_prefix s [CHR 0x22] then map_option (\<lambda>(t, r). (JStr (to_utf8 t), r)) (str_body (tl s))
      else if has_prefix s ''null'' then Some (JNull, drop 4 s)
      else if has_prefix s ''true'' then Some (JBool True, drop 4 s)
      else if has_prefix s ''false'' then Some (JBool False, drop 5 s)
      else if valid_number (takeWhile num_char s)
        then Some (JNum (takeWhile num_char s), dropWhile num_char s)
      else None)"

text \<open>A key with its colon.\<close>

definition pkey :: "string \<Rightarrow> (string \<times> string) option" where
  "pkey s =
     (case next_tok s of
        None \<Rightarrow> None
      | Some (q, s1) \<Rightarrow>
          if q \<noteq> CHR 0x22 then None
          else case str_body s1 of
            None \<Rightarrow> None
          | Some (k, s2) \<Rightarrow>
              (case next_tok s2 of
                 None \<Rightarrow> None
               | Some (c, r) \<Rightarrow> if c = CHR '':'' then Some (to_utf8 k, r) else None))"

text \<open>
  One function per syntactic category, on fuel: every call spends one unit.  \<open>json_parse\<close> gives
  twice the length of the text and two more, which \<open>parser_fuel\<close> below shows to be enough.
\<close>

fun pvalue :: "nat \<Rightarrow> string \<Rightarrow> (json \<times> string) option"
  and pelems :: "nat \<Rightarrow> string \<Rightarrow> (json list \<times> string) option"
  and pmembers :: "nat \<Rightarrow> string \<Rightarrow> ((string \<times> json) list \<times> string) option"
where
  "pvalue 0 s = None"
| "pvalue (Suc n) s =
     (case next_tok s of
        None \<Rightarrow> None
      | Some (c, r) \<Rightarrow>
          if c = CHR ''['' then
            (case next_tok r of
               None \<Rightarrow> None
             | Some (d, r') \<Rightarrow>
                 if d = CHR '']'' then Some (JArr [], r')
                 else map_option (\<lambda>(vs, t). (JArr vs, t)) (pelems n r))
          else if c = CHR ''{'' then
            (case next_tok r of
               None \<Rightarrow> None
             | Some (d, r') \<Rightarrow>
                 if d = CHR ''}'' then Some (JObj [], r')
                 else map_option (\<lambda>(ms, t). (JObj ms, t)) (pmembers n r))
          else pscalar (c # r))"
| "pelems 0 s = None"
| "pelems (Suc n) s =
     (case pvalue n s of
        None \<Rightarrow> None
      | Some (v, r) \<Rightarrow>
          (case next_tok r of
             None \<Rightarrow> None
           | Some (c, r') \<Rightarrow>
               if c = CHR '']'' then Some ([v], r')
               else if c = CHR '','' then map_option (\<lambda>(vs, t). (v # vs, t)) (pelems n r')
               else None))"
| "pmembers 0 s = None"
| "pmembers (Suc n) s =
     (case pkey s of
        None \<Rightarrow> None
      | Some (k, s') \<Rightarrow>
          (case pvalue n s' of
             None \<Rightarrow> None
           | Some (v, r) \<Rightarrow>
               (case next_tok r of
                  None \<Rightarrow> None
                | Some (c, r') \<Rightarrow>
                    if c = CHR ''}'' then Some ([(k, v)], r')
                    else if c = CHR '','' then
                      map_option (\<lambda>(ms, t). ((k, v) # ms, t)) (pmembers n r')
                    else None)))"

definition json_fuel :: "string \<Rightarrow> nat" where
  "json_fuel s = 2 * length s + 2"

definition json_parse :: "string \<Rightarrow> json option" where
  "json_parse s =
     (case pvalue (json_fuel s) s of
        None \<Rightarrow> None
      | Some (v, r) \<Rightarrow> if skip_ws r = [] then Some v else None)"

text \<open>\<open>json.Decoder\<close> reads one value and leaves what follows it.\<close>

definition json_decode :: "string \<Rightarrow> json option" where
  "json_decode s = map_option fst (pvalue (json_fuel s) s)"

text \<open>\<open>json.Valid\<close>.\<close>

definition json_valid :: "string \<Rightarrow> bool" where
  "json_valid s \<longleftrightarrow> json_parse s \<noteq> None"

section \<open>The printers\<close>

definition hex_digit :: "nat \<Rightarrow> char" where
  "hex_digit n = (if n < 10 then char_of (48 + n) else char_of (87 + n))"

text \<open>\<open>appendString\<close> with HTML escaping, as \<open>Marshal\<close>, \<open>MarshalIndent\<close> and \<open>Encode\<close> use it.\<close>

definition esc_char :: "char \<Rightarrow> string" where
  "esc_char c =
     (if c = CHR 0x22 \<or> c = CHR 0x5C then [CHR 0x5C, c]
      else if c = CHR 0x08 then [CHR 0x5C, CHR ''b'']
      else if c = CHR 0x0C then [CHR 0x5C, CHR ''f'']
      else if c = CHR 0x0A then [CHR 0x5C, CHR ''n'']
      else if c = CHR 0x0D then [CHR 0x5C, CHR ''r'']
      else if c = CHR 0x09 then [CHR 0x5C, CHR ''t'']
      else if (of_char c :: nat) < 32 \<or> c = CHR ''<'' \<or> c = CHR ''>'' \<or> c = CHR ''&'' then
        [CHR 0x5C, CHR ''u'', CHR ''0'', CHR ''0'',
         hex_digit (of_char c div 16), hex_digit (of_char c mod 16)]
      else [c])"

definition esc_rune :: "string \<Rightarrow> string" where
  "esc_rune u =
     (if u = [CHR 0xE2, CHR 0x80, CHR 0xA8] then CHR 0x5C # ''u2028''
      else if u = [CHR 0xE2, CHR 0x80, CHR 0xA9] then CHR 0x5C # ''u2029''
      else concat (map esc_char u))"

definition esc_body :: "string \<Rightarrow> string" where
  "esc_body s = concat (map (case_option (CHR 0x5C # ''ufffd'') esc_rune) (runes s))"

definition quote :: "string \<Rightarrow> string" where
  "quote s = CHR 0x22 # esc_body s @ [CHR 0x22]"

text \<open>
  One printer for both forms: \<open>nl d\<close> is what stands on a new line at depth \<open>d\<close>, \<open>sp\<close> what follows
  a colon; both are empty in the compact form.
\<close>

fun pp :: "(nat \<Rightarrow> string) \<Rightarrow> string \<Rightarrow> nat \<Rightarrow> json \<Rightarrow> string"
  and pp_elems :: "(nat \<Rightarrow> string) \<Rightarrow> string \<Rightarrow> nat \<Rightarrow> json list \<Rightarrow> string"
  and pp_members :: "(nat \<Rightarrow> string) \<Rightarrow> string \<Rightarrow> nat \<Rightarrow> (string \<times> json) list \<Rightarrow> string"
where
  "pp nl sp d JNull = ''null''"
| "pp nl sp d (JBool b) = (if b then ''true'' else ''false'')"
| "pp nl sp d (JNum t) = t"
| "pp nl sp d (JStr t) = quote t"
| "pp nl sp d (JArr vs) = (if vs = [] then ''[]'' else CHR ''['' # pp_elems nl sp d vs)"
| "pp nl sp d (JObj ms) = (if ms = [] then ''{}'' else CHR ''{'' # pp_members nl sp d ms)"
| "pp_elems nl sp d [] = []"
| "pp_elems nl sp d (v # vs) =
     nl (Suc d) @ pp nl sp (Suc d) v @
     (if vs = [] then nl d @ '']'' else CHR '','' # pp_elems nl sp d vs)"
| "pp_members nl sp d [] = []"
| "pp_members nl sp d ((k, v) # ms) =
     nl (Suc d) @ quote k @ CHR '':'' # sp @ pp nl sp (Suc d) v @
     (if ms = [] then nl d @ ''}'' else CHR '','' # pp_members nl sp d ms)"

definition json_marshal :: "json \<Rightarrow> string" where
  "json_marshal j = pp (\<lambda>_. []) [] 0 j"

text \<open>\<open>json.MarshalIndent(v, "", "  ")\<close>.\<close>

definition indent_nl :: "nat \<Rightarrow> string" where
  "indent_nl d = CHR 0x0A # replicate (2 * d) (CHR 0x20)"

definition json_marshal_indent :: "json \<Rightarrow> string" where
  "json_marshal_indent j = pp indent_nl [CHR 0x20] 0 j"

section \<open>Enough fuel\<close>

lemma skip_ws_length: "length (skip_ws s) \<le> length s"
  by (simp add: skip_ws_def length_dropWhile_le)

lemma next_tok_shorter: "next_tok s = Some (c, r) \<Longrightarrow> length r < length s"
  using skip_ws_length [of s] by (auto simp: next_tok_def split: list.splits)

lemma next_tok_Cons_shorter: "next_tok s = Some (c, r) \<Longrightarrow> length (c # r) \<le> length s"
  using next_tok_shorter [of s c r] by simp

lemma str_body_shorter: "str_body s = Some (t, r) \<Longrightarrow> length r < length s"
proof (induction s arbitrary: t rule: str_body.induct)
  case 1
  then show ?case by simp
next
  case (2 c s)
  then show ?case
    by (fastforce split: if_splits option.splits dest: escape_shorter)
qed

lemma pscalar_shorter: "pscalar s = Some (v, r) \<Longrightarrow> length r < length s"
proof (cases s)
  case (Cons c t)
  assume p: "pscalar s = Some (v, r)"
  have n: "valid_number (takeWhile num_char (c # t)) \<Longrightarrow> num_char c"
    by (auto simp: valid_number_def split: if_splits)
  have d: "length (dropWhile num_char t) \<le> length t"
    by (rule length_dropWhile_le)
  show ?thesis
    using p Cons n d
    by (auto simp: pscalar_def split: if_splits dest: str_body_shorter)
qed (auto simp: pscalar_def valid_number_def split: if_splits)

lemma pkey_shorter: "pkey s = Some (k, r) \<Longrightarrow> length r < length s"
  by (auto simp: pkey_def split: option.splits if_splits
      dest!: next_tok_shorter str_body_shorter)

lemma parser_shorter:
  "pvalue n s = Some (v, r) \<Longrightarrow> length r < length s"
  "pelems n s = Some (vs, r) \<Longrightarrow> length r < length s"
  "pmembers n s = Some (ms, r) \<Longrightarrow> length r < length s"
proof (induction n s and n s and n s arbitrary: v r and vs r and ms r
    rule: pvalue_pelems_pmembers.induct)
  case (2 n s)
  then show ?case
    by (fastforce split: option.splits if_splits dest: next_tok_shorter next_tok_Cons_shorter
        pscalar_shorter)
next
  case (4 n s)
  then show ?case
    by (fastforce split: option.splits if_splits dest: next_tok_shorter)
next
  case (6 n s)
  then show ?case
    by (fastforce split: option.splits if_splits dest: next_tok_shorter pkey_shorter)
qed simp_all

text \<open>The shape of a successful call, one case per branch of the code.\<close>

lemma pvalue_Suc_cases:
  assumes "pvalue (Suc n) s = Some x"
  obtains (scalar) c r where "next_tok s = Some (c, r)" "c \<noteq> CHR ''[''" "c \<noteq> CHR ''{''"
      "pscalar (c # r) = Some x"
  | (arr0) r r' where "next_tok s = Some (CHR ''['', r)" "next_tok r = Some (CHR '']'', r')"
      "x = (JArr [], r')"
  | (arr) r d r' vs t where "next_tok s = Some (CHR ''['', r)" "next_tok r = Some (d, r')"
      "d \<noteq> CHR '']''" "pelems n r = Some (vs, t)" "x = (JArr vs, t)"
  | (obj0) r r' where "next_tok s = Some (CHR ''{'', r)" "next_tok r = Some (CHR ''}'', r')"
      "x = (JObj [], r')"
  | (obj) r d r' ms t where "next_tok s = Some (CHR ''{'', r)" "next_tok r = Some (d, r')"
      "d \<noteq> CHR ''}''" "pmembers n r = Some (ms, t)" "x = (JObj ms, t)"
  using assms by (auto split: option.splits if_splits)

lemma pelems_Suc_cases:
  assumes "pelems (Suc n) s = Some y"
  obtains (last) v r r' where "pvalue n s = Some (v, r)" "next_tok r = Some (CHR '']'', r')"
      "y = ([v], r')"
  | (more) v r r' vs t where "pvalue n s = Some (v, r)" "next_tok r = Some (CHR '','', r')"
      "pelems n r' = Some (vs, t)" "y = (v # vs, t)"
  using assms by (auto split: option.splits if_splits)

lemma pmembers_Suc_cases:
  assumes "pmembers (Suc n) s = Some z"
  obtains (last) k s' v r r' where "pkey s = Some (k, s')" "pvalue n s' = Some (v, r)"
      "next_tok r = Some (CHR ''}'', r')" "z = ([(k, v)], r')"
  | (more) k s' v r r' ms t where "pkey s = Some (k, s')" "pvalue n s' = Some (v, r)"
      "next_tok r = Some (CHR '','', r')" "pmembers n r' = Some (ms, t)" "z = ((k, v) # ms, t)"
  using assms by (auto split: option.splits if_splits)

lemma parser_fuel:
  "(\<forall>s x m. pvalue n s = Some x \<longrightarrow> 2 * length s + 1 \<le> m \<longrightarrow> pvalue m s = Some x) \<and>
   (\<forall>s y m. pelems n s = Some y \<longrightarrow> 2 * length s + 2 \<le> m \<longrightarrow> pelems m s = Some y) \<and>
   (\<forall>s z m. pmembers n s = Some z \<longrightarrow> 2 * length s + 2 \<le> m \<longrightarrow> pmembers m s = Some z)"
proof (induction n)
  case 0
  then show ?case by simp
next
  case (Suc n)
  then have IHv: "\<And>s x m. pvalue n s = Some x \<Longrightarrow> 2 * length s + 1 \<le> m \<Longrightarrow> pvalue m s = Some x"
    and IHe: "\<And>s y m. pelems n s = Some y \<Longrightarrow> 2 * length s + 2 \<le> m \<Longrightarrow> pelems m s = Some y"
    and IHm: "\<And>s z m. pmembers n s = Some z \<Longrightarrow> 2 * length s + 2 \<le> m \<Longrightarrow> pmembers m s = Some z"
    by blast+
  have "pvalue m s = Some x" if "pvalue (Suc n) s = Some x" and m: "2 * length s + 1 \<le> m"
    for s x m
  proof -
    obtain k where k: "m = Suc k" using m by (cases m) auto
    from that(1) show ?thesis
    proof (cases rule: pvalue_Suc_cases)
      case (arr r d r' vs t)
      have "pelems k r = Some (vs, t)"
        by (rule IHe [OF arr(4)]) (use next_tok_shorter [OF arr(1)] m k in simp)
      with arr k show ?thesis by simp
    next
      case (obj r d r' ms t)
      have "pmembers k r = Some (ms, t)"
        by (rule IHm [OF obj(4)]) (use next_tok_shorter [OF obj(1)] m k in simp)
      with obj k show ?thesis by simp
    qed (simp_all add: k)
  qed
  moreover have "pelems m s = Some y" if "pelems (Suc n) s = Some y" and m: "2 * length s + 2 \<le> m"
    for s y m
  proof -
    obtain k where k: "m = Suc k" using m by (cases m) auto
    from that(1) show ?thesis
    proof (cases rule: pelems_Suc_cases)
      case (last v r r')
      have "pvalue k s = Some (v, r)"
        by (rule IHv [OF last(1)]) (use m k in simp)
      with last k show ?thesis by simp
    next
      case (more v r r' vs t)
      have "pvalue k s = Some (v, r)"
        by (rule IHv [OF more(1)]) (use m k in simp)
      moreover have "pelems k r' = Some (vs, t)"
        by (rule IHe [OF more(3)])
          (use parser_shorter(1) [OF more(1)] next_tok_shorter [OF more(2)] m k in simp)
      ultimately show ?thesis using more k by simp
    qed
  qed
  moreover have "pmembers m s = Some z"
    if "pmembers (Suc n) s = Some z" and m: "2 * length s + 2 \<le> m" for s z m
  proof -
    obtain k where k: "m = Suc k" using m by (cases m) auto
    from that(1) show ?thesis
    proof (cases rule: pmembers_Suc_cases)
      case (last key s' v r r')
      have "pvalue k s' = Some (v, r)"
        by (rule IHv [OF last(2)]) (use m k pkey_shorter [OF last(1)] in simp)
      with last k show ?thesis by simp
    next
      case (more key s' v r r' ms t)
      have "pvalue k s' = Some (v, r)"
        by (rule IHv [OF more(2)]) (use m k pkey_shorter [OF more(1)] in simp)
      moreover have "pmembers k r' = Some (ms, t)"
        by (rule IHm [OF more(4)])
          (use parser_shorter(1) [OF more(2)] next_tok_shorter [OF more(3)]
            pkey_shorter [OF more(1)] m k in simp)
      ultimately show ?thesis using more k by simp
    qed
  qed
  ultimately show ?case by blast
qed

lemma pvalue_mono: "pvalue n s = Some x \<Longrightarrow> 2 * length s + 1 \<le> m \<Longrightarrow> pvalue m s = Some x"
  by (rule parser_fuel [THEN conjunct1, rule_format])

text \<open>The fuel \<open>json_parse\<close> gives decides every text: more of it never finds another value.\<close>

theorem json_parse_fuel:
  "json_parse s = Some v \<longleftrightarrow> (\<exists>n r. pvalue n s = Some (v, r) \<and> skip_ws r = [])"
proof
  assume "json_parse s = Some v"
  then show "\<exists>n r. pvalue n s = Some (v, r) \<and> skip_ws r = []"
    by (auto simp: json_parse_def split: option.splits if_splits) blast
next
  assume "\<exists>n r. pvalue n s = Some (v, r) \<and> skip_ws r = []"
  then obtain n r where n: "pvalue n s = Some (v, r)" and r: "skip_ws r = []"
    by blast
  have "pvalue (json_fuel s) s = Some (v, r)"
    by (rule pvalue_mono [OF n]) (simp add: json_fuel_def)
  with r show "json_parse s = Some v"
    by (simp add: json_parse_def)
qed

section \<open>The parser inverts the printers\<close>

fun json_ok :: "json \<Rightarrow> bool" where
  "json_ok (JNum t) \<longleftrightarrow> valid_number t \<and> list_all num_char t"
| "json_ok (JArr vs) \<longleftrightarrow> (\<forall>v \<in> set vs. json_ok v)"
| "json_ok (JObj ms) \<longleftrightarrow> (\<forall>m \<in> set ms. json_ok (snd m))"
| "json_ok _ \<longleftrightarrow> True"

lemma hex_val_digit: "n < 16 \<Longrightarrow> hex_val (hex_digit n) = Some n"
  by (simp add: hex_val_def hex_digit_def Let_def)

lemma utf8_ascii: "(of_char c :: nat) < 128 \<Longrightarrow> utf8 (of_char c) = [c]"
  by (simp add: utf8_def)

lemma u_escape_ascii:
  assumes "(of_char c :: nat) < 128"
  shows "u_escape (CHR ''0'' # CHR ''0'' # hex_digit (of_char c div 16) #
    hex_digit (of_char c mod 16) # r) = Some ([c], r)"
proof -
  have "hex_val (CHR ''0'') = Some 0"
    by (simp add: hex_val_def)
  moreover have "16 * ((of_char c :: nat) div 16) + of_char c mod 16 = of_char c"
    by simp
  ultimately have "hex4 (CHR ''0'' # CHR ''0'' # hex_digit (of_char c div 16) #
      hex_digit (of_char c mod 16) # r) = Some (of_char c, r)"
    using assms by (simp add: hex_val_digit)
  with assms show ?thesis
    by (simp add: u_escape_def utf8_ascii del: hex4.simps)
qed

lemma str_body_esc_char: "str_body (esc_char c @ t) = map_option (\<lambda>(s, r). (c # s, r)) (str_body t)"
proof -
  have u: "str_body (CHR 0x5C # CHR ''u'' # CHR ''0'' # CHR ''0'' # hex_digit (of_char c div 16) #
      hex_digit (of_char c mod 16) # t) = map_option (\<lambda>(s, r). (c # s, r)) (str_body t)"
    if "(of_char c :: nat) < 128"
    using that by (simp add: escape_def u_escape_ascii)
  define short where
    "short \<longleftrightarrow> c \<in> {CHR 0x22, CHR 0x5C, CHR 0x08, CHR 0x0C, CHR 0x0A, CHR 0x0D, CHR 0x09}"
  define long where
    "long \<longleftrightarrow> (of_char c :: nat) < 32 \<or> c = CHR ''<'' \<or> c = CHR ''>'' \<or> c = CHR ''&''"
  consider short | "\<not> short" long | "\<not> short" "\<not> long"
    by blast
  then show ?thesis
  proof cases
    case 1
    then show ?thesis
      unfolding short_def by (elim insertE emptyE) (simp_all add: esc_char_def escape_def)
  next
    case 2
    then have "esc_char c = [CHR 0x5C, CHR ''u'', CHR ''0'', CHR ''0'',
        hex_digit (of_char c div 16), hex_digit (of_char c mod 16)]"
      by (simp add: esc_char_def short_def long_def)
    moreover have "(of_char c :: nat) < 128"
      using 2(2) unfolding long_def by (elim disjE) simp_all
    ultimately show ?thesis
      using u by (simp del: str_body.simps)
  next
    case 3
    then have "esc_char c = [c]"
      by (simp add: esc_char_def short_def long_def)
    with 3 show ?thesis
      by (simp add: short_def long_def)
  qed
qed

lemma u2028: "escape (''u2028'' @ r) = Some ([CHR 0xE2, CHR 0x80, CHR 0xA8], r)"
  by (simp add: escape_def u_escape_def hex_val_def utf8_def char_of_eq_iff)

lemma u2029: "escape (''u2029'' @ r) = Some ([CHR 0xE2, CHR 0x80, CHR 0xA9], r)"
  by (simp add: escape_def u_escape_def hex_val_def utf8_def char_of_eq_iff)

lemma ufffd: "escape (''ufffd'' @ r) = Some (rune_error, r)"
  by (simp add: escape_def u_escape_def hex_val_def utf8_error)

lemma str_body_esc_chars: "str_body (concat (map esc_char u) @ t) = map_option (\<lambda>(s, r). (u @ s, r)) (str_body t)"
proof (induction u)
  case (Cons c u)
  then show ?case
    by (simp add: str_body_esc_char option.map_comp case_prod_beta comp_def)
qed (simp add: option.map_ident)

lemma str_body_esc_rune: "str_body (esc_rune u @ t) = map_option (\<lambda>(s, r). (u @ s, r)) (str_body t)"
  using u2028 [of t] u2029 [of t] by (simp add: esc_rune_def str_body_esc_chars)

lemma str_body_quote: "str_body (esc_body s @ CHR 0x22 # r) = Some (to_utf8 s, r)"
proof -
  have "str_body (concat (map (case_option (CHR 0x5C # ''ufffd'') esc_rune) us) @ CHR 0x22 # r) =
      Some (concat (map (case_option rune_error (\<lambda>u. u)) us), r)" for us
  proof (induction us)
    case (Cons u us)
    then show ?case
      using ufffd by (cases u) (simp_all add: str_body_esc_rune)
  qed simp
  then show ?thesis
    by (simp add: esc_body_def to_utf8_def)
qed

text \<open>A value with every string made UTF-8.\<close>

fun json_utf8 :: "json \<Rightarrow> json" where
  "json_utf8 (JStr s) = JStr (to_utf8 s)"
| "json_utf8 (JArr vs) = JArr (map json_utf8 vs)"
| "json_utf8 (JObj ms) = JObj (map (map_prod to_utf8 json_utf8) ms)"
| "json_utf8 v = v"

lemma is_digit_props: "is_digit c \<Longrightarrow> num_char c \<and> \<not> is_ws c \<and> c \<notin> set ''[]{},:ntf'' \<and> c \<noteq> CHR 0x22"
  by (auto simp: is_digit_def num_char_def is_ws_def digit_val_def)

lemma valid_number_head:
  assumes "valid_number t"
  obtains c r where "t = c # r" "c = CHR ''-'' \<or> is_digit c"
proof (cases t)
  case Nil
  with assms show ?thesis by (simp add: valid_number_def)
next
  case (Cons c r)
  have "is_digit (CHR ''0'')"
    by (simp add: is_digit_def digit_val_def)
  with Cons assms have "c = CHR ''-'' \<or> is_digit c"
    by (auto simp: valid_number_def split: if_splits)
  with Cons that show ?thesis by blast
qed

lemma next_tok_ws: "list_all is_ws w \<Longrightarrow> \<not> is_ws c \<Longrightarrow> next_tok (w @ c # t) = Some (c, t)"
  by (induction w) (auto simp: next_tok_def skip_ws_def)

lemma is_ws_punct [simp]:
  "\<not> is_ws (CHR ''['')" "\<not> is_ws (CHR '']'')" "\<not> is_ws (CHR ''{'')" "\<not> is_ws (CHR ''}'')"
  "\<not> is_ws (CHR '','')" "\<not> is_ws (CHR '':'')" "\<not> is_ws (CHR 0x22)"
  by (simp_all add: is_ws_def)

text \<open>Every printed value starts with a byte that opens a value.\<close>

lemma pp_head:
  "json_ok v \<Longrightarrow> \<exists>c t. pp nl sp d v = c # t \<and> \<not> is_ws c \<and> c \<noteq> CHR '']'' \<and> c \<noteq> CHR ''}''"
proof (cases v)
  case (JNum x)
  moreover assume "json_ok v"
  ultimately obtain c t where "x = c # t" and c: "c = CHR ''-'' \<or> is_digit c"
    using valid_number_head [of x] by auto
  moreover have "\<not> is_ws c \<and> c \<noteq> CHR '']'' \<and> c \<noteq> CHR ''}''"
    using c is_digit_props [of c] by (auto simp: is_ws_def)
  ultimately show ?thesis
    using JNum by simp
qed (auto simp: is_ws_def quote_def)

definition num_stop :: "string \<Rightarrow> bool" where
  "num_stop r \<longleftrightarrow> (case r of [] \<Rightarrow> True | c # _ \<Rightarrow> \<not> num_char c)"

lemma takeWhile_num: "list_all num_char t \<Longrightarrow> num_stop r \<Longrightarrow>
    takeWhile num_char (t @ r) = t \<and> dropWhile num_char (t @ r) = r"
  by (cases r) (auto simp: num_stop_def list_all_iff takeWhile_append2 dropWhile_append2)

lemma pscalar_number:
  assumes "valid_number t" and "list_all num_char t" and "num_stop r"
  shows "pscalar (t @ r) = Some (JNum t, r)"
proof -
  obtain c u where t: "t = c # u" and c: "c = CHR ''-'' \<or> is_digit c"
    by (rule valid_number_head [OF assms(1)])
  have "c \<noteq> CHR 0x22 \<and> c \<noteq> CHR ''n'' \<and> c \<noteq> CHR ''t'' \<and> c \<noteq> CHR ''f''"
    using c
  proof
    assume "is_digit c"
    then show ?thesis
      using is_digit_props [of c] by simp
  qed simp
  with t have no: "\<not> has_prefix (t @ r) [CHR 0x22] \<and> \<not> has_prefix (t @ r) ''null'' \<and>
      \<not> has_prefix (t @ r) ''true'' \<and> \<not> has_prefix (t @ r) ''false''"
    by simp
  show ?thesis
    using assms(1) takeWhile_num [OF assms(2,3)] no by (simp add: pscalar_def)
qed

lemma pscalar_literals:
  "pscalar (quote t @ r) = Some (JStr (to_utf8 t), r)"
  "pscalar (''null'' @ r) = Some (JNull, r)"
  "pscalar (''true'' @ r) = Some (JBool True, r)"
  "pscalar (''false'' @ r) = Some (JBool False, r)"
  by (simp_all add: pscalar_def quote_def str_body_quote)

lemma pscalar_pp:
  assumes "json_ok v" and "num_stop r" and "\<forall>vs. v \<noteq> JArr vs" and "\<forall>ms. v \<noteq> JObj ms"
  shows "pscalar (pp nl sp d v @ r) = Some (json_utf8 v, r)"
proof (cases v)
  case (JNum t)
  with assms show ?thesis by (simp add: pscalar_number)
next
  case (JBool b)
  then show ?thesis
    using pscalar_literals(3,4) by (cases b) simp_all
qed (use assms pscalar_literals in simp_all)

text \<open>
  Every larger amount of fuel than some \<open>N\<close> reads the printed text back, whatever white space
  stands before it and whatever follows that can't continue a number.
\<close>

definition reads_value :: "string \<Rightarrow> json \<Rightarrow> string \<Rightarrow> bool" where
  "reads_value s v r \<longleftrightarrow> (\<exists>N. \<forall>n \<ge> N. pvalue n s = Some (v, r))"

definition reads_elems :: "string \<Rightarrow> json list \<Rightarrow> string \<Rightarrow> bool" where
  "reads_elems s vs r \<longleftrightarrow> (\<exists>N. \<forall>n \<ge> N. pelems n s = Some (vs, r))"

definition reads_members :: "string \<Rightarrow> (string \<times> json) list \<Rightarrow> string \<Rightarrow> bool" where
  "reads_members s ms r \<longleftrightarrow> (\<exists>N. \<forall>n \<ge> N. pmembers n s = Some (ms, r))"

lemma eventually_Suc: "(\<And>n. N \<le> n \<Longrightarrow> P (Suc n)) \<Longrightarrow> \<exists>M. \<forall>n \<ge> M. P n"
  by (rule exI [of _ "Suc N"]) (metis Suc_le_D Suc_le_mono)

lemma reads_scalar:
  "next_tok s = Some (c, t) \<Longrightarrow> c \<noteq> CHR ''['' \<Longrightarrow> c \<noteq> CHR ''{'' \<Longrightarrow> pscalar (c # t) = Some (v, r) \<Longrightarrow>
   reads_value s v r"
  unfolding reads_value_def by (rule eventually_Suc [of 0]) simp

lemma reads_array0:
  "next_tok s = Some (CHR ''['', t) \<Longrightarrow> next_tok t = Some (CHR '']'', r) \<Longrightarrow>
   reads_value s (JArr []) r"
  unfolding reads_value_def by (rule eventually_Suc [of 0]) simp

lemma reads_array:
  assumes "next_tok s = Some (CHR ''['', t)" and "next_tok t = Some (c, u)" and "c \<noteq> CHR '']''"
    and "reads_elems t vs r"
  shows "reads_value s (JArr vs) r"
proof -
  obtain N where "\<forall>n \<ge> N. pelems n t = Some (vs, r)"
    using assms(4) unfolding reads_elems_def by blast
  with assms(1-3) show ?thesis
    unfolding reads_value_def by (intro eventually_Suc [of N]) simp
qed

lemma reads_object0:
  "next_tok s = Some (CHR ''{'', t) \<Longrightarrow> next_tok t = Some (CHR ''}'', r) \<Longrightarrow>
   reads_value s (JObj []) r"
  unfolding reads_value_def by (rule eventually_Suc [of 0]) simp

lemma reads_object:
  assumes "next_tok s = Some (CHR ''{'', t)" and "next_tok t = Some (c, u)" and "c \<noteq> CHR ''}''"
    and "reads_members t ms r"
  shows "reads_value s (JObj ms) r"
proof -
  obtain N where "\<forall>n \<ge> N. pmembers n t = Some (ms, r)"
    using assms(4) unfolding reads_members_def by blast
  with assms(1-3) show ?thesis
    unfolding reads_value_def by (intro eventually_Suc [of N]) simp
qed

lemma reads_elems_last:
  assumes "reads_value s v t" and "next_tok t = Some (CHR '']'', r)"
  shows "reads_elems s [v] r"
proof -
  obtain N where "\<forall>n \<ge> N. pvalue n s = Some (v, t)"
    using assms(1) unfolding reads_value_def by blast
  with assms(2) show ?thesis
    unfolding reads_elems_def by (intro eventually_Suc [of N]) simp
qed

lemma reads_elems_more:
  assumes "reads_value s v t" and "next_tok t = Some (CHR '','', u)" and "reads_elems u vs r"
  shows "reads_elems s (v # vs) r"
proof -
  obtain N where N: "\<forall>n \<ge> N. pvalue n s = Some (v, t)"
    using assms(1) unfolding reads_value_def by blast
  obtain M where M: "\<forall>n \<ge> M. pelems n u = Some (vs, r)"
    using assms(3) unfolding reads_elems_def by blast
  from N M assms(2) show ?thesis
    unfolding reads_elems_def by (intro eventually_Suc [of "max N M"]) simp
qed

lemma reads_members_last:
  assumes "pkey s = Some (k, s')" and "reads_value s' v t" and "next_tok t = Some (CHR ''}'', r)"
  shows "reads_members s [(k, v)] r"
proof -
  obtain N where "\<forall>n \<ge> N. pvalue n s' = Some (v, t)"
    using assms(2) unfolding reads_value_def by blast
  with assms(1,3) show ?thesis
    unfolding reads_members_def by (intro eventually_Suc [of N]) simp
qed

lemma reads_members_more:
  assumes "pkey s = Some (k, s')" and "reads_value s' v t" and "next_tok t = Some (CHR '','', u)"
    and "reads_members u ms r"
  shows "reads_members s ((k, v) # ms) r"
proof -
  obtain N where N: "\<forall>n \<ge> N. pvalue n s' = Some (v, t)"
    using assms(2) unfolding reads_value_def by blast
  obtain M where M: "\<forall>n \<ge> M. pmembers n u = Some (ms, r)"
    using assms(4) unfolding reads_members_def by blast
  from N M assms(1,3) show ?thesis
    unfolding reads_members_def by (intro eventually_Suc [of "max N M"]) simp
qed

lemma pkey_quote: "list_all is_ws w \<Longrightarrow> pkey (w @ quote k @ CHR '':'' # r) = Some (to_utf8 k, r)"
  using next_tok_ws [of w "CHR 0x22"] next_tok_ws [of "[]" "CHR '':''"]
  by (simp add: pkey_def quote_def str_body_quote)

locale json_layout =
  fixes nl :: "nat \<Rightarrow> string" and sp :: string
  assumes nl_ws: "list_all is_ws (nl d)"
    and sp_ws: "list_all is_ws sp"
begin

lemma pp_next_tok:
  assumes "json_ok v" and "list_all is_ws w"
  shows "\<exists>c t. next_tok (w @ pp nl sp d v @ r) = Some (c, t) \<and> c \<noteq> CHR '']'' \<and> c # t = pp nl sp d v @ r"
proof -
  obtain c t where "pp nl sp d v = c # t" "\<not> is_ws c" "c \<noteq> CHR '']''"
    using pp_head [OF assms(1)] by blast
  then show ?thesis
    using next_tok_ws [OF assms(2), of c "t @ r"] by simp
qed

lemma num_stop_nl: "num_stop (nl d @ c # r)" if "\<not> num_char c"
proof (cases "nl d")
  case (Cons x xs)
  then have "is_ws x"
    using nl_ws [of d] by simp
  then have "\<not> num_char x"
    by (auto simp: is_ws_def num_char_def is_digit_def digit_val_def)
  with Cons show ?thesis by (simp add: num_stop_def)
qed (use that in \<open>simp add: num_stop_def\<close>)

lemma pscalar_bracket: "pscalar (CHR ''['' # t) = None" "pscalar (CHR ''{'' # t) = None"
  by (simp_all add: pscalar_def num_char_def is_digit_def digit_val_def valid_number_def)

lemma reads_pp_scalar:
  assumes "json_ok v" and "list_all is_ws w" and "num_stop r"
    and "\<forall>vs. v \<noteq> JArr vs" and "\<forall>ms. v \<noteq> JObj ms"
  shows "reads_value (w @ pp nl sp d v @ r) (json_utf8 v) r"
proof -
  obtain c t where t: "next_tok (w @ pp nl sp d v @ r) = Some (c, t)" "c # t = pp nl sp d v @ r"
    using pp_next_tok [OF assms(1,2)] by blast
  have p: "pscalar (c # t) = Some (json_utf8 v, r)"
    using pscalar_pp [OF assms(1,3,4,5)] t(2) by simp
  have "c \<noteq> CHR ''['' \<and> c \<noteq> CHR ''{''"
    using p pscalar_bracket [of t] by auto
  with reads_scalar [OF t(1) _ _ p] show ?thesis by simp
qed

definition reads_back :: "json \<Rightarrow> bool" where
  "reads_back v \<longleftrightarrow>
     (\<forall>w d r. list_all is_ws w \<longrightarrow> num_stop r \<longrightarrow> reads_value (w @ pp nl sp d v @ r) (json_utf8 v) r)"

lemma reads_back_scalar:
  "json_ok v \<Longrightarrow> \<forall>vs. v \<noteq> JArr vs \<Longrightarrow> \<forall>ms. v \<noteq> JObj ms \<Longrightarrow> reads_back v"
  unfolding reads_back_def using reads_pp_scalar by blast

lemma reads_pp_elems:
  "vs \<noteq> [] \<Longrightarrow> \<forall>v \<in> set vs. reads_back v \<Longrightarrow> reads_elems (pp_elems nl sp d vs @ r) (map json_utf8 vs) r"
proof (induction vs)
  case Nil
  then show ?case by simp
next
  case (Cons v vs)
  have rv: "reads_value (nl (Suc d) @ pp nl sp (Suc d) v @ t) (json_utf8 v) t" if "num_stop t" for t
    using Cons.prems nl_ws that by (simp add: reads_back_def)
  show ?case
  proof (cases "vs = []")
    case True
    have "num_stop (nl d @ CHR '']'' # r)"
      by (rule num_stop_nl) (simp add: num_char_def is_digit_def digit_val_def)
    from reads_elems_last [OF rv [OF this] next_tok_ws [OF nl_ws]] True show ?thesis
      by simp
  next
    case False
    have "num_stop (CHR '','' # pp_elems nl sp d vs @ r)"
      by (simp add: num_stop_def num_char_def is_digit_def digit_val_def)
    moreover have "next_tok (CHR '','' # u) = Some (CHR '','', u)" for u
      using next_tok_ws [of "[]" "CHR '',''" u] by simp
    ultimately show ?thesis
      using reads_elems_more [OF rv _ Cons.IH] False Cons.prems by simp
  qed
qed

lemma reads_pp_members:
  "ms \<noteq> [] \<Longrightarrow> \<forall>m \<in> set ms. reads_back (snd m) \<Longrightarrow> reads_members (pp_members nl sp d ms @ r) (map (map_prod to_utf8 json_utf8) ms) r"
proof (induction ms)
  case Nil
  then show ?case by simp
next
  case (Cons m ms)
  obtain k v where m: "m = (k, v)" by force
  have rv: "reads_value (sp @ pp nl sp (Suc d) v @ t) (json_utf8 v) t" if "num_stop t" for t
    using Cons.prems sp_ws that m by (simp add: reads_back_def)
  note key = pkey_quote [OF nl_ws]
  show ?case
  proof (cases "ms = []")
    case True
    have "num_stop (nl d @ CHR ''}'' # r)"
      by (rule num_stop_nl) (simp add: num_char_def is_digit_def digit_val_def)
    from reads_members_last [OF key rv [OF this] next_tok_ws [OF nl_ws]] True m show ?thesis
      by simp
  next
    case False
    have "num_stop (CHR '','' # pp_members nl sp d ms @ r)"
      by (simp add: num_stop_def num_char_def is_digit_def digit_val_def)
    moreover have "next_tok (CHR '','' # u) = Some (CHR '','', u)" for u
      using next_tok_ws [of "[]" "CHR '',''" u] by simp
    ultimately show ?thesis
      using reads_members_more [OF key rv _ Cons.IH] False Cons.prems m by simp
  qed
qed

lemma pp_elems_tok:
  assumes "vs \<noteq> []" and "\<forall>v \<in> set vs. json_ok v"
  shows "\<exists>c t. next_tok (pp_elems nl sp d vs @ r) = Some (c, t) \<and> c \<noteq> CHR '']''"
proof (cases vs)
  case (Cons v us)
  then show ?thesis
    using pp_next_tok [OF _ nl_ws, of v "Suc d" "Suc d"] assms by (simp, blast)
qed (use assms in simp)

lemma pp_members_tok:
  assumes "ms \<noteq> []"
  shows "\<exists>c t. next_tok (pp_members nl sp d ms @ r) = Some (c, t) \<and> c \<noteq> CHR ''}''"
proof (cases ms)
  case (Cons m us)
  then show ?thesis
    using next_tok_ws [OF nl_ws, of "CHR 0x22"] by (cases m) (simp add: quote_def)
qed (use assms in simp)

lemma json_ok_reads_back: "json_ok v \<Longrightarrow> reads_back v"
proof (induction v)
  case (JArr vs)
  have "reads_value (w @ pp nl sp d (JArr vs) @ r) (json_utf8 (JArr vs)) r" if w: "list_all is_ws w" for w d r
  proof (cases "vs = []")
    case True
    then show ?thesis
      using next_tok_ws [OF w, of "CHR ''[''"] next_tok_ws [of "[]" "CHR '']''" r]
      by (auto intro: reads_array0)
  next
    case False
    with JArr obtain c t where "next_tok (pp_elems nl sp d vs @ r) = Some (c, t)" "c \<noteq> CHR '']''"
      using pp_elems_tok [of vs d r] by auto
    moreover have "reads_elems (pp_elems nl sp d vs @ r) (map json_utf8 vs) r"
      using JArr False by (intro reads_pp_elems) auto
    ultimately show ?thesis
      using False next_tok_ws [OF w, of "CHR ''[''"] by (auto intro: reads_array)
  qed
  then show ?case by (simp add: reads_back_def)
next
  case (JObj ms)
  have "reads_value (w @ pp nl sp d (JObj ms) @ r) (json_utf8 (JObj ms)) r" if w: "list_all is_ws w" for w d r
  proof (cases "ms = []")
    case True
    then show ?thesis
      using next_tok_ws [OF w, of "CHR ''{''"] next_tok_ws [of "[]" "CHR ''}''" r]
      by (auto intro: reads_object0)
  next
    case False
    then obtain c t where "next_tok (pp_members nl sp d ms @ r) = Some (c, t)" "c \<noteq> CHR ''}''"
      using pp_members_tok [of ms d r] by auto
    moreover have "reads_members (pp_members nl sp d ms @ r) (map (map_prod to_utf8 json_utf8) ms) r"
      using JObj False by (intro reads_pp_members) fastforce+
    ultimately show ?thesis
      using False next_tok_ws [OF w, of "CHR ''{''"] by (auto intro: reads_object)
  qed
  then show ?case by (simp add: reads_back_def)
qed (rule reads_back_scalar; simp)+

lemma parse_pp:
  assumes "json_ok v"
  shows "json_parse (pp nl sp d v) = Some (json_utf8 v)"
proof -
  have "reads_value ([] @ pp nl sp d v @ []) (json_utf8 v) []"
    by (rule json_ok_reads_back [OF assms, unfolded reads_back_def, rule_format])
      (simp_all add: num_stop_def)
  then obtain n where "pvalue n (pp nl sp d v) = Some (json_utf8 v, [])"
    unfolding reads_value_def by auto
  then show ?thesis
    unfolding json_parse_fuel
    by (intro exI [of _ n] exI [of _ "[]"]) (simp add: skip_ws_def)
qed

end

interpretation compact: json_layout "\<lambda>_. []" "[]"
  by unfold_locales simp_all

interpretation indented: json_layout indent_nl "[CHR 0x20]"
  by unfold_locales (simp_all add: indent_nl_def is_ws_def list_all_iff)

section \<open>Decoding into structs\<close>

text \<open>
  \<open>json.Unmarshal\<close> into a struct walks the members in order; a key selects the field whose name it
  equals up to ASCII case, an unknown key is skipped, \<open>null\<close> leaves a scalar field as it is, and a
  value of the wrong type makes the whole call fail.  A decoder takes the value and the old
  contents of the field.
\<close>

definition to_lower :: "char \<Rightarrow> char" where
  "to_lower c =
     (let n = of_char c :: nat in if 65 \<le> n \<and> n \<le> 90 then char_of (n + 32) else c)"

definition equal_fold :: "string \<Rightarrow> string \<Rightarrow> bool" where
  "equal_fold s t \<longleftrightarrow> map to_lower s = map to_lower t"

definition dec_string :: "json \<Rightarrow> string \<Rightarrow> string option" where
  "dec_string j old = (case j of JStr s \<Rightarrow> Some s | JNull \<Rightarrow> Some old | _ \<Rightarrow> None)"

definition dec_int :: "json \<Rightarrow> int \<Rightarrow> int option" where
  "dec_int j old =
     (case j of
        JNum t \<Rightarrow> (case atoi t of Inl _ \<Rightarrow> None | Inr i \<Rightarrow> Some i)
      | JNull \<Rightarrow> Some old
      | _ \<Rightarrow> None)"

definition dec_bool :: "json \<Rightarrow> bool \<Rightarrow> bool option" where
  "dec_bool j old = (case j of JBool b \<Rightarrow> Some b | JNull \<Rightarrow> Some old | _ \<Rightarrow> None)"

fun dec_elems :: "(json \<Rightarrow> 'a option) \<Rightarrow> json list \<Rightarrow> 'a list option" where
  "dec_elems f [] = Some []"
| "dec_elems f (j # js) =
     (case f j of
        None \<Rightarrow> None
      | Some x \<Rightarrow> (case dec_elems f js of None \<Rightarrow> None | Some xs \<Rightarrow> Some (x # xs)))"

definition dec_list :: "(json \<Rightarrow> 'a option) \<Rightarrow> json \<Rightarrow> 'a list option" where
  "dec_list f j = (case j of JArr js \<Rightarrow> dec_elems f js | JNull \<Rightarrow> Some [] | _ \<Rightarrow> None)"

definition dec_strings :: "json \<Rightarrow> string list option" where
  "dec_strings j = dec_list (\<lambda>x. dec_string x []) j"

type_synonym 'r field = "string \<times> (json \<Rightarrow> 'r \<Rightarrow> 'r option)"

definition find_field :: "'r field list \<Rightarrow> string \<Rightarrow> (json \<Rightarrow> 'r \<Rightarrow> 'r option) option" where
  "find_field fs k = map_option snd (find (\<lambda>f. equal_fold (fst f) k) fs)"

fun dec_members :: "'r field list \<Rightarrow> (string \<times> json) list \<Rightarrow> 'r \<Rightarrow> 'r option" where
  "dec_members fs [] r = Some r"
| "dec_members fs ((k, v) # ms) r =
     (case find_field fs k of
        None \<Rightarrow> dec_members fs ms r
      | Some f \<Rightarrow> (case f v r of None \<Rightarrow> None | Some r' \<Rightarrow> dec_members fs ms r'))"

definition dec_struct :: "'r field list \<Rightarrow> json \<Rightarrow> 'r \<Rightarrow> 'r option" where
  "dec_struct fs j r =
     (case j of JObj ms \<Rightarrow> dec_members fs ms r | JNull \<Rightarrow> Some r | _ \<Rightarrow> None)"

lemma find_field_eval [simp]:
  "find_field ((n, f) # fs) k = (if equal_fold n k then Some f else find_field fs k)"
  "find_field [] k = None"
  by (simp_all add: find_field_def)

lemma equal_fold_refl [simp]: "equal_fold s s"
  by (simp add: equal_fold_def)

lemmas fold_eval = equal_fold_def to_lower_def char_of_eq_iff

lemma dec_elems_map:
  "(\<And>x. x \<in> set xs \<Longrightarrow> f (g x) = Some x) \<Longrightarrow> dec_elems f (map g xs) = Some xs"
  by (induction xs) auto

lemma dec_strings_map [simp]: "dec_strings (JArr (map JStr ss)) = Some ss"
  by (simp add: dec_strings_def dec_list_def dec_elems_map dec_string_def)

lemma dec_int_show [simp]: "int64_range i \<Longrightarrow> dec_int (JNum (show_int i)) old = Some i"
  by (simp add: dec_int_def atoi_show)

text \<open>Printed integers are JSON numbers.\<close>

lemma show_nat_Cons:
  "0 < n \<Longrightarrow> \<exists>d ds. show_nat n = digit_char d # ds \<and> 0 < d \<and> d < 10 \<and> list_all is_digit ds"
proof (induction n rule: show_nat.induct)
  case (1 n)
  show ?case
  proof (cases "n < 10")
    case True
    with 1(2) show ?thesis
      by (subst show_nat.simps) auto
  next
    case False
    then have "0 < n div 10"
      by (simp add: div_greater_zero_iff)
    with 1 False obtain d ds where "show_nat (n div 10) = digit_char d # ds" "0 < d" "d < 10"
        "list_all is_digit ds"
      by auto
    moreover from this False have "show_nat n = digit_char d # ds @ [digit_char (n mod 10)]"
      by (subst show_nat.simps) simp
    moreover have "is_digit (digit_char (n mod 10))"
      by (simp add: is_digit_def)
    ultimately show ?thesis
      by auto
  qed
qed

lemma valid_show_nat: "valid_number (show_nat n) \<and> hd (show_nat n) \<noteq> CHR ''-''"
proof (cases "n = 0")
  case True
  then show ?thesis
    by (simp add: show_nat.simps [of 0] digit_char_eval valid_number_def valid_frac_def)
next
  case False
  then obtain d ds where s: "show_nat n = digit_char d # ds" "0 < d" "d < 10" "list_all is_digit ds"
    using show_nat_Cons [of n] by auto
  have "(of_char (digit_char d) :: nat) = 48 + d"
    using s by simp
  then have "digit_char d \<noteq> CHR ''0'' \<and> digit_char d \<noteq> CHR ''-''"
    using s by (metis (no_types) add_left_cancel char.exhaust_sel of_char_digit_char
      digit_char_eval(1) less_numeral_extra(3) nat_less_le show_nat_head hd_conv_nth list.sel(1)
      zero_less_numeral)
  moreover have "is_digit (digit_char d)"
    using s by (simp add: is_digit_def)
  moreover have "valid_frac (dropWhile is_digit ds)"
  proof -
    have "dropWhile is_digit ds = []"
      using s(4) by (simp add: list_all_iff)
    then show ?thesis
      by (simp only:) (simp add: valid_frac_def)
  qed
  ultimately show ?thesis
    using s(1) by (simp add: valid_number_def)
qed

lemma show_nat_num_chars: "list_all num_char (show_nat n)"
  using show_nat_digits [of _ n] by (auto simp: list_all_iff num_char_def is_digit_def digit_val_def)

lemma json_ok_show_int [simp]: "json_ok (JNum (show_int i))"
proof -
  have "num_char (CHR ''-'')"
    by (simp add: num_char_def)
  moreover have "valid_number (CHR ''-'' # show_nat n)" for n
    using valid_show_nat [of n] by (cases "show_nat n") (auto simp: valid_number_def)
  ultimately show ?thesis
    using valid_show_nat show_nat_num_chars by (simp add: show_int_def)
qed

end
