(* ===== verification/Storage_Index.thy ===== *)
theory Storage_Index
  imports Go_Json
begin

text \<open>
  The entry of a staged model and its form in \<open>index.json\<close> (the struct tags of
  \<open>internal/storage/store.go\<close>): what \<open>saveIndexLocked\<close> marshals and what \<open>loadIndex\<close> unmarshals.
  The theorem is that an index read back is the list of entries that was written, but for bytes that
  are not UTF-8.
\<close>

record entry =
  e_id :: string
  e_source :: string
  e_model_id :: string
  e_path :: string
  e_size :: int
  e_files :: "string list"
  e_fetched_at :: timestamp
  e_last_used_at :: timestamp

definition zero_time :: timestamp where
  "zero_time = ''0001-01-01T00:00:00Z''"

definition zero_entry :: entry where
  "zero_entry = \<lparr>e_id = [], e_source = [], e_model_id = [], e_path = [], e_size = 0, e_files = [],
     e_fetched_at = zero_time, e_last_used_at = zero_time\<rparr>"

section \<open>Timestamps\<close>

text \<open>What \<open>time.Time.UnmarshalJSON\<close> accepts: strict RFC 3339.\<close>

definition num_at :: "string \<Rightarrow> nat \<Rightarrow> nat \<Rightarrow> nat option" where
  "num_at s i n =
     (let t = take n (drop i s) in
      if length t = n \<and> list_all is_digit t then Some (digits_value t) else None)"

definition in_range :: "nat option \<Rightarrow> nat \<Rightarrow> nat \<Rightarrow> bool" where
  "in_range x lo hi \<longleftrightarrow> (case x of None \<Rightarrow> False | Some n \<Rightarrow> lo \<le> n \<and> n \<le> hi)"

definition is_leap :: "nat \<Rightarrow> bool" where
  "is_leap y \<longleftrightarrow> y mod 4 = 0 \<and> (y mod 100 \<noteq> 0 \<or> y mod 400 = 0)"

definition days_in :: "nat \<Rightarrow> nat \<Rightarrow> nat" where
  "days_in m y =
     (if m = 2 then (if is_leap y then 29 else 28)
      else if m = 4 \<or> m = 6 \<or> m = 9 \<or> m = 11 then 30 else 31)"

definition zone_ok :: "string \<Rightarrow> bool" where
  "zone_ok s \<longleftrightarrow>
     s = ''Z'' \<or>
     (length s = 6 \<and> (hd s = CHR ''+'' \<or> hd s = CHR ''-'') \<and> s ! 3 = CHR '':'' \<and>
      in_range (num_at s 1 2) 0 23 \<and> in_range (num_at s 4 2) 0 59)"

definition frac_zone_ok :: "string \<Rightarrow> bool" where
  "frac_zone_ok s \<longleftrightarrow>
     (if has_prefix s ''.''
      then takeWhile is_digit (tl s) \<noteq> [] \<and> zone_ok (dropWhile is_digit (tl s))
      else zone_ok s)"

definition rfc3339_ok :: "string \<Rightarrow> bool" where
  "rfc3339_ok s \<longleftrightarrow>
     19 \<le> length s \<and> s ! 4 = CHR ''-'' \<and> s ! 7 = CHR ''-'' \<and> s ! 10 = CHR ''T'' \<and>
     s ! 13 = CHR '':'' \<and> s ! 16 = CHR '':'' \<and>
     (case (num_at s 0 4, num_at s 5 2, num_at s 8 2) of
        (Some y, Some m, Some d) \<Rightarrow> 1 \<le> m \<and> m \<le> 12 \<and> 1 \<le> d \<and> d \<le> days_in m y
      | _ \<Rightarrow> False) \<and>
     in_range (num_at s 11 2) 0 23 \<and> in_range (num_at s 14 2) 0 59 \<and>
     in_range (num_at s 17 2) 0 59 \<and> frac_zone_ok (drop 19 s)"

definition dec_time :: "json \<Rightarrow> timestamp \<Rightarrow> timestamp option" where
  "dec_time j old =
     (case j of
        JStr s \<Rightarrow> if rfc3339_ok s then Some s else None
      | JNull \<Rightarrow> Some old
      | _ \<Rightarrow> None)"

section \<open>Entries and the index\<close>

text \<open>A nil slice of files marshals to \<open>null\<close>.\<close>

definition entry_json :: "entry \<Rightarrow> json" where
  "entry_json e = JObj
     [(''id'', JStr (e_id e)),
      (''source'', JStr (e_source e)),
      (''model_id'', JStr (e_model_id e)),
      (''path'', JStr (e_path e)),
      (''size_bytes'', JNum (show_int (e_size e))),
      (''files'', if e_files e = [] then JNull else JArr (map JStr (e_files e))),
      (''fetched_at'', JStr (e_fetched_at e)),
      (''last_used_at'', JStr (e_last_used_at e))]"

definition entry_fields :: "entry field list" where
  "entry_fields =
     [(''id'', \<lambda>j r. map_option (\<lambda>x. r\<lparr>e_id := x\<rparr>) (dec_string j (e_id r))),
      (''source'', \<lambda>j r. map_option (\<lambda>x. r\<lparr>e_source := x\<rparr>) (dec_string j (e_source r))),
      (''model_id'', \<lambda>j r. map_option (\<lambda>x. r\<lparr>e_model_id := x\<rparr>) (dec_string j (e_model_id r))),
      (''path'', \<lambda>j r. map_option (\<lambda>x. r\<lparr>e_path := x\<rparr>) (dec_string j (e_path r))),
      (''size_bytes'', \<lambda>j r. map_option (\<lambda>x. r\<lparr>e_size := x\<rparr>) (dec_int j (e_size r))),
      (''files'', \<lambda>j r. map_option (\<lambda>x. r\<lparr>e_files := x\<rparr>) (dec_strings j)),
      (''fetched_at'', \<lambda>j r. map_option (\<lambda>x. r\<lparr>e_fetched_at := x\<rparr>) (dec_time j (e_fetched_at r))),
      (''last_used_at'',
        \<lambda>j r. map_option (\<lambda>x. r\<lparr>e_last_used_at := x\<rparr>) (dec_time j (e_last_used_at r)))]"

definition entry_of_json :: "json \<Rightarrow> entry option" where
  "entry_of_json j = dec_struct entry_fields j zero_entry"

text \<open>\<open>json.MarshalIndent\<close> of the slice, and \<open>json.Unmarshal\<close> of bytes into a slice.\<close>

definition index_bytes :: "entry list \<Rightarrow> string" where
  "index_bytes es = json_marshal_indent (JArr (map entry_json es))"

definition index_parse :: "string \<Rightarrow> entry list option" where
  "index_parse data =
     (case json_parse data of None \<Rightarrow> None | Some j \<Rightarrow> dec_list entry_of_json j)"

text \<open>The entries the code builds: a size that fits \<open>int64\<close> and times it formats itself.\<close>

definition entry_made :: "entry \<Rightarrow> bool" where
  "entry_made e \<longleftrightarrow> int64_range (e_size e) \<and>
     (\<forall>t \<in> {e_fetched_at e, e_last_used_at e}. rfc3339_ok t \<and> valid_utf8 t)"

text \<open>An entry all of whose strings are UTF-8, and the one that JSON makes of any other.\<close>

definition entry_wf :: "entry \<Rightarrow> bool" where
  "entry_wf e \<longleftrightarrow> entry_made e \<and>
     list_all valid_utf8 ([e_id e, e_source e, e_model_id e, e_path e] @ e_files e)"

definition entry_utf8 :: "entry \<Rightarrow> entry" where
  "entry_utf8 e = e\<lparr>e_id := to_utf8 (e_id e), e_source := to_utf8 (e_source e),
     e_model_id := to_utf8 (e_model_id e), e_path := to_utf8 (e_path e), e_files := map to_utf8 (e_files e)\<rparr>"

lemma entry_find_field:
  "find_field entry_fields ''id'' =
     Some (\<lambda>j r. map_option (\<lambda>x. r\<lparr>e_id := x\<rparr>) (dec_string j (e_id r)))"
  "find_field entry_fields ''source'' =
     Some (\<lambda>j r. map_option (\<lambda>x. r\<lparr>e_source := x\<rparr>) (dec_string j (e_source r)))"
  "find_field entry_fields ''model_id'' =
     Some (\<lambda>j r. map_option (\<lambda>x. r\<lparr>e_model_id := x\<rparr>) (dec_string j (e_model_id r)))"
  "find_field entry_fields ''path'' =
     Some (\<lambda>j r. map_option (\<lambda>x. r\<lparr>e_path := x\<rparr>) (dec_string j (e_path r)))"
  "find_field entry_fields ''size_bytes'' =
     Some (\<lambda>j r. map_option (\<lambda>x. r\<lparr>e_size := x\<rparr>) (dec_int j (e_size r)))"
  "find_field entry_fields ''files'' =
     Some (\<lambda>j r. map_option (\<lambda>x. r\<lparr>e_files := x\<rparr>) (dec_strings j))"
  "find_field entry_fields ''fetched_at'' =
     Some (\<lambda>j r. map_option (\<lambda>x. r\<lparr>e_fetched_at := x\<rparr>) (dec_time j (e_fetched_at r)))"
  "find_field entry_fields ''last_used_at'' =
     Some (\<lambda>j r. map_option (\<lambda>x. r\<lparr>e_last_used_at := x\<rparr>) (dec_time j (e_last_used_at r)))"
  by (simp_all add: entry_fields_def fold_eval)

lemma dec_strings_null [simp]: "dec_strings JNull = Some []"
  by (simp add: dec_strings_def dec_list_def)

lemma entry_names_utf8:
  "list_all valid_utf8 [''id'', ''source'', ''model_id'', ''path'', ''size_bytes'', ''files'', ''fetched_at'', ''last_used_at'']"
  by code_simp

lemma entry_utf8_wf: "entry_wf e \<Longrightarrow> entry_utf8 e = e"
  by (simp add: entry_wf_def entry_utf8_def list_all_iff map_idI)

lemma entry_of_json_made: "entry_made e \<Longrightarrow> entry_of_json (json_utf8 (entry_json e)) = Some (entry_utf8 e)"
  using entry_names_utf8 dec_strings_map [of "map to_utf8 (e_files e)"]
  by (simp add: entry_of_json_def entry_json_def dec_struct_def entry_find_field dec_string_def
      dec_time_def entry_made_def entry_utf8_def zero_entry_def comp_def)

lemma entry_of_json_entry: "entry_wf e \<Longrightarrow> entry_of_json (json_utf8 (entry_json e)) = Some e"
  using entry_of_json_made [of e] by (simp add: entry_utf8_wf entry_wf_def)

lemma json_ok_entry [simp]: "json_ok (entry_json e)"
  using json_ok_show_int [of "e_size e"] by (auto simp: entry_json_def simp del: json_ok_show_int)

text \<open>The index read back, for the bytes that are not UTF-8 too: they come back as U+FFFD.\<close>

lemma index_parse_made: "\<forall>e \<in> set es. entry_made e \<Longrightarrow> index_parse (index_bytes es) = Some (map entry_utf8 es)"
proof -
  assume made: "\<forall>e \<in> set es. entry_made e"
  have "json_parse (index_bytes es) = Some (json_utf8 (JArr (map entry_json es)))"
    unfolding index_bytes_def json_marshal_indent_def by (rule indented.parse_pp) simp
  moreover have "dec_elems entry_of_json (map (json_utf8 \<circ> entry_json) es) = Some (map entry_utf8 es)"
    using made by (induction es) (simp_all add: entry_of_json_made)
  ultimately show ?thesis
    by (simp add: index_parse_def dec_list_def)
qed

lemma index_parse_bytes: "\<forall>e \<in> set es. entry_wf e \<Longrightarrow> index_parse (index_bytes es) = Some es"
  using index_parse_made [of es] by (simp add: entry_wf_def entry_utf8_wf map_idI)

lemma index_bytes_nonempty [simp]: "index_bytes es \<noteq> []"
  by (simp add: index_bytes_def json_marshal_indent_def)

end
