(* ===== verification/Go_Paths.thy ===== *)
theory Go_Paths
  imports Go_Strings
begin

text \<open>
  The lexical path functions of Go's \<open>path/filepath\<close> on Unix that the storage package calls, and
  the package's own guards \<open>underRoot\<close> and \<open>filepathHasDotDotPrefix\<close> (store.go).  A path is a byte
  string; its normal form is whether it is rooted and the list of its components.  The theorem of
  this theory is that \<open>underRoot\<close> is the prefix order on normalised component lists.
\<close>

abbreviation slash :: char where
  "slash \<equiv> CHR ''/''"

abbreviation dot :: string where
  "dot \<equiv> ''.''"

abbreviation dotdot :: string where
  "dotdot \<equiv> ''..''"

section \<open>Clean, Join and Abs\<close>

definition is_abs :: "string \<Rightarrow> bool" where
  "is_abs p \<longleftrightarrow> has_prefix p ''/''"

text \<open>
  The loop of \<open>filepath.Clean\<close> over the components, the output kept in reverse: empty components
  and \<open>.\<close> vanish, \<open>..\<close> removes the component before it, stays where there is none to remove in a
  relative path, and vanishes at the root.
\<close>

fun clean_loop :: "bool \<Rightarrow> string list \<Rightarrow> string list \<Rightarrow> string list" where
  "clean_loop rooted out [] = rev out"
| "clean_loop rooted out (c # cs) =
     (if c = [] \<or> c = dot then clean_loop rooted out cs
      else if c = dotdot then
        (case out of
           [] \<Rightarrow> if rooted then clean_loop rooted [] cs else clean_loop rooted [dotdot] cs
         | d # ds \<Rightarrow> if d = dotdot then clean_loop rooted (dotdot # out) cs
                     else clean_loop rooted ds cs)
      else clean_loop rooted (c # out) cs)"

definition clean_comps :: "string \<Rightarrow> string list" where
  "clean_comps p = clean_loop (is_abs p) [] (go_split ''/'' p)"

definition clean :: "string \<Rightarrow> string" where
  "clean p =
     (if is_abs p then slash # go_join ''/'' (clean_comps p)
      else if clean_comps p = [] then dot
      else go_join ''/'' (clean_comps p))"

text \<open>\<open>filepath.Join\<close> of two elements: an empty first element is skipped.\<close>

definition path_join :: "string \<Rightarrow> string \<Rightarrow> string" where
  "path_join a b =
     (if a \<noteq> [] then clean (a @ ''/'' @ b) else if b \<noteq> [] then clean b else [])"

text \<open>\<open>filepath.Abs\<close>; \<open>cwd\<close> is what \<open>os.Getwd\<close> returns, \<open>None\<close> its error.\<close>

definition path_abs :: "string option \<Rightarrow> string \<Rightarrow> string option" where
  "path_abs cwd p =
     (if is_abs p then Some (clean p)
      else case cwd of None \<Rightarrow> None | Some wd \<Rightarrow> Some (path_join wd p))"

section \<open>Rel\<close>

text \<open>
  \<open>filepath.Rel\<close> compares the two cleaned paths component by component; what is left of the base
  becomes that many \<open>..\<close>.  A cleaned relative base \<open>.\<close> has no components.
\<close>

definition split_clean :: "string \<Rightarrow> string list" where
  "split_clean p =
     (if is_abs p then (if p = ''/'' then [] else go_split ''/'' (tl p))
      else if p = [] then [] else go_split ''/'' p)"

fun strip_common :: "string list \<Rightarrow> string list \<Rightarrow> string list \<times> string list" where
  "strip_common (b # bs) (t # ts) = (if b = t then strip_common bs ts else (b # bs, t # ts))"
| "strip_common bs ts = (bs, ts)"

definition path_rel :: "string \<Rightarrow> string \<Rightarrow> string option" where
  "path_rel basepath targpath =
     (let base = clean basepath; targ = clean targpath in
      if targ = base then Some dot
      else
        let base' = (if base = dot then [] else base) in
        if is_abs base' \<noteq> is_abs targ then None
        else case strip_common (split_clean base') (split_clean targ) of (bs, ts) \<Rightarrow>
          if bs \<noteq> [] \<and> ts \<noteq> [] \<and> hd bs = dotdot then None
          else Some (go_join ''/'' (replicate (length bs) dotdot @ ts)))"

text \<open>\<open>filepath.Base\<close>: trailing slashes go, then everything up to the last slash.\<close>

definition path_base :: "string \<Rightarrow> string" where
  "path_base p =
     (if p = [] then dot
      else let q = trim_right_byte slash p in
        if q = [] then ''/'' else last (go_split ''/'' q))"

section \<open>The guard of the storage package\<close>

definition filepath_has_dotdot_prefix :: "string \<Rightarrow> bool" where
  "filepath_has_dotdot_prefix rel \<longleftrightarrow>
     (if length rel < 2 then False
      else rel ! 0 = CHR ''.'' \<and> rel ! 1 = CHR ''.'' \<and> (length rel = 2 \<or> rel ! 2 = slash))"

definition under_root :: "string option \<Rightarrow> string \<Rightarrow> string \<Rightarrow> bool" where
  "under_root cwd root path =
     (case path_abs cwd root of
        None \<Rightarrow> False
      | Some abs_root \<Rightarrow>
          (case path_abs cwd path of
             None \<Rightarrow> False
           | Some abs_path \<Rightarrow>
               (case path_rel abs_root abs_path of
                  None \<Rightarrow> False
                | Some rel \<Rightarrow> rel \<noteq> dotdot \<and> \<not> filepath_has_dotdot_prefix rel)))"

section \<open>Normal forms\<close>

text \<open>A normal component is not empty, holds no slash, and is neither \<open>.\<close> nor \<open>..\<close>.\<close>

definition normal_comp :: "string \<Rightarrow> bool" where
  "normal_comp c \<longleftrightarrow> c \<noteq> [] \<and> slash \<notin> set c \<and> c \<noteq> dot \<and> c \<noteq> dotdot"

definition normal_comps :: "string list \<Rightarrow> bool" where
  "normal_comps cs \<longleftrightarrow> (\<forall>c \<in> set cs. normal_comp c)"

lemma normal_comps_simps [simp]:
  "normal_comps []"
  "normal_comps (c # cs) \<longleftrightarrow> normal_comp c \<and> normal_comps cs"
  "normal_comps (cs @ ds) \<longleftrightarrow> normal_comps cs \<and> normal_comps ds"
  "normal_comps (rev cs) \<longleftrightarrow> normal_comps cs"
  by (auto simp: normal_comps_def)

lemma clean_loop_rooted_normal:
  "normal_comps out \<Longrightarrow> (\<forall>c \<in> set cs. slash \<notin> set c) \<Longrightarrow> normal_comps (clean_loop True out cs)"
  by (induction "True" out cs rule: clean_loop.induct)
    (auto simp: normal_comp_def split: list.split)

lemma clean_loop_normal_id:
  "normal_comps cs \<Longrightarrow> clean_loop rooted out cs = rev out @ cs"
  by (induction cs arbitrary: out) (auto simp: normal_comp_def)

lemma split_no_slash: "c \<in> set (go_split ''/'' p) \<Longrightarrow> slash \<notin> set c"
  by (rule go_split_byte_pieces)

lemma clean_comps_abs_normal: "is_abs p \<Longrightarrow> normal_comps (clean_comps p)"
  unfolding clean_comps_def by (simp add: clean_loop_rooted_normal split_no_slash)

text \<open>The text of a rooted path with given components.\<close>

definition abs_text :: "string list \<Rightarrow> string" where
  "abs_text cs = slash # go_join ''/'' cs"

lemma is_abs_abs_text [simp]: "is_abs (abs_text cs)"
  by (simp add: is_abs_def abs_text_def)

lemma clean_abs: "is_abs p \<Longrightarrow> clean p = abs_text (clean_comps p)"
  by (simp add: clean_def abs_text_def)

lemma go_split_slash_join:
  "normal_comps cs \<Longrightarrow> cs \<noteq> [] \<Longrightarrow> go_split ''/'' (go_join ''/'' cs) = cs"
  by (rule go_split_byte_join) (auto simp: normal_comps_def normal_comp_def)

lemma go_join_Nil_iff: "normal_comps cs \<Longrightarrow> go_join ''/'' cs = [] \<longleftrightarrow> cs = []"
  by (cases "(''/'', cs)" rule: go_join.cases) (auto simp: normal_comp_def)

lemma split_abs_text: "go_split ''/'' (slash # s) = [] # go_split ''/'' s"
  using go_split_byte_Some [of slash "[]" s] by simp

lemma clean_comps_abs_text: "normal_comps cs \<Longrightarrow> clean_comps (abs_text cs) = cs"
proof (cases "cs = []")
  case True
  then show ?thesis
    by (simp add: clean_comps_def abs_text_def split_abs_text go_split_byte_None)
next
  case False
  assume "normal_comps cs"
  with False show ?thesis
    by (simp add: clean_comps_def abs_text_def split_abs_text go_split_slash_join
        clean_loop_normal_id)
qed

lemma clean_abs_text [simp]: "normal_comps cs \<Longrightarrow> clean (abs_text cs) = abs_text cs"
  by (simp add: clean_abs clean_comps_abs_text)

lemma split_clean_abs_text: "normal_comps cs \<Longrightarrow> split_clean (abs_text cs) = cs"
  using is_abs_abs_text [of cs]
  by (simp add: split_clean_def abs_text_def go_join_Nil_iff go_split_slash_join)

lemma abs_text_inject: "normal_comps cs \<Longrightarrow> normal_comps ds \<Longrightarrow> abs_text cs = abs_text ds \<longleftrightarrow> cs = ds"
  by (metis clean_comps_abs_text)

section \<open>underRoot is the component prefix order\<close>

lemma strip_common_common: "strip_common (cs @ bs) (cs @ ts) = strip_common bs ts"
  by (induction cs) auto

lemma strip_common_prefix: "strip_common rs (rs @ ts) = ([], ts)"
  by (induction rs) auto

lemma strip_common_append:
  "strip_common rs ps = (bs, ts) \<Longrightarrow> \<exists>cs. rs = cs @ bs \<and> ps = cs @ ts"
proof (induction rs ps rule: strip_common.induct)
  case (1 b bs t ts)
  then show ?case
    by (auto split: if_splits)
qed auto

lemma strip_common_Nil_iff: "fst (strip_common rs ps) = [] \<longleftrightarrow> prefix rs ps"
  by (induction rs ps rule: strip_common.induct) auto

lemma dotdot_prefix_iff:
  "filepath_has_dotdot_prefix s \<longleftrightarrow> s = dotdot \<or> (\<exists>r. s = dotdot @ slash # r)"
proof -
  consider "s = []" | a where "s = [a]" | a b where "s = [a, b]" | a b c r where "s = a # b # c # r"
    by (metis neq_Nil_conv)
  then show ?thesis
    by cases (auto simp: filepath_has_dotdot_prefix_def)
qed

lemma dotdot_prefix_split: "filepath_has_dotdot_prefix s \<longleftrightarrow> hd (go_split ''/'' s) = dotdot"
proof
  assume "filepath_has_dotdot_prefix s"
  then show "hd (go_split ''/'' s) = dotdot"
    using go_split_byte_Some [of slash dotdot] by (auto simp: dotdot_prefix_iff go_split_byte_None)
next
  assume "hd (go_split ''/'' s) = dotdot"
  then obtain r where "go_split ''/'' s = dotdot # r"
    by (metis go_split_nonempty list.collapse not_Cons_self2)
  then have "s = go_join ''/'' (dotdot # r)"
    by (metis go_join_split not_Cons_self2)
  then show "filepath_has_dotdot_prefix s"
    by (cases r) (auto simp: dotdot_prefix_iff)
qed

lemma dotdot_prefix_join:
  assumes "cs \<noteq> []" and "\<forall>c \<in> set cs. slash \<notin> set c"
  shows "filepath_has_dotdot_prefix (go_join ''/'' cs) \<longleftrightarrow> hd cs = dotdot"
  using assms by (simp add: dotdot_prefix_split go_split_byte_join)

lemma path_rel_abs_text:
  assumes "normal_comps rs" and "normal_comps ps" and "strip_common rs ps = (bs, ts)"
  shows "path_rel (abs_text rs) (abs_text ps) =
    Some (if rs = ps then dot else go_join ''/'' (replicate (length bs) dotdot @ ts))"
proof -
  have "\<not> (bs \<noteq> [] \<and> hd bs = dotdot)"
    using strip_common_append [OF assms(3)] assms(1)
    by (cases bs) (auto simp: normal_comp_def)
  moreover have "abs_text rs \<noteq> dot"
    by (simp add: abs_text_def)
  ultimately show ?thesis
    using assms by (auto simp: path_rel_def Let_def split_clean_abs_text abs_text_inject)
qed

lemma under_root_abs_text:
  assumes "normal_comps rs" and "normal_comps ps"
  shows "under_root cwd (abs_text rs) (abs_text ps) \<longleftrightarrow> prefix rs ps"
proof (cases "rs = ps")
  case True
  with assms path_rel_abs_text [of rs ps "[]" "[]"] show ?thesis
    using strip_common_prefix [of rs "[]"]
    by (simp add: under_root_def path_abs_def filepath_has_dotdot_prefix_def)
next
  case False
  obtain bs ts where bt: "strip_common rs ps = (bs, ts)"
    by force
  obtain cs where cs: "rs = cs @ bs" "ps = cs @ ts"
    using strip_common_append [OF bt] by auto
  let ?out = "replicate (length bs) dotdot @ ts"
  have "bs \<noteq> [] \<or> ts \<noteq> []"
    using cs False by blast
  then have ne: "?out \<noteq> []"
    by simp
  have nts: "normal_comps ts"
    using assms(2) cs(2) by simp
  then have "\<forall>c \<in> set ?out. slash \<notin> set c"
    by (simp add: normal_comps_def normal_comp_def ball_Un set_replicate_conv_if)
  then have dd: "filepath_has_dotdot_prefix (go_join ''/'' ?out) \<longleftrightarrow> hd ?out = dotdot"
    using ne by (rule dotdot_prefix_join [rotated])
  have "\<forall>t \<in> set ts. t \<noteq> dotdot"
    using nts by (simp add: normal_comps_def normal_comp_def)
  then have hd: "hd ?out = dotdot \<longleftrightarrow> bs \<noteq> []"
    using ne by (cases bs; cases ts) simp_all
  have eq: "go_join ''/'' ?out = dotdot \<Longrightarrow> filepath_has_dotdot_prefix (go_join ''/'' ?out)"
    by (simp add: dotdot_prefix_iff)
  have "bs = [] \<longleftrightarrow> prefix rs ps"
    using strip_common_Nil_iff [of rs ps] bt by simp
  moreover have "path_rel (abs_text rs) (abs_text ps) = Some (go_join ''/'' ?out)"
    using path_rel_abs_text [OF assms bt] False by simp
  ultimately show ?thesis
    using dd hd eq assms by (auto simp only: under_root_def path_abs_def is_abs_abs_text
        clean_abs_text if_True option.case)
qed

text \<open>
  The components of a path made absolute.  The working directory \<open>os.Getwd\<close> reports is rooted.
\<close>

definition cwd_ok :: "string option \<Rightarrow> bool" where
  "cwd_ok cwd \<longleftrightarrow> (case cwd of None \<Rightarrow> True | Some wd \<Rightarrow> is_abs wd)"

definition abs_comps :: "string option \<Rightarrow> string \<Rightarrow> string list option" where
  "abs_comps cwd p = map_option clean_comps (path_abs cwd p)"

lemma is_abs_append: "is_abs p \<Longrightarrow> is_abs (p @ q)"
  by (auto simp: is_abs_def has_prefix_iff)

lemma path_abs_text:
  assumes "cwd_ok cwd" and "path_abs cwd p = Some q"
  shows "normal_comps (clean_comps q) \<and> q = abs_text (clean_comps q)"
proof -
  have "\<exists>r. is_abs r \<and> q = clean r"
  proof (cases "is_abs p")
    case True
    with assms(2) show ?thesis
      by (auto simp: path_abs_def)
  next
    case False
    with assms obtain wd where wd: "is_abs wd" "q = path_join wd p"
      by (auto simp: path_abs_def cwd_ok_def split: option.splits)
    then have "wd \<noteq> []"
      by (auto simp: is_abs_def)
    with wd show ?thesis
      using is_abs_append [of wd] by (auto simp: path_join_def)
  qed
  then obtain r where r: "is_abs r" "q = clean r"
    by blast
  then have n: "normal_comps (clean_comps r)" and q: "q = abs_text (clean_comps r)"
    by (simp_all add: clean_comps_abs_normal clean_abs)
  then have "clean_comps q = clean_comps r"
    by (simp add: clean_comps_abs_text)
  with n q show ?thesis
    by simp
qed

lemma under_root_abs:
  "path_abs cwd r = Some r' \<Longrightarrow> path_abs cwd p = Some p' \<Longrightarrow> is_abs r' \<Longrightarrow> is_abs p' \<Longrightarrow>
   clean r' = r' \<Longrightarrow> clean p' = p' \<Longrightarrow> under_root cwd r p = under_root cwd r' p'"
  by (simp add: under_root_def path_abs_def)

lemma under_root_prefix:
  assumes "cwd_ok cwd"
  shows "under_root cwd root path \<longleftrightarrow>
    (\<exists>rs ps. abs_comps cwd root = Some rs \<and> abs_comps cwd path = Some ps \<and> prefix rs ps)"
proof (cases "path_abs cwd root = None \<or> path_abs cwd path = None")
  case True
  then show ?thesis
    by (auto simp: under_root_def abs_comps_def split: option.split)
next
  case False
  then obtain r p where rp: "path_abs cwd root = Some r" "path_abs cwd path = Some p"
    by auto
  note r = path_abs_text [OF assms rp(1)] and p = path_abs_text [OF assms rp(2)]
  have "under_root cwd root path = under_root cwd r p"
    using rp r p by (intro under_root_abs) (metis is_abs_abs_text clean_abs_text)+
  also have "\<dots> = under_root cwd (abs_text (clean_comps r)) (abs_text (clean_comps p))"
    using r p by simp
  also have "\<dots> = prefix (clean_comps r) (clean_comps p)"
    using r p by (intro under_root_abs_text) simp_all
  finally show ?thesis
    using rp by (simp add: abs_comps_def)
qed

section \<open>Joining and making absolute\<close>

text \<open>One step of the cleaning loop; the loop is a fold of it.\<close>

definition clean_step :: "bool \<Rightarrow> string list \<Rightarrow> string \<Rightarrow> string list" where
  "clean_step rooted out c = rev (clean_loop rooted out [c])"

lemma clean_step_simps:
  "clean_step rooted out [] = out"
  "clean_step rooted out dot = out"
  "clean_step rooted [] dotdot = (if rooted then [] else [dotdot])"
  "clean_step rooted (d # ds) dotdot = (if d = dotdot then dotdot # d # ds else ds)"
  "c \<noteq> [] \<Longrightarrow> c \<noteq> dot \<Longrightarrow> c \<noteq> dotdot \<Longrightarrow> clean_step rooted out c = c # out"
  by (simp_all add: clean_step_def)

lemma clean_loop_step: "clean_loop rooted out (c # cs) = clean_loop rooted (clean_step rooted out c) cs"
  by (cases out) (simp_all add: clean_step_def)

lemma clean_loop_fold: "clean_loop rooted out cs = rev (foldl (clean_step rooted) out cs)"
proof (induction cs arbitrary: out)
  case (Cons c cs)
  then show ?case
    by (simp only: clean_loop_step foldl_Cons)
qed simp

lemma clean_loop_append:
  "clean_loop rooted out (cs @ ds) = clean_loop rooted (rev (clean_loop rooted out cs)) ds"
  by (simp add: clean_loop_fold)

definition kept_comps :: "string list \<Rightarrow> bool" where
  "kept_comps cs \<longleftrightarrow> (\<forall>c \<in> set cs. c \<noteq> [] \<and> c \<noteq> dot)"

lemma clean_step_kept: "kept_comps out \<Longrightarrow> kept_comps (clean_step rooted out c)"
  by (cases out) (auto simp: kept_comps_def clean_step_def)

text \<open>Cleaning a relative part first makes no difference to the rooted result.\<close>

lemma clean_step_absorb:
  assumes "kept_comps o2"
  shows "foldl (clean_step True) out (rev (clean_step False o2 c)) =
    clean_step True (foldl (clean_step True) out (rev o2)) c"
proof -
  consider "c = []" | "c = dot" | "c = dotdot" | "c \<noteq> []" "c \<noteq> dot" "c \<noteq> dotdot"
    by blast
  then show ?thesis
  proof cases
    case 3
    show ?thesis
    proof (cases o2)
      case Nil
      with 3 show ?thesis by (simp add: clean_step_simps)
    next
      case (Cons d ds)
      show ?thesis
      proof (cases "d = dotdot")
        case True
        with 3 Cons show ?thesis by (simp add: clean_step_simps)
      next
        case False
        moreover have "d \<noteq> [] \<and> d \<noteq> dot"
          using Cons assms by (simp add: kept_comps_def)
        ultimately show ?thesis
          using 3 Cons by (simp add: clean_step_simps)
      qed
    qed
  qed (simp_all add: clean_step_simps)
qed

lemma clean_fold_absorb:
  "kept_comps o2 \<Longrightarrow>
   foldl (clean_step True) out (rev (foldl (clean_step False) o2 cs)) =
   foldl (clean_step True) (foldl (clean_step True) out (rev o2)) cs"
  by (induction cs arbitrary: o2) (simp_all add: clean_step_kept clean_step_absorb)

lemma clean_loop_absorb:
  "clean_loop True out (clean_loop False [] cs) = clean_loop True out cs"
  using clean_fold_absorb [of "[]" out cs] by (simp add: clean_loop_fold kept_comps_def)

lemma go_split_byte_append: "go_split [c] (a @ c # b) = go_split [c] a @ go_split [c] b"
proof (induction "[c]" a rule: go_split.induct)
  case (1 a)
  show ?case
  proof (cases "c \<in> set a")
    case True
    then obtain x y where a: "a = x @ c # y" "c \<notin> set x"
      by (meson split_list_first)
    with 1 show ?thesis
      by (simp add: cut_byte_Some go_split_byte_Some)
  qed (simp add: go_split_byte_None go_split_byte_Some)
qed

lemma clean_loop_no_slash:
  "(\<forall>c \<in> set (out @ cs). slash \<notin> set c) \<Longrightarrow> \<forall>c \<in> set (clean_loop r out cs). slash \<notin> set c"
  by (induction r out cs rule: clean_loop.induct) (auto split: list.split)

lemma clean_loop_kept: "kept_comps out \<Longrightarrow> kept_comps (clean_loop r out cs)"
proof -
  assume "kept_comps out"
  then have "kept_comps (foldl (clean_step r) out cs)"
    by (induction cs arbitrary: out) (simp_all add: clean_step_kept)
  then show ?thesis
    by (simp add: clean_loop_fold kept_comps_def)
qed

text \<open>The components of a cleaned relative path, split again.\<close>

lemma split_clean_rel:
  assumes "\<not> is_abs p"
  shows "clean_loop True out (go_split ''/'' (clean p)) = clean_loop True out (go_split ''/'' p)"
    and "\<not> is_abs (clean p)"
proof -
  let ?cs = "clean_comps p"
  have cs: "?cs = clean_loop False [] (go_split ''/'' p)"
    using assms by (simp add: clean_comps_def)
  then have no: "\<forall>c \<in> set ?cs. slash \<notin> set c" and kept: "kept_comps ?cs"
    using clean_loop_no_slash [of "[]" "go_split ''/'' p" False] split_no_slash [of _ p]
      clean_loop_kept [of "[]" False] by (auto simp: kept_comps_def)
  have "clean_loop True out (go_split ''/'' (clean p)) = clean_loop True out ?cs"
  proof (cases "?cs = []")
    case True
    with assms show ?thesis
      by (simp add: clean_def go_split_byte_None)
  next
    case False
    with assms no show ?thesis
      by (simp add: clean_def go_split_byte_join)
  qed
  then show "clean_loop True out (go_split ''/'' (clean p)) = clean_loop True out (go_split ''/'' p)"
    by (simp add: cs clean_loop_absorb)
  show "\<not> is_abs (clean p)"
  proof (cases ?cs)
    case Nil
    with assms show ?thesis by (simp add: clean_def is_abs_def)
  next
    case (Cons c ds)
    then obtain x xs where "c = x # xs" "x \<noteq> slash"
      using no kept by (cases c) (auto simp: kept_comps_def)
    with Cons assms show ?thesis
      by (cases ds) (simp_all add: clean_def is_abs_def)
  qed
qed

lemma clean_comps_append_slash:
  "is_abs p \<Longrightarrow> clean_comps (p @ slash # s) = clean_loop True (rev (clean_comps p)) (go_split ''/'' s)"
  by (simp add: clean_comps_def is_abs_append go_split_byte_append clean_loop_append)

lemma clean_comps_clean: "is_abs p \<Longrightarrow> clean_comps (clean p) = clean_comps p"
  by (simp add: clean_abs clean_comps_abs_text clean_comps_abs_normal)

lemma abs_comps_abs: "is_abs p \<Longrightarrow> abs_comps cwd p = Some (clean_comps p)"
  by (simp add: abs_comps_def path_abs_def clean_comps_clean)

lemma abs_comps_rel:
  assumes "\<not> is_abs p" and "cwd_ok cwd"
  shows "abs_comps cwd p =
    (case cwd of None \<Rightarrow> None | Some wd \<Rightarrow>
       Some (clean_loop True (rev (clean_comps wd)) (go_split ''/'' p)))"
proof (cases cwd)
  case (Some wd)
  then have wd: "is_abs wd" "wd \<noteq> []"
    using assms by (auto simp: cwd_ok_def is_abs_def)
  with Some assms show ?thesis
    by (simp add: abs_comps_def path_abs_def path_join_def clean_comps_clean is_abs_append
        clean_comps_append_slash)
qed (use assms in \<open>simp add: abs_comps_def path_abs_def\<close>)

text \<open>Joining below a directory walks the second part from the directory's components.\<close>

lemma abs_comps_join:
  assumes "cwd_ok cwd" and "d \<noteq> []" and "abs_comps cwd d = Some dc"
  shows "abs_comps cwd (path_join d s) = Some (clean_loop True (rev dc) (go_split ''/'' s))"
proof (cases "is_abs d")
  case True
  then have "is_abs (clean (d @ slash # s))"
    by (simp add: clean_abs is_abs_append)
  with True assms show ?thesis
    by (simp add: path_join_def abs_comps_abs clean_comps_clean is_abs_append
        clean_comps_append_slash)
next
  case False
  then have rel: "\<not> is_abs (d @ slash # s)"
    using assms(2) by (cases d) (auto simp: is_abs_def)
  obtain wd where wd: "cwd = Some wd"
    using assms False by (cases cwd) (simp_all add: abs_comps_rel)
  have "dc = clean_loop True (rev (clean_comps wd)) (go_split ''/'' d)"
    using assms False wd by (simp add: abs_comps_rel)
  then show ?thesis
    using assms(1,2) split_clean_rel [OF rel] wd
    by (simp add: path_join_def abs_comps_rel go_split_byte_append clean_loop_append)
qed

lemma abs_comps_join_name:
  assumes "cwd_ok cwd" and "d \<noteq> []" and "abs_comps cwd d = Some dc" and "normal_comp x"
  shows "abs_comps cwd (path_join d x) = Some (dc @ [x])"
proof -
  have "go_split ''/'' x = [x]"
    using assms(4) by (simp add: normal_comp_def go_split_byte_None)
  then show ?thesis
    using abs_comps_join [OF assms(1-3), of x] assms(4) by (auto simp: normal_comp_def)
qed

lemma abs_comps_normal: "cwd_ok cwd \<Longrightarrow> abs_comps cwd p = Some cs \<Longrightarrow> normal_comps cs"
  using path_abs_text [of cwd p] by (auto simp: abs_comps_def)

lemma clean_nonempty [simp]: "clean p \<noteq> []"
proof (cases "is_abs p")
  case False
  have "kept_comps (clean_comps p)"
    unfolding clean_comps_def by (rule clean_loop_kept) (simp add: kept_comps_def)
  then have "clean_comps p \<noteq> [] \<Longrightarrow> go_join ''/'' (clean_comps p) \<noteq> []"
    by (cases "(''/'', clean_comps p)" rule: go_join.cases) (auto simp: kept_comps_def)
  with False show ?thesis
    by (simp add: clean_def)
qed (simp add: clean_def)

lemma path_join_nonempty [simp]: "a \<noteq> [] \<Longrightarrow> path_join a b \<noteq> []"
  by (simp add: path_join_def)

section \<open>Relative paths below a directory\<close>

text \<open>The components of a cleaned relative path: some \<open>..\<close>, then normal components.\<close>

definition canon :: "string list \<Rightarrow> bool" where
  "canon B \<longleftrightarrow> (\<exists>k N. B = replicate k dotdot @ N \<and> normal_comps N)"

definition rel_text :: "string list \<Rightarrow> string" where
  "rel_text B = (if B = [] then dot else go_join ''/'' B)"

lemma canon_Nil [simp]: "canon []"
  by (simp add: canon_def)

lemma canonI: "normal_comps N \<Longrightarrow> canon (replicate k dotdot @ N)"
  unfolding canon_def by blast

lemma canon_append [simp]:
  assumes "canon B" and "normal_comps cs"
  shows "canon (B @ cs)"
proof -
  obtain k N where "B = replicate k dotdot @ N" and "normal_comps N"
    using assms(1) by (auto simp: canon_def)
  with assms(2) show ?thesis
    using canonI [of "N @ cs" k] by simp
qed

lemma canon_snoc_cases:
  assumes "canon (B @ [d])"
  shows "canon B" and "d = dotdot \<Longrightarrow> canon (B @ [d, dotdot])"
proof -
  obtain k N where B: "B @ [d] = replicate k dotdot @ N" and N: "normal_comps N"
    using assms by (auto simp: canon_def)
  show "canon B"
  proof (cases N rule: rev_cases)
    case Nil
    with B obtain j where "k = Suc j"
      by (cases k) auto
    with B Nil have "B = replicate j dotdot @ []"
      by (simp flip: replicate_append_same)
    then show ?thesis
      unfolding canon_def by (metis normal_comps_simps(1))
  next
    case (snoc M c)
    with B N show ?thesis
      by (auto simp: canon_def)
  qed
  show "canon (B @ [d, dotdot])" if d: "d = dotdot"
  proof (cases N rule: rev_cases)
    case Nil
    with B d have "B @ [d, dotdot] = replicate (Suc k) dotdot @ []"
      by (metis append.assoc append_Cons append_Nil append_Nil2 replicate_Suc replicate_append_same)
    then show ?thesis
      unfolding canon_def by (metis normal_comps_simps(1))
  next
    case (snoc M c)
    with B N d show ?thesis
      by (auto simp: normal_comp_def)
  qed
qed

lemma clean_loop_canon:
  "canon (rev out) \<Longrightarrow> (\<forall>c \<in> set cs. slash \<notin> set c) \<Longrightarrow> canon (clean_loop False out cs)"
proof (induction "False" out cs rule: clean_loop.induct)
  case (2 out c cs)
  show ?case
  proof (cases "c = [] \<or> c = dot \<or> c = dotdot")
    case True
    have "canon [dotdot]"
      unfolding canon_def by (rule exI [of _ 1]) auto
    with True 2 show ?thesis
      by (cases out) (auto dest: canon_snoc_cases)
  next
    case False
    with 2 have "normal_comp c"
      by (simp add: normal_comp_def)
    with 2 False show ?thesis
      by simp
  qed
qed simp

lemma clean_loop_dotdots:
  "clean_loop False (replicate j dotdot) (replicate k dotdot @ cs) =
   clean_loop False (replicate (j + k) dotdot) cs"
proof (induction k arbitrary: j)
  case (Suc k)
  have "clean_loop False (replicate j dotdot) (replicate (Suc k) dotdot @ cs) =
    clean_loop False (replicate (Suc j) dotdot) (replicate k dotdot @ cs)"
    by (cases j) simp_all
  with Suc [of "Suc j"] show ?case
    by simp
qed simp

lemma clean_loop_canon_id:
  assumes "canon B"
  shows "clean_loop False [] B = B"
proof -
  obtain k N where "B = replicate k dotdot @ N" and "normal_comps N"
    using assms by (auto simp: canon_def)
  then show ?thesis
    using clean_loop_dotdots [of 0 k N] by (simp add: clean_loop_normal_id)
qed

lemma canon_comp:
  assumes "canon B" and "c \<in> set B"
  shows "c = dotdot \<or> normal_comp c"
proof -
  obtain k N where B: "B = replicate k dotdot @ N" and "\<forall>c \<in> set N. normal_comp c"
    using assms(1) unfolding canon_def normal_comps_def by blast
  then have "c \<in> set (replicate k dotdot) \<or> normal_comp c"
    using assms(2) by auto
  then show ?thesis
    by (auto simp only: set_replicate_conv_if split: if_splits)
qed

lemma canon_no_slash: "canon B \<Longrightarrow> c \<in> set B \<Longrightarrow> slash \<notin> set c"
  by (drule (1) canon_comp) (auto simp: normal_comp_def)

lemma canon_comps_nonempty: "canon B \<Longrightarrow> \<forall>c \<in> set B. c \<noteq> []"
  by (auto dest: canon_comp simp: normal_comp_def)

lemma split_rel_text: "canon B \<Longrightarrow> B \<noteq> [] \<Longrightarrow> go_split ''/'' (rel_text B) = B"
  using canon_no_slash [of B] by (simp add: rel_text_def go_split_byte_join)

lemma rel_text_nonempty: "canon B \<Longrightarrow> rel_text B \<noteq> []"
  using canon_comps_nonempty [of B]
  by (cases "(''/'', B)" rule: go_join.cases) (auto simp: rel_text_def)

lemma rel_text_rel: "canon B \<Longrightarrow> \<not> is_abs (rel_text B)"
proof (cases "B = []")
  case False
  assume B: "canon B"
  then have "go_split ''/'' (rel_text B) = B"
    using False by (rule split_rel_text)
  then show ?thesis
    using canon_comps_nonempty [OF B] False
    by (auto simp: is_abs_def has_prefix_iff split_abs_text)
qed (simp add: rel_text_def is_abs_def)

lemma clean_comps_rel_text:
  assumes "canon B"
  shows "clean_comps (rel_text B) = B"
proof (cases "B = []")
  case True
  have "go_split ''/'' dot = [dot]"
    by (rule go_split_byte_None) simp
  with True show ?thesis
    by (simp add: clean_comps_def rel_text_def is_abs_def)
next
  case False
  show ?thesis
    unfolding clean_comps_def split_rel_text [OF assms False]
    using rel_text_rel [OF assms] clean_loop_canon_id [OF assms] by simp
qed

lemma clean_rel: "\<not> is_abs p \<Longrightarrow> clean p = rel_text (clean_comps p)"
  by (simp add: clean_def rel_text_def)

lemma canon_clean_comps: "\<not> is_abs p \<Longrightarrow> canon (clean_comps p)"
  unfolding clean_comps_def by (simp add: clean_loop_canon split_no_slash)

lemma clean_rel_text: "canon B \<Longrightarrow> clean (rel_text B) = rel_text B"
  by (simp add: clean_rel rel_text_rel clean_comps_rel_text)

lemma clean_idem [simp]: "clean (clean p) = clean p"
  by (cases "is_abs p") (simp_all add: clean_abs [of p] clean_comps_abs_normal clean_rel [of p]
      clean_rel_text canon_clean_comps)

lemma clean_join_comps:
  assumes "p \<noteq> []" and "normal_comps cs" and "cs \<noteq> []"
  shows "clean_comps (clean p @ slash # go_join ''/'' cs) = clean_comps p @ cs"
    and "is_abs (clean p @ slash # go_join ''/'' cs) = is_abs p"
proof -
  have ne: "clean p \<noteq> []"
    by simp
  have cc: "clean_comps (clean p) = clean_comps p"
    by (cases "is_abs p") (simp_all add: clean_abs clean_comps_abs_text clean_comps_abs_normal
        clean_rel clean_comps_rel_text canon_clean_comps)
  have a: "is_abs (clean p) = is_abs p"
    by (cases "is_abs p") (simp_all add: clean_abs clean_rel rel_text_rel canon_clean_comps)
  then show ab: "is_abs (clean p @ slash # go_join ''/'' cs) = is_abs p"
    using ne by (cases "clean p") (auto simp: is_abs_def)
  have "clean_comps (clean p @ slash # go_join ''/'' cs) =
    clean_loop (is_abs p) (rev (clean_comps (clean p))) cs"
    unfolding clean_comps_def ab a
    by (simp add: go_split_byte_append clean_loop_append go_split_slash_join assms)
  then show "clean_comps (clean p @ slash # go_join ''/'' cs) = clean_comps p @ cs"
    by (simp add: clean_loop_normal_id assms cc)
qed

lemma path_rel_rel_text:
  assumes "canon B" and "normal_comps cs" and "cs \<noteq> []"
  shows "path_rel (rel_text B) (rel_text (B @ cs)) = Some (go_join ''/'' cs)"
proof -
  have c: "canon (B @ cs)"
    using assms by simp
  have ne: "rel_text (B @ cs) \<noteq> rel_text B"
    using assms c clean_comps_rel_text by (metis append_self_conv)
  have sp: "split_clean (rel_text (B @ cs)) = B @ cs"
    using split_rel_text [OF c] rel_text_rel [OF c] assms(3) clean_nonempty [of "rel_text (B @ cs)"]
    by (simp add: split_clean_def clean_rel_text [OF c])
  have sb: "split_clean (if rel_text B = dot then [] else rel_text B) = B"
  proof (cases "rel_text B = dot")
    case True
    then have "B = []"
      using clean_comps_rel_text [OF assms(1)] clean_comps_rel_text [of "[]"]
      by (simp add: rel_text_def [of "[]"])
    with True show ?thesis
      by (simp add: split_clean_def is_abs_def)
  next
    case False
    then have "B \<noteq> []"
      by (auto simp: rel_text_def)
    then show ?thesis
      using split_rel_text [OF assms(1)] rel_text_rel [OF assms(1)] False
        rel_text_nonempty [OF assms(1)]
      by (simp add: split_clean_def)
  qed
  have "\<not> is_abs (if rel_text B = dot then [] else rel_text B)"
    using rel_text_rel [OF assms(1)] by (simp add: is_abs_def)
  then show ?thesis
    using ne sp sb rel_text_rel [OF c]
    by (simp add: path_rel_def Let_def clean_rel_text assms(1) c strip_common_prefix)
qed

text \<open>What \<open>filepath.Rel\<close> gives for the paths a walk below a directory visits.\<close>

lemma path_rel_join:
  assumes "p \<noteq> []" and "normal_comps cs" and "cs \<noteq> []"
  shows "path_rel (clean p) (path_join (clean p) (go_join ''/'' cs)) = Some (go_join ''/'' cs)"
proof (cases "is_abs p")
  case True
  then show ?thesis
    using clean_join_comps [OF assms] assms
      path_rel_abs_text [OF clean_comps_abs_normal _ strip_common_prefix, of p cs]
    by (simp add: path_join_def clean_abs clean_comps_abs_normal abs_text_def)
next
  case False
  then show ?thesis
    using clean_join_comps [OF assms] path_rel_rel_text [OF canon_clean_comps assms(2,3)]
      rel_text_nonempty [OF canon_clean_comps]
    by (simp add: path_join_def clean_rel)
qed

lemma path_rel_self [simp]: "path_rel p p = Some dot"
  by (simp add: path_rel_def)

lemma abs_comps_join_comps:
  assumes "cwd_ok cwd" and "d \<noteq> []" and "abs_comps cwd d = Some dc" and "normal_comps cs"
  shows "abs_comps cwd (path_join d (if cs = [] then dot else go_join ''/'' cs)) = Some (dc @ cs)"
  using abs_comps_join [OF assms(1-3)] assms(4) abs_comps_normal [OF assms(1,3)]
  by (simp add: go_split_slash_join go_split_byte_None clean_loop_normal_id)

end
