(* ===== verification/Storage_Fs.thy ===== *)
theory Storage_Fs
  imports Go_Paths
begin

text \<open>
  The file system the storage package runs on, as far as the package uses it: a finite map from
  normalised absolute component lists to nodes, and the \<open>os\<close> and \<open>filepath\<close> calls as functions on
  it.  Any call may fail for a reason the model does not see (permissions, a full disk): the world
  carries a list of outcomes, one per call, where \<open>Some n\<close> makes the call fail after \<open>n\<close> units of
  progress.  Every theorem that quantifies over worlds covers all such schedules.  A link may be the
  last component of a path; \<open>os.RemoveAll\<close> also follows links to directories on the way.  The other
  calls fail on a path that leads through a link, and \<open>mkdir_all\<close> also on one that ends in a link, where
  the system would follow it: worlds in which a directory of the store, or one above it, is a link are
  outside the model, and so is the limit of the kernel on the length of a path, which is a call that
  fails.  The size of a file is an \<open>int\<close> within the range of \<open>int64\<close>.
\<close>

type_synonym comps = "string list"

datatype node =
    Dir
  | File nat string
  | Link string
  | Special

type_synonym filesys = "(comps, node) gomap"

datatype os_error = EINVAL | ENOENT | ENOTDIR | EISDIR | EEXIST | ELOOP | ENOCWD | EFAULTED

record world =
  w_fs :: filesys
  w_faults :: "nat option list"
  w_cwd :: "string option"
  w_rand :: nat

type_synonym 'a os = "world \<Rightarrow> (os_error, 'a) result \<times> world"

text \<open>The outcome of the next call.\<close>

definition next_fault :: "world \<Rightarrow> nat option \<times> world" where
  "next_fault w =
     (case w_faults w of
        [] \<Rightarrow> (None, w)
      | f # fs \<Rightarrow> (f, w\<lparr>w_faults := fs\<rparr>))"

text \<open>The root directory always exists.\<close>

definition node_at :: "filesys \<Rightarrow> comps \<Rightarrow> node option" where
  "node_at fs p = (if p = [] then Some Dir else gm_get fs p)"

definition under :: "filesys \<Rightarrow> comps \<Rightarrow> comps list" where
  "under fs p = filter (prefix p) (map fst fs)"

definition drop_under :: "comps \<Rightarrow> filesys \<Rightarrow> filesys" where
  "drop_under p fs = filter (\<lambda>(q, _). \<not> prefix p q) fs"

text \<open>\<open>os.MkdirAll\<close>: the missing directories of the path, from the top.\<close>

fun make_dirs :: "filesys \<Rightarrow> comps \<Rightarrow> comps \<Rightarrow> filesys \<times> bool" where
  "make_dirs fs done [] = (fs, True)"
| "make_dirs fs done (c # cs) =
     (case node_at fs (done @ [c]) of
        None \<Rightarrow> make_dirs (gm_set (done @ [c]) Dir fs) (done @ [c]) cs
      | Some Dir \<Rightarrow> make_dirs fs (done @ [c]) cs
      | Some _ \<Rightarrow> (fs, False))"

definition mkdir_all :: "comps \<Rightarrow> unit os" where
  "mkdir_all p w =
     (case next_fault w of
        (Some n, w') \<Rightarrow>
          (Inl EFAULTED, w'\<lparr>w_fs := fst (make_dirs (w_fs w') [] (take n p))\<rparr>)
      | (None, w') \<Rightarrow>
          (case make_dirs (w_fs w') [] p of
             (fs, ok) \<Rightarrow> (if ok then Inr () else Inl ENOTDIR, w'\<lparr>w_fs := fs\<rparr>)))"

text \<open>Where a path leads: to the node at its place, through links if that is one.\<close>

definition link_target :: "comps \<Rightarrow> string \<Rightarrow> comps" where
  "link_target p t = clean_loop True (if is_abs t then [] else rev (butlast p)) (go_split ''/'' t)"

fun resolve :: "nat \<Rightarrow> filesys \<Rightarrow> comps \<Rightarrow> (os_error, comps) result" where
  "resolve n fs p =
     (case node_at fs p of
        Some (Link t) \<Rightarrow> (case n of 0 \<Rightarrow> Inl ELOOP | Suc m \<Rightarrow> resolve m fs (link_target p t))
      | _ \<Rightarrow> Inr p)"

declare resolve.simps [simp del]

text \<open>The kernel follows at most 40 links.\<close>

definition max_links :: nat where
  "max_links = 40"

lemma resolve_plain: "(\<And>t. node_at fs p \<noteq> Some (Link t)) \<Longrightarrow> resolve n fs p = Inr p"
  by (subst resolve.simps) (auto split: option.split node.split)

text \<open>
  The way to a path: every component but the last is followed, through links to directories too; \<open>n\<close>
  links are left.
\<close>

function kernel_walk :: "nat \<Rightarrow> filesys \<Rightarrow> comps \<Rightarrow> comps \<Rightarrow> (os_error, comps) result" where
  "kernel_walk n fs here [] = Inr here"
| "kernel_walk n fs here [c] = Inr (here @ [c])"
| "kernel_walk n fs here (c # d # cs) =
     (case node_at fs (here @ [c]) of
        Some (Link t) \<Rightarrow>
          (case n of
             0 \<Rightarrow> Inl ELOOP
           | Suc m \<Rightarrow> kernel_walk m fs [] (link_target (here @ [c]) t @ d # cs))
      | _ \<Rightarrow> kernel_walk n fs (here @ [c]) (d # cs))"
  by pat_completeness auto
termination
  by (relation "measures [\<lambda>(n, fs, here, cs). n, \<lambda>(n, fs, here, cs). length cs]") auto

definition kernel_path :: "filesys \<Rightarrow> comps \<Rightarrow> (os_error, comps) result" where
  "kernel_path fs p = kernel_walk max_links fs [] p"

definition no_link_within :: "filesys \<Rightarrow> comps \<Rightarrow> bool" where
  "no_link_within fs p \<longleftrightarrow> (\<forall>q t. strict_prefix q p \<longrightarrow> node_at fs q \<noteq> Some (Link t))"

lemma no_link_within_snoc: "no_link_within fs (p @ [c]) \<longleftrightarrow> (\<forall>q t. prefix q p \<longrightarrow> node_at fs q \<noteq> Some (Link t))"
  by (auto simp: no_link_within_def strict_prefix_def)

lemma kernel_walk_step:
  assumes "\<And>t. node_at fs (here @ [c]) \<noteq> Some (Link t)" and "cs \<noteq> []"
  shows "kernel_walk n fs here (c # cs) = kernel_walk n fs (here @ [c]) cs"
  using assms by (cases cs) (auto split: option.split node.split)

lemma kernel_walk_along:
  assumes "\<And>q t. prefix q r \<Longrightarrow> node_at fs (here @ q) \<noteq> Some (Link t)" and "cs \<noteq> []"
  shows "kernel_walk n fs here (r @ cs) = kernel_walk n fs (here @ r) cs"
  using assms(1)
proof (induction r arbitrary: here)
  case (Cons c r)
  have "kernel_walk n fs here ((c # r) @ cs) = kernel_walk n fs (here @ [c]) (r @ cs)"
    using Cons.prems [of "[c]"] assms(2) by (simp add: kernel_walk_step)
  also have "\<dots> = kernel_walk n fs ((here @ [c]) @ r) cs"
    by (rule Cons.IH) (use Cons.prems [of "c # q" for q] in simp)
  finally show ?case
    by simp
qed simp

lemma kernel_path_plain:
  assumes "no_link_within fs p"
  shows "kernel_path fs p = Inr p"
proof (cases p rule: rev_cases)
  case (snoc r c)
  then show ?thesis
    using kernel_walk_along [of r fs "[]" "[c]"] assms
    by (simp add: kernel_path_def no_link_within_snoc)
qed (simp add: kernel_path_def)

definition read_file :: "comps \<Rightarrow> string os" where
  "read_file p w =
     (case next_fault w of
        (Some n, w') \<Rightarrow> (Inl EFAULTED, w')
      | (None, w') \<Rightarrow>
          (case resolve max_links (w_fs w') p of
             Inl e \<Rightarrow> (Inl e, w')
           | Inr q \<Rightarrow>
               (case node_at (w_fs w') q of
                  Some (File m s) \<Rightarrow> (Inr s, w')
                | Some Dir \<Rightarrow> (Inl EISDIR, w')
                | Some _ \<Rightarrow> (Inl EINVAL, w')
                | None \<Rightarrow> (Inl ENOENT, w'))))"

text \<open>
  \<open>os.CreateTemp(dir, ".index.json.*")\<close> tries random names until one is unused; here the random
  number is where the search starts, and some name among the first \<open>length fs + 1\<close> is free.
\<close>

definition temp_name :: "nat \<Rightarrow> string" where
  "temp_name k = ''.index.json.'' @ show_nat k"

definition free_temp :: "filesys \<Rightarrow> comps \<Rightarrow> nat \<Rightarrow> nat option" where
  "free_temp fs dir r =
     find (\<lambda>k. node_at fs (dir @ [temp_name k]) = None) [r ..< r + length fs + 1]"

definition create_temp :: "comps \<Rightarrow> comps os" where
  "create_temp dir w =
     (case next_fault w of
        (Some n, w') \<Rightarrow> (Inl EFAULTED, w')
      | (None, w') \<Rightarrow>
          (case node_at (w_fs w') dir of
             Some Dir \<Rightarrow>
               (case free_temp (w_fs w') dir (w_rand w') of
                  None \<Rightarrow> (Inl EEXIST, w')
                | Some k \<Rightarrow>
                    (Inr (dir @ [temp_name k]),
                     w'\<lparr>w_fs := gm_set (dir @ [temp_name k]) (File 384 []) (w_fs w')\<rparr>))
           | Some _ \<Rightarrow> (Inl ENOTDIR, w')
           | None \<Rightarrow> (Inl ENOENT, w')))"

text \<open>Writing to a file that was opened with the given mode; a failing write may be short.\<close>

definition write_open :: "comps \<Rightarrow> nat \<Rightarrow> string \<Rightarrow> unit os" where
  "write_open p mode data w =
     (case next_fault w of
        (Some n, w') \<Rightarrow> (Inl EFAULTED, w'\<lparr>w_fs := gm_set p (File mode (take n data)) (w_fs w')\<rparr>)
      | (None, w') \<Rightarrow> (Inr (), w'\<lparr>w_fs := gm_set p (File mode data) (w_fs w')\<rparr>))"

definition close_file :: "unit os" where
  "close_file w =
     (case next_fault w of
        (Some n, w') \<Rightarrow> (Inl EFAULTED, w')
      | (None, w') \<Rightarrow> (Inr (), w'))"

definition remove_file :: "comps \<Rightarrow> unit os" where
  "remove_file p w =
     (case next_fault w of
        (Some n, w') \<Rightarrow> (Inl EFAULTED, w')
      | (None, w') \<Rightarrow>
          (if node_at (w_fs w') p = None then (Inl ENOENT, w')
           else (Inr (), w'\<lparr>w_fs := gm_del p (w_fs w')\<rparr>)))"

text \<open>\<open>os.Rename\<close> of a file onto a name that is free or holds something other than a directory.\<close>

definition rename_file :: "comps \<Rightarrow> comps \<Rightarrow> unit os" where
  "rename_file src dst w =
     (case next_fault w of
        (Some n, w') \<Rightarrow> (Inl EFAULTED, w')
      | (None, w') \<Rightarrow>
          (case node_at (w_fs w') src of
             None \<Rightarrow> (Inl ENOENT, w')
           | Some nd \<Rightarrow>
               if node_at (w_fs w') dst = Some Dir then (Inl EEXIST, w')
               else (Inr (), w'\<lparr>w_fs := gm_set dst nd (gm_del src (w_fs w'))\<rparr>)))"

text \<open>\<open>os.RemoveAll\<close> succeeds where nothing is there; a failing call has removed some of the tree.\<close>

definition remove_all :: "comps \<Rightarrow> unit os" where
  "remove_all p w =
     (case next_fault w of
        (Some n, w') \<Rightarrow>
          (let victims = take n (rev (sort (under (w_fs w') p)))
           in (Inl EFAULTED, w'\<lparr>w_fs := filter (\<lambda>(q, _). q \<notin> set victims) (w_fs w')\<rparr>))
      | (None, w') \<Rightarrow> (Inr (), w'\<lparr>w_fs := drop_under p (w_fs w')\<rparr>))"

text \<open>The kernel follows the links on the way to what is removed, not a link at its place.\<close>

definition remove_all_real :: "comps \<Rightarrow> unit os" where
  "remove_all_real p w =
     (case kernel_path (w_fs w) p of Inl e \<Rightarrow> (Inl e, w) | Inr q \<Rightarrow> remove_all q w)"

lemma remove_all_real_plain: "no_link_within (w_fs w) p \<Longrightarrow> remove_all_real p w = remove_all p w"
  by (simp add: remove_all_real_def kernel_path_plain)

text \<open>
  \<open>filepath.WalkDir\<close> visits the root and then every directory's entries in lexical order; on
  component lists that is the lexicographic order.
\<close>

definition walk :: "filesys \<Rightarrow> comps \<Rightarrow> comps list" where
  "walk fs root = sort (under fs root)"

section \<open>Lookup after each operation\<close>

lemma next_fault_fs [simp]: "next_fault w = (f, w') \<Longrightarrow> w_fs w' = w_fs w"
  and next_fault_cwd [simp]: "next_fault w = (f, w') \<Longrightarrow> w_cwd w' = w_cwd w"
  by (auto simp: next_fault_def split: list.splits)

lemma gm_get_drop_under [gomap_simps]:
  "gm_get (drop_under p fs) q = (if prefix p q then None else gm_get fs q)"
  by (induction fs) (auto simp: drop_under_def)

lemma gomap_ok_filter [simp]: "gomap_ok m \<Longrightarrow> gomap_ok (filter P m)"
  unfolding gomap_ok_def by (rule distinct_map_filter)

lemma gomap_ok_drop_under [simp]: "gomap_ok fs \<Longrightarrow> gomap_ok (drop_under p fs)"
  by (simp add: drop_under_def)

lemma node_at_set [gomap_simps]:
  "p \<noteq> [] \<Longrightarrow> node_at (gm_set p nd fs) q = (if q = p then Some nd else node_at fs q)"
  by (simp add: node_at_def gomap_simps)

lemma node_at_del [gomap_simps]:
  "p \<noteq> [] \<Longrightarrow> node_at (gm_del p fs) q = (if q = p then None else node_at fs q)"
  by (simp add: node_at_def gomap_simps)

lemma node_at_drop_under [gomap_simps]:
  "p \<noteq> [] \<Longrightarrow> node_at (drop_under p fs) q = (if prefix p q then None else node_at fs q)"
  by (auto simp: node_at_def gomap_simps)

lemma gm_get_filter_keys [gomap_simps]:
  "gm_get (filter (\<lambda>(q, _). P q) m) k = (if P k then gm_get m k else None)"
  by (induction m) auto

text \<open>\<open>MkdirAll\<close> only adds directories, and only on the way to its path.\<close>

lemma make_dirs_frame:
  "\<not> prefix q (done @ cs) \<Longrightarrow> node_at (fst (make_dirs fs done cs)) q = node_at fs q"
proof (induction fs "done" cs rule: make_dirs.induct)
  case (2 fs "done" c cs)
  then show ?case
    by (auto split: option.split node.split simp: gomap_simps)
qed simp

lemma make_dirs_keeps:
  "node_at fs q = Some nd \<Longrightarrow> node_at (fst (make_dirs fs done cs)) q = Some nd"
proof (induction fs "done" cs rule: make_dirs.induct)
  case (2 fs "done" c cs)
  show ?case
  proof (cases "node_at fs (done @ [c])")
    case None
    with 2 show ?thesis
      by (cases "q = done @ [c]") (simp_all add: gomap_simps)
  next
    case (Some x)
    with 2 show ?thesis
      by (cases x) simp_all
  qed
qed simp

lemma make_dirs_dir:
  "snd (make_dirs fs done cs) \<Longrightarrow> node_at fs done = Some Dir \<Longrightarrow>
   node_at (fst (make_dirs fs done cs)) (done @ cs) = Some Dir"
proof (induction fs "done" cs rule: make_dirs.induct)
  case (2 fs "done" c cs)
  then show ?case
    by (auto split: option.splits node.splits simp: gomap_simps)
qed simp

lemma make_dirs_ok [simp]: "gomap_ok fs \<Longrightarrow> gomap_ok (fst (make_dirs fs done cs))"
  by (induction fs "done" cs rule: make_dirs.induct) (auto split: option.split node.split)

lemma mkdir_all_ok:
  assumes "mkdir_all p w = (Inr (), w')"
  shows "node_at (w_fs w') p = Some Dir"
proof -
  obtain f w1 where f: "next_fault w = (f, w1)" by force
  with assms have "w_fs w' = fst (make_dirs (w_fs w1) [] p)" and "snd (make_dirs (w_fs w1) [] p)"
    by (auto simp: mkdir_all_def split: option.splits prod.splits if_splits)
  with make_dirs_dir [of "w_fs w1" "[]" p] show ?thesis
    by (simp add: node_at_def)
qed

text \<open>What a call may change: nothing, or only nodes the predicate allows.\<close>

definition changes_only :: "(comps \<Rightarrow> bool) \<Rightarrow> world \<Rightarrow> world \<Rightarrow> bool" where
  "changes_only P w w' \<longleftrightarrow>
     w_cwd w' = w_cwd w \<and> (\<forall>q. \<not> P q \<longrightarrow> node_at (w_fs w') q = node_at (w_fs w) q)"

named_theorems frame_intros \<open>frame facts of the file system calls\<close>

lemma changes_only_refl [simp, frame_intros]: "changes_only P w w"
  by (simp add: changes_only_def)

lemma changes_only_trans: "changes_only P u v \<Longrightarrow> changes_only P v w \<Longrightarrow> changes_only P u w"
  by (simp add: changes_only_def)

lemma changes_only_mono: "changes_only P u v \<Longrightarrow> (\<And>q. P q \<Longrightarrow> Q q) \<Longrightarrow> changes_only Q u v"
  by (auto simp: changes_only_def)

lemma mkdir_all_frame [frame_intros]:
  assumes "mkdir_all p w = (r, w')"
  shows "changes_only (\<lambda>q. prefix q p) w w'"
proof -
  obtain f w1 where f: "next_fault w = (f, w1)" by force
  obtain k where k: "w_fs w' = fst (make_dirs (w_fs w1) [] (take k p))" and c: "w_cwd w' = w_cwd w1"
  proof (cases f)
    case None
    with assms f that [of "length p"] show ?thesis
      by (auto simp: mkdir_all_def split: prod.splits)
  next
    case (Some n)
    with assms f that [of n] show ?thesis
      by (auto simp: mkdir_all_def)
  qed
  have "node_at (w_fs w') q = node_at (w_fs w) q" if "\<not> prefix q p" for q
  proof -
    have "\<not> prefix q ([] @ take k p)"
      using that prefix_order.order_trans [OF _ take_is_prefix] by auto
    then show ?thesis
      using k make_dirs_frame [of q "[]" "take k p" "w_fs w1"] next_fault_fs [OF f] by simp
  qed
  with c f show ?thesis
    by (simp add: changes_only_def)
qed

lemma read_file_frame [frame_intros]: "read_file p w = (r, w') \<Longrightarrow> changes_only P w w'"
  by (auto simp: read_file_def changes_only_def split: option.splits prod.splits node.splits sum.splits)

lemma close_file_frame [frame_intros]: "close_file w = (r, w') \<Longrightarrow> changes_only P w w'"
  by (auto simp: close_file_def changes_only_def split: option.splits prod.splits)

lemma write_open_frame [frame_intros]:
  "p \<noteq> [] \<Longrightarrow> write_open p m d w = (r, w') \<Longrightarrow> changes_only (\<lambda>q. q = p) w w'"
  by (auto simp: write_open_def changes_only_def gomap_simps split: option.splits prod.splits)

lemma remove_file_frame [frame_intros]:
  "p \<noteq> [] \<Longrightarrow> remove_file p w = (r, w') \<Longrightarrow> changes_only (\<lambda>q. q = p) w w'"
  by (auto simp: remove_file_def changes_only_def gomap_simps
      split: option.splits prod.splits if_splits)

lemma rename_file_frame [frame_intros]:
  "p \<noteq> [] \<Longrightarrow> q \<noteq> [] \<Longrightarrow> rename_file p q w = (r, w') \<Longrightarrow>
   changes_only (\<lambda>x. x = p \<or> x = q) w w'"
  by (auto simp: rename_file_def changes_only_def gomap_simps
      split: option.splits prod.splits if_splits)

lemma remove_all_frame [frame_intros]:
  "p \<noteq> [] \<Longrightarrow> remove_all p w = (r, w') \<Longrightarrow> changes_only (\<lambda>q. prefix p q) w w'"
  by (auto simp: remove_all_def changes_only_def Let_def gomap_simps node_at_def under_def
      split: option.splits prod.splits if_splits dest!: in_set_takeD)

lemma remove_all_gone:
  "p \<noteq> [] \<Longrightarrow> remove_all p w = (Inr (), w') \<Longrightarrow> prefix p q \<Longrightarrow> node_at (w_fs w') q = None"
  by (auto simp: remove_all_def gomap_simps split: option.splits prod.splits)

section \<open>Temporary files\<close>

lemma temp_name_inject [simp]: "temp_name j = temp_name k \<longleftrightarrow> j = k"
  by (simp add: temp_name_def)

lemma temp_name_not_index [simp]: "temp_name k \<noteq> ''index.json''" "''index.json'' \<noteq> temp_name k"
  by (simp_all add: temp_name_def)

lemma free_temp_free: "free_temp fs dir r = Some k \<Longrightarrow> node_at fs (dir @ [temp_name k]) = None"
  by (auto simp: free_temp_def find_Some_iff)

text \<open>The search never runs out: there are more candidates than nodes.\<close>

lemma free_temp_exists: "\<exists>k. free_temp fs dir r = Some k"
proof (rule ccontr)
  assume "\<nexists>k. free_temp fs dir r = Some k"
  then have "free_temp fs dir r = None"
    by simp
  then have all: "\<forall>k \<in> set [r ..< r + length fs + 1]. node_at fs (dir @ [temp_name k]) \<noteq> None"
    unfolding free_temp_def find_None_iff by metis
  let ?name = "\<lambda>k. dir @ [temp_name k]"
  have "?name k \<in> fst ` set fs" if "node_at fs (?name k) \<noteq> None" for k
    using that gm_get_None_iff [of fs "?name k"] by (simp add: node_at_def)
  with all have "?name ` set [r ..< r + length fs + 1] \<subseteq> fst ` set fs"
    by blast
  then have "card (?name ` set [r ..< r + length fs + 1]) \<le> card (fst ` set fs)"
    by (intro card_mono) simp_all
  moreover have "card (?name ` set [r ..< r + length fs + 1]) = length fs + 1"
    by (subst card_image) (simp_all add: inj_on_def)
  moreover have "card (fst ` set fs) \<le> length fs"
    by (metis card_length length_map set_map)
  ultimately show False
    by simp
qed

text \<open>A temporary file appears in the given directory under a name that was free.\<close>

lemma create_temp_ok:
  assumes "create_temp dir w = (Inr p, w')"
  obtains k where "p = dir @ [temp_name k]" "node_at (w_fs w) p = None"
    "node_at (w_fs w') p = Some (File 384 [])" "changes_only (\<lambda>q. q = p) w w'"
    "gomap_ok (w_fs w) \<Longrightarrow> gomap_ok (w_fs w')"
  using assms
  by (auto simp: create_temp_def changes_only_def gomap_simps
      split: option.splits prod.splits node.splits dest!: free_temp_free)

lemma create_temp_fails: "create_temp dir w = (Inl e, w') \<Longrightarrow> changes_only P w w'"
  by (auto simp: create_temp_def changes_only_def split: option.splits prod.splits node.splits)

section \<open>Writing and renaming\<close>

lemma write_open_ok:
  "p \<noteq> [] \<Longrightarrow> write_open p m d w = (Inr (), w') \<Longrightarrow> node_at (w_fs w') p = Some (File m d)"
  by (auto simp: write_open_def gomap_simps split: option.splits prod.splits)

lemma rename_file_ok:
  assumes "rename_file p q w = (Inr (), w')" and "p \<noteq> []" and "q \<noteq> []" and "p \<noteq> q"
  shows "node_at (w_fs w') q = node_at (w_fs w) p" and "node_at (w_fs w') p = None"
  using assms
  by (auto simp: rename_file_def gomap_simps split: option.splits prod.splits if_splits)

lemma rename_file_fails: "rename_file p q w = (Inl e, w') \<Longrightarrow> changes_only P w w'"
  by (auto simp: rename_file_def changes_only_def split: option.splits prod.splits if_splits)

lemma next_fault_nil [simp]: "w_faults w = [] \<Longrightarrow> next_fault w = (None, w)"
  by (simp add: next_fault_def)

end
