(* ===== verification/Storage_Store.thy ===== *)
theory Storage_Store
  imports Storage_Index Storage_Fs
begin

text \<open>
  The model cache of \<open>internal/storage/store.go\<close>: the in-memory index with its two maps, its copy in
  \<open>index.json\<close>, and \<open>NewStore\<close>, \<open>Fetch\<close>, \<open>List\<close>, \<open>Get\<close>, \<open>Delete\<close> and \<open>MarkUsed\<close> as functions on the
  store and the world.  The current time is an argument; SHA-256 and \<open>singleflight.Group.Do\<close> are
  parameters.  The invariant and what each operation keeps of it are at the end.
\<close>

record fetch_request =
  rq_source :: string
  rq_model_id :: string
  rq_dest :: string
  rq_patterns :: "string list"
  rq_mount_source :: string
  rq_subpath :: string

datatype fetch_error =
    CliNotFound
  | CliFailed string
  | SubpathEscapes
  | SourceStat os_error
  | CopyFailed os_error
  | UnsupportedType comps
  | OutOfFuel

datatype store_error =
    DirRequired
  | MakeDir os_error
  | LoadIndex os_error
  | ParseIndex
  | SourceRequired
  | ModelIdRequired
  | UnknownSource string
  | MountSourceRequired
  | NotFound
  | CreateDest os_error
  | FetcherFailed fetch_error
  | Measure os_error
  | TempFile os_error
  | WriteIndex os_error
  | CloseIndex os_error
  | RenameIndex os_error
  | RemovePath os_error

type_synonym fetcher =
  "fetch_request \<Rightarrow> string \<Rightarrow> world \<Rightarrow> (fetch_error, string list) result \<times> world"

record store =
  st_dir :: string
  st_fetchers :: "(string, fetcher) gomap"
  st_entries :: "(string, entry) gomap"
  st_by_key :: "(string, string) gomap"

type_synonym sys = "store \<times> world"

section \<open>Keys and ids\<close>

definition key_for :: "string \<Rightarrow> string \<Rightarrow> string" where
  "key_for source model_id = source @ '':'' @ model_id"

definition hex_encode :: "string \<Rightarrow> string" where
  "hex_encode s = concat (map (\<lambda>c. [hex_digit (of_char c div 16), hex_digit (of_char c mod 16)]) s)"

definition entry_id :: "(string \<Rightarrow> string) \<Rightarrow> string \<Rightarrow> string \<Rightarrow> string" where
  "entry_id sha256 source model_id = take 16 (hex_encode (sha256 (key_for source model_id)))"

section \<open>Paths handed to the operating system\<close>

definition with_path :: "string \<Rightarrow> (comps \<Rightarrow> 'a os) \<Rightarrow> 'a os" where
  "with_path p op w =
     (if p = [] then (Inl ENOENT, w)
      else case abs_comps (w_cwd w) p of None \<Rightarrow> (Inl ENOCWD, w) | Some q \<Rightarrow> op q w)"

text \<open>
  \<open>os.RemoveAll\<close> does nothing for the empty path and refuses a path that ends in the component \<open>.\<close>.
\<close>

definition ends_with_dot :: "string \<Rightarrow> bool" where
  "ends_with_dot p \<longleftrightarrow> p = dot \<or> has_prefix (rev p) ''./''"

definition remove_all_path :: "string \<Rightarrow> unit os" where
  "remove_all_path p w =
     (if p = [] then (Inr (), w)
      else if ends_with_dot p then (Inl EINVAL, w)
      else with_path p remove_all_real w)"

definition index_path :: "store \<Rightarrow> string" where
  "index_path st = path_join (st_dir st) ''index.json''"

section \<open>The index on disk\<close>

definition sorted_entries :: "store \<Rightarrow> entry list" where
  "sorted_entries st = sort_key e_id (map snd (st_entries st))"

definition save_index :: "store \<Rightarrow> world \<Rightarrow> (store_error, unit) result \<times> world" where
  "save_index st w =
     (let data = index_bytes (sorted_entries st) in
      case with_path (st_dir st) create_temp w of
        (Inl e, w1) \<Rightarrow> (Inl (TempFile e), w1)
      | (Inr tmp, w1) \<Rightarrow>
          (case write_open tmp 384 data w1 of
             (Inl e, w2) \<Rightarrow> (Inl (WriteIndex e), snd (remove_file tmp (snd (close_file w2))))
           | (Inr _, w2) \<Rightarrow>
               (case close_file w2 of
                  (Inl e, w3) \<Rightarrow> (Inl (CloseIndex e), snd (remove_file tmp w3))
                | (Inr _, w3) \<Rightarrow>
                    (case with_path (index_path st) (rename_file tmp) w3 of
                       (Inl e, w4) \<Rightarrow> (Inl (RenameIndex e), snd (remove_file tmp w4))
                     | (Inr _, w4) \<Rightarrow> (Inr (), w4)))))"

definition put_entry :: "entry \<Rightarrow> store \<Rightarrow> store" where
  "put_entry e st = st\<lparr>st_entries := gm_set (e_id e) e (st_entries st),
     st_by_key := gm_set (key_for (e_source e) (e_model_id e)) (e_id e) (st_by_key st)\<rparr>"

definition drop_entry :: "string \<Rightarrow> entry \<Rightarrow> store \<Rightarrow> store" where
  "drop_entry i e st = st\<lparr>st_entries := gm_del i (st_entries st),
     st_by_key := gm_del (key_for (e_source e) (e_model_id e)) (st_by_key st)\<rparr>"

definition load_index :: "store \<Rightarrow> world \<Rightarrow> (store_error, store) result \<times> world" where
  "load_index st w =
     (case with_path (index_path st) read_file w of
        (Inl ENOENT, w') \<Rightarrow> (Inr st, w')
      | (Inl e, w') \<Rightarrow> (Inl (LoadIndex e), w')
      | (Inr data, w') \<Rightarrow>
          if data = [] then (Inr st, w')
          else case index_parse data of
            None \<Rightarrow> (Inl ParseIndex, w')
          | Some es \<Rightarrow> (Inr (fold put_entry es st), w'))"

definition new_store ::
  "(string, fetcher) gomap \<Rightarrow> string \<Rightarrow> world \<Rightarrow> (store_error, store) result \<times> world" where
  "new_store fetchers dir w =
     (if dir = [] then (Inl DirRequired, w)
      else case with_path dir mkdir_all w of
        (Inl e, w1) \<Rightarrow> (Inl (MakeDir e), w1)
      | (Inr _, w1) \<Rightarrow>
          load_index \<lparr>st_dir = dir, st_fetchers = fetchers, st_entries = [], st_by_key = []\<rparr> w1)"

section \<open>Measuring a staged tree\<close>

definition node_size :: "node \<Rightarrow> int" where
  "node_size nd =
     (case nd of File m s \<Rightarrow> int (length s) | Link t \<Rightarrow> int (length t) | _ \<Rightarrow> 0)"

text \<open>The path \<open>WalkDir\<close> hands to its callback for a node below the root.\<close>

definition walk_path :: "string \<Rightarrow> comps \<Rightarrow> comps \<Rightarrow> string" where
  "walk_path root_text root p =
     (if p = root then root_text
      else path_join root_text (go_join ''/'' (drop (length root) p)))"

text \<open>The sum of the sizes, an \<open>int64\<close>, wraps.\<close>

definition add_int64 :: "int \<Rightarrow> int \<Rightarrow> int" where
  "add_int64 a b = sint (word_of_int (a + b) :: 64 word)"

fun measure_loop ::
  "string \<Rightarrow> comps \<Rightarrow> filesys \<Rightarrow> comps list \<Rightarrow> int \<times> string list \<Rightarrow>
   (os_error, int \<times> string list) result" where
  "measure_loop root_text root fs [] (sz, files) = Inr (sz, files)"
| "measure_loop root_text root fs (p # ps) (sz, files) =
     (case node_at fs p of
        None \<Rightarrow> Inl ENOENT
      | Some Dir \<Rightarrow> measure_loop root_text root fs ps (sz, files)
      | Some nd \<Rightarrow>
          (case path_rel root_text (walk_path root_text root p) of
             None \<Rightarrow> Inl EINVAL
           | Some rel \<Rightarrow>
               measure_loop root_text root fs ps (add_int64 sz (node_size nd), files @ [rel])))"

definition measure_tree_at :: "string \<Rightarrow> comps \<Rightarrow> (int \<times> string list) os" where
  "measure_tree_at root_text root w =
     (case next_fault w of
        (Some n, w') \<Rightarrow> (Inl EFAULTED, w')
      | (None, w') \<Rightarrow>
          (if node_at (w_fs w') root = None then (Inl ENOENT, w')
           else case measure_loop root_text root (w_fs w') (walk (w_fs w') root) (0, []) of
             Inl e \<Rightarrow> (Inl e, w')
           | Inr (sz, files) \<Rightarrow> (Inr (sz, sort files), w')))"

definition measure_tree :: "string \<Rightarrow> (int \<times> string list) os" where
  "measure_tree root = with_path root (measure_tree_at root)"

section \<open>Operations\<close>

definition lookup_by_key :: "store \<Rightarrow> string \<Rightarrow> entry option" where
  "lookup_by_key st key =
     (case gm_get (st_by_key st) key of
        None \<Rightarrow> None
      | Some i \<Rightarrow> gm_get (st_entries st) i)"

definition mark_used ::
  "timestamp \<Rightarrow> string \<Rightarrow> sys \<Rightarrow> (store_error, unit) result \<times> sys" where
  "mark_used now i = (\<lambda>(st, w).
     case gm_get (st_entries st) i of
       None \<Rightarrow> (Inl NotFound, (st, w))
     | Some e \<Rightarrow>
         (let st' = st\<lparr>st_entries := gm_set i (e\<lparr>e_last_used_at := now\<rparr>) (st_entries st)\<rparr>
          in case save_index st' w of (r, w') \<Rightarrow> (r, (st', w'))))"

text \<open>The block that both the fast path and the double check run on an entry they found.\<close>

definition use_existing ::
  "timestamp \<Rightarrow> entry \<Rightarrow> sys \<Rightarrow> (store_error, entry) result \<times> sys" where
  "use_existing now existing s =
     (case mark_used now (e_id existing) s of
        (Inl e, s') \<Rightarrow> (Inl e, s')
      | (Inr _, (st', w')) \<Rightarrow>
          (Inr (case gm_get (st_entries st') (e_id existing) of
                  None \<Rightarrow> zero_entry | Some e \<Rightarrow> e), (st', w')))"

definition do_fetch ::
  "(string \<Rightarrow> string) \<Rightarrow> fetcher \<Rightarrow> timestamp \<Rightarrow> fetch_request \<Rightarrow> sys \<Rightarrow>
   (store_error, entry) result \<times> sys" where
  "do_fetch sha256 fetcher now req = (\<lambda>(st, w).
     let i = entry_id sha256 (rq_source req) (rq_model_id req);
         dest = (if rq_dest req = [] then path_join (st_dir st) i else rq_dest req)
     in case with_path dest mkdir_all w of
       (Inl e, w1) \<Rightarrow> (Inl (CreateDest e), (st, w1))
     | (Inr _, w1) \<Rightarrow>
         (case fetcher req dest w1 of
            (Inl e, w2) \<Rightarrow>
              (Inl (FetcherFailed e),
               (st, if rq_dest req = [] then snd (remove_all_path dest w2) else w2))
          | (Inr files, w2) \<Rightarrow>
              (case measure_tree dest w2 of
                 (Inl e, w3) \<Rightarrow> (Inl (Measure e), (st, w3))
               | (Inr (sz, discovered), w3) \<Rightarrow>
                   (let e = \<lparr>e_id = i, e_source = rq_source req, e_model_id = rq_model_id req,
                             e_path = dest, e_size = sz,
                             e_files = sort (if files = [] then discovered else files),
                             e_fetched_at = now, e_last_used_at = now\<rparr>
                    in case save_index (put_entry e st) w3 of
                      (Inl er, w4) \<Rightarrow> (Inl er, (drop_entry i e (put_entry e st), w4))
                    | (Inr _, w4) \<Rightarrow> (Inr e, (put_entry e st, w4))))))"

type_synonym flight =
  "string \<Rightarrow> (sys \<Rightarrow> (store_error, entry) result \<times> sys) \<Rightarrow> sys \<Rightarrow>
   (store_error, entry) result \<times> sys"

definition fetch ::
  "(string \<Rightarrow> string) \<Rightarrow> flight \<Rightarrow> timestamp \<Rightarrow> fetch_request \<Rightarrow> sys \<Rightarrow>
   (store_error, entry) result \<times> sys" where
  "fetch sha256 inflight now req = (\<lambda>(st, w).
     if rq_source req = [] then (Inl SourceRequired, (st, w))
     else if rq_model_id req = [] then (Inl ModelIdRequired, (st, w))
     else case gm_get (st_fetchers st) (rq_source req) of
       None \<Rightarrow> (Inl (UnknownSource (rq_source req)), (st, w))
     | Some fetcher \<Rightarrow>
         if rq_source req = ''nfs'' \<and> rq_mount_source req = []
         then (Inl MountSourceRequired, (st, w))
         else
           let key = key_for (rq_source req) (rq_model_id req) in
           case lookup_by_key st key of
             Some existing \<Rightarrow> use_existing now existing (st, w)
           | None \<Rightarrow>
               inflight key
                 (\<lambda>(st, w). case lookup_by_key st key of
                    Some existing \<Rightarrow> use_existing now existing (st, w)
                  | None \<Rightarrow> do_fetch sha256 fetcher now req (st, w)) (st, w))"

definition list_models :: "sys \<Rightarrow> entry list" where
  "list_models s = sorted_entries (fst s)"

definition get_model :: "string \<Rightarrow> sys \<Rightarrow> (store_error, entry) result" where
  "get_model i s =
     (case gm_get (st_entries (fst s)) i of None \<Rightarrow> Inl NotFound | Some e \<Rightarrow> Inr e)"

definition delete_model :: "string \<Rightarrow> sys \<Rightarrow> (store_error, unit) result \<times> sys" where
  "delete_model i = (\<lambda>(st, w).
     case gm_get (st_entries st) i of
       None \<Rightarrow> (Inl NotFound, (st, w))
     | Some e \<Rightarrow>
         (case (if under_root (w_cwd w) (st_dir st) (e_path e)
                then remove_all_path (e_path e) w else (Inr (), w)) of
            (Inl er, w1) \<Rightarrow> (Inl (RemovePath er), (st, w1))
          | (Inr _, w1) \<Rightarrow>
              (case save_index (drop_entry i e st) w1 of
                 (Inl er, w2) \<Rightarrow>
                   (Inl er,
                    (let st' = drop_entry i e st in
                     st'\<lparr>st_entries := gm_set i e (st_entries st'),
                         st_by_key := gm_set (key_for (e_source e) (e_model_id e)) i (st_by_key st')\<rparr>,
                     w2))
               | (Inr _, w2) \<Rightarrow> (Inr (), (drop_entry i e st, w2)))))"

end
