(* ===== verification/Storage_Correct.thy ===== *)
theory Storage_Correct
  imports Storage_Store
begin

text \<open>
  What the model cache promises: the invariant between the two maps, the atomic rewriting of
  \<open>index.json\<close>, and what each operation returns and changes.
\<close>

section \<open>Paths of the store\<close>

definition dir_comps :: "store \<Rightarrow> world \<Rightarrow> comps option" where
  "dir_comps st w = abs_comps (w_cwd w) (st_dir st)"

definition index_on_disk :: "store \<Rightarrow> world \<Rightarrow> string option" where
  "index_on_disk st w =
     (case dir_comps st w of
        None \<Rightarrow> None
      | Some d \<Rightarrow>
          (case node_at (w_fs w) (d @ [''index.json'']) of
             Some (File m s) \<Rightarrow> Some s
           | _ \<Rightarrow> None))"

definition place_ok :: "store \<Rightarrow> world \<Rightarrow> bool" where
  "place_ok st w \<longleftrightarrow> st_dir st \<noteq> [] \<and> cwd_ok (w_cwd w)"

lemma normal_index: "normal_comp ''index.json''"
  by (simp add: normal_comp_def)

lemma with_path_Some:
  "with_path p op w = (Inr x, w') \<Longrightarrow> \<exists>q. abs_comps (w_cwd w) p = Some q \<and> op q w = (Inr x, w')"
  by (auto simp: with_path_def split: if_splits option.splits)

lemma with_path_Inl:
  "with_path p op w = (Inl e, w') \<Longrightarrow> w' = w \<or> (\<exists>q. abs_comps (w_cwd w) p = Some q \<and> op q w = (Inl e, w'))"
  by (auto simp: with_path_def split: if_splits option.splits)

lemma index_path_comps:
  "place_ok st w \<Longrightarrow> dir_comps st w = Some d \<Longrightarrow>
   abs_comps (w_cwd w) (index_path st) = Some (d @ [''index.json''])"
  unfolding index_path_def place_ok_def dir_comps_def
  by (intro abs_comps_join_name normal_index) auto

lemma changes_only_cwd: "changes_only P w w' \<Longrightarrow> w_cwd w' = w_cwd w"
  by (simp add: changes_only_def)

section \<open>Rewriting the index is atomic\<close>

text \<open>The paths \<open>saveIndexLocked\<close> may leave a temporary file at.\<close>

definition temp_path :: "store \<Rightarrow> world \<Rightarrow> comps \<Rightarrow> bool" where
  "temp_path st w q \<longleftrightarrow> (\<exists>d k. dir_comps st w = Some d \<and> q = d @ [temp_name k])"

definition index_file :: "store \<Rightarrow> world \<Rightarrow> comps \<Rightarrow> bool" where
  "index_file st w q \<longleftrightarrow> (\<exists>d. dir_comps st w = Some d \<and> q = d @ [''index.json''])"

lemma create_temp_inv:
  assumes "with_path (st_dir st) create_temp w = (Inr tmp, w1)"
  obtains d k where "dir_comps st w = Some d" "tmp = d @ [temp_name k]"
    "node_at (w_fs w) tmp = None" "changes_only (\<lambda>q. q = tmp) w w1"
proof -
  obtain d where d: "dir_comps st w = Some d" "create_temp d w = (Inr tmp, w1)"
    using with_path_Some [OF assms] by (auto simp: dir_comps_def)
  from create_temp_ok [OF d(2)] that [OF d(1)] show ?thesis
    by metis
qed

lemma save_index_ok:
  assumes "save_index st w = (Inr (), w')" and "place_ok st w"
  shows "index_on_disk st w' = Some (index_bytes (sorted_entries st))"
    and "changes_only (index_file st w) w w'"
proof -
  obtain tmp w1 w2 w3 where
    1: "with_path (st_dir st) create_temp w = (Inr tmp, w1)" and
    2: "write_open tmp 384 (index_bytes (sorted_entries st)) w1 = (Inr (), w2)" and
    3: "close_file w2 = (Inr (), w3)" and
    4: "with_path (index_path st) (rename_file tmp) w3 = (Inr (), w')"
    using assms(1) by (auto simp: save_index_def Let_def split: prod.splits sum.splits)
  obtain d k where d: "dir_comps st w = Some d" and tmp: "tmp = d @ [temp_name k]"
    and free: "node_at (w_fs w) tmp = None" and c1: "changes_only (\<lambda>q. q = tmp) w w1"
    using create_temp_inv [OF 1] by metis
  let ?ip = "d @ [''index.json'']"
  have ne: "tmp \<noteq> []" "?ip \<noteq> []" "tmp \<noteq> ?ip"
    using tmp by simp_all
  have c3: "changes_only (\<lambda>q. q = tmp) w w3"
    using c1 write_open_frame [OF ne(1) 2] close_file_frame [OF 3]
    by (blast intro: changes_only_trans)
  have cwd3: "w_cwd w3 = w_cwd w"
    using c3 by (rule changes_only_cwd)
  have "node_at (w_fs w3) tmp = Some (File 384 (index_bytes (sorted_entries st)))"
    using write_open_ok [OF ne(1) 2] close_file_frame [OF 3, of "\<lambda>_. False"]
    by (simp add: changes_only_def)
  moreover have 5: "rename_file tmp ?ip w3 = (Inr (), w')"
    using with_path_Some [OF 4] index_path_comps [OF assms(2) d] cwd3 by simp
  ultimately have ip: "node_at (w_fs w') ?ip = Some (File 384 (index_bytes (sorted_entries st)))"
    and gone: "node_at (w_fs w') tmp = None"
    using rename_file_ok [OF 5 ne] by simp_all
  have c4: "changes_only (\<lambda>q. q = tmp \<or> q = ?ip) w w'"
    using c3 rename_file_frame [OF ne(1,2) 5]
    by (blast intro: changes_only_trans changes_only_mono)
  show "changes_only (index_file st w) w w'"
    using c4 free gone d by (auto simp: changes_only_def index_file_def) metis
  show "index_on_disk st w' = Some (index_bytes (sorted_entries st))"
    using ip d changes_only_cwd [OF c4] by (simp add: index_on_disk_def dir_comps_def)
qed

lemma save_index_fails:
  assumes "save_index st w = (Inl e, w')" and "place_ok st w"
  shows "changes_only (temp_path st w) w w'"
proof (cases "with_path (st_dir st) create_temp w")
  case (Pair r w1)
  show ?thesis
  proof (cases r)
    case (Inl e1)
    with assms Pair have "w' = w1"
      by (simp add: save_index_def Let_def)
    moreover have "changes_only (temp_path st w) w w1"
      using with_path_Inl [of "st_dir st" create_temp w e1 w1] Pair Inl create_temp_fails by auto
    ultimately show ?thesis
      by simp
  next
    case (Inr tmp)
    with Pair obtain d k where d: "dir_comps st w = Some d" and tmp: "tmp = d @ [temp_name k]"
      and c1: "changes_only (\<lambda>q. q = tmp) w w1"
      using create_temp_inv by metis
    have ne: "tmp \<noteq> []"
      using tmp by simp
    have rm: "changes_only (\<lambda>q. q = tmp) u (snd (remove_file tmp u))" for u
      using remove_file_frame [OF ne, of u] by (cases "remove_file tmp u") simp
    have cl: "changes_only (\<lambda>q. q = tmp) u (snd (close_file u))" for u
      using close_file_frame [of u] by (cases "close_file u") simp
    have wp: "changes_only (\<lambda>q. q = tmp) u u'"
      if "with_path (index_path st) (rename_file tmp) u = (Inl x, u')" for u u' x
      using with_path_Inl [OF that] rename_file_fails by fastforce
    obtain r2 w2 where 2: "write_open tmp 384 (index_bytes (sorted_entries st)) w1 = (r2, w2)"
      by force
    have c2: "changes_only (\<lambda>q. q = tmp) w w2"
      using c1 write_open_frame [OF ne 2] by (rule changes_only_trans)
    have "changes_only (\<lambda>q. q = tmp) w w'"
      using assms(1) Pair Inr 2 c2 rm cl wp
      by (auto simp: save_index_def Let_def split: prod.splits sum.splits)
        (metis changes_only_trans snd_conv)+
    then show ?thesis
      using d tmp by (auto simp: temp_path_def elim: changes_only_mono)
  qed
qed

lemma save_index_fails_disk:
  assumes "save_index st w = (Inl e, w')" and "place_ok st w"
  shows "index_on_disk st w' = index_on_disk st w"
  using save_index_fails [OF assms]
  by (auto simp: changes_only_def index_on_disk_def temp_path_def dir_comps_def split: option.split)

lemma save_index_frame:
  assumes "save_index st w = (r, w')" and "place_ok st w"
  shows "changes_only (\<lambda>q. temp_path st w q \<or> index_file st w q) w w'"
proof (cases r)
  case (Inl e)
  with assms save_index_fails [of st w e w'] show ?thesis
    by (auto elim: changes_only_mono)
next
  case (Inr u)
  with assms save_index_ok(2) [of st w w'] show ?thesis
    by (auto elim: changes_only_mono)
qed

text \<open>With no failing call, a directory to write to and no directory in the way, it succeeds.\<close>

lemma save_index_succeeds:
  assumes "place_ok st w" and "w_faults w = []" and "dir_comps st w = Some d"
    and "node_at (w_fs w) d = Some Dir" and "node_at (w_fs w) (d @ [''index.json'']) \<noteq> Some Dir"
  shows "\<exists>w'. save_index st w = (Inr (), w') \<and> w_faults w' = []"
proof -
  obtain k where k: "free_temp (w_fs w) d (w_rand w) = Some k"
    using free_temp_exists by blast
  define tmp where "tmp = d @ [temp_name k]"
  define w1 where "w1 = w\<lparr>w_fs := gm_set tmp (File 384 []) (w_fs w)\<rparr>"
  define w2 where
    "w2 = w1\<lparr>w_fs := gm_set tmp (File 384 (index_bytes (sorted_entries st))) (w_fs w1)\<rparr>"
  define w3 where "w3 = w2\<lparr>w_fs := gm_set (d @ [''index.json''])
    (File 384 (index_bytes (sorted_entries st))) (gm_del tmp (w_fs w2))\<rparr>"
  have ne: "tmp \<noteq> []" "tmp \<noteq> d @ [''index.json'']" "d @ [''index.json''] \<noteq> tmp"
    by (simp_all add: tmp_def)
  have d: "abs_comps (w_cwd w) (st_dir st) = Some d" "st_dir st \<noteq> []"
    using assms(1,3) by (simp_all add: dir_comps_def place_ok_def)
  have ip: "abs_comps (w_cwd w) (index_path st) = Some (d @ [''index.json''])"
    using assms(1,3) by (rule index_path_comps)
  have "index_path st \<noteq> []"
    using d by (simp add: index_path_def)
  note evals = with_path_def d ip create_temp_def assms(2,4,5) k write_open_def close_file_def
    rename_file_def gomap_simps ne
  have 1: "with_path (st_dir st) create_temp w = (Inr tmp, w1)"
    by (simp add: evals w1_def tmp_def)
  have 2: "write_open tmp 384 (index_bytes (sorted_entries st)) w1 = (Inr (), w2)"
    by (simp add: evals w1_def w2_def)
  have 3: "close_file w2 = (Inr (), w2)"
    by (simp add: evals w1_def w2_def)
  have 4: "with_path (index_path st) (rename_file tmp) w2 = (Inr (), w3)"
    using \<open>index_path st \<noteq> []\<close> by (simp add: evals w1_def w2_def w3_def)
  show ?thesis
    using 1 2 3 4 by (simp add: save_index_def w3_def w2_def w1_def assms(2))
qed

section \<open>The invariant between the two maps\<close>

abbreviation ekey :: "entry \<Rightarrow> string" where
  "ekey e \<equiv> key_for (e_source e) (e_model_id e)"

definition store_inv :: "store \<Rightarrow> bool" where
  [inv_defs]: "store_inv st \<longleftrightarrow>
     gomap_ok (st_entries st) \<and> gomap_ok (st_by_key st) \<and>
     (\<forall>i e. gm_get (st_entries st) i = Some e \<longrightarrow>
        e_id e = i \<and> gm_get (st_by_key st) (ekey e) = Some i) \<and>
     (\<forall>k i. gm_get (st_by_key st) k = Some i \<longrightarrow>
        (\<exists>e. gm_get (st_entries st) i = Some e \<and> ekey e = k))"

text \<open>The store as its clients see it: the entry staged under each key.\<close>

definition staged :: "store \<Rightarrow> string \<Rightarrow> entry option" where
  "staged st = lookup_by_key st"

definition same_maps :: "store \<Rightarrow> store \<Rightarrow> bool" where
  "same_maps st st' \<longleftrightarrow>
     st_dir st' = st_dir st \<and> st_fetchers st' = st_fetchers st \<and>
     gm_get (st_entries st') = gm_get (st_entries st) \<and>
     gm_get (st_by_key st') = gm_get (st_by_key st)"

lemma same_maps_refl [simp]: "same_maps st st"
  by (simp add: same_maps_def)

lemma same_maps_staged: "same_maps st st' \<Longrightarrow> staged st' = staged st"
  by (rule ext) (simp add: staged_def lookup_by_key_def same_maps_def split: option.split)

lemma store_invI:
  assumes "gomap_ok (st_entries st)" and "gomap_ok (st_by_key st)"
    and "\<And>i e. gm_get (st_entries st) i = Some e \<Longrightarrow>
           e_id e = i \<and> gm_get (st_by_key st) (ekey e) = Some i"
    and "\<And>k i. gm_get (st_by_key st) k = Some i \<Longrightarrow>
           \<exists>e. gm_get (st_entries st) i = Some e \<and> ekey e = k"
  shows "store_inv st"
  using assms by (simp add: store_inv_def)

lemma store_inv_maps:
  "store_inv st \<Longrightarrow> gomap_ok (st_entries st) \<and> gomap_ok (st_by_key st)"
  by (simp add: store_inv_def)

lemma store_inv_id: "store_inv st \<Longrightarrow> gm_get (st_entries st) i = Some e \<Longrightarrow> e_id e = i"
  by (simp add: store_inv_def)

lemma store_inv_entry:
  assumes "store_inv st" and "gm_get (st_by_key st) k = Some i"
  obtains e where "gm_get (st_entries st) i = Some e" and "ekey e = k"
  using assms unfolding store_inv_def by meson

lemma store_inv_by_key:
  "store_inv st \<Longrightarrow> gm_get (st_entries st) i = Some e \<Longrightarrow> gm_get (st_by_key st) (ekey e) = Some i"
  by (simp add: store_inv_def)

lemma store_inv_key_unique:
  "store_inv st \<Longrightarrow> gm_get (st_entries st) i = Some e \<Longrightarrow> gm_get (st_by_key st) k = Some i \<Longrightarrow>
   k = ekey e"
  unfolding store_inv_def by (metis option.inject)

lemma store_inv_id_unique:
  assumes "store_inv st" and "gm_get (st_entries st) i = Some e"
    and "gm_get (st_entries st) j = Some e'" and "ekey e' = ekey e"
  shows "j = i"
  using store_inv_by_key [OF assms(1,2)] store_inv_by_key [OF assms(1,3)] assms(4) by simp

lemma staged_iff:
  assumes "store_inv st"
  shows "staged st k = Some e \<longleftrightarrow> gm_get (st_entries st) (e_id e) = Some e \<and> ekey e = k"
proof
  assume "staged st k = Some e"
  then obtain i where i: "gm_get (st_by_key st) k = Some i" and e: "gm_get (st_entries st) i = Some e"
    by (auto simp: staged_def lookup_by_key_def split: option.splits)
  show "gm_get (st_entries st) (e_id e) = Some e \<and> ekey e = k"
    using e store_inv_id [OF assms e] store_inv_key_unique [OF assms e i] by simp
next
  assume e: "gm_get (st_entries st) (e_id e) = Some e \<and> ekey e = k"
  then show "staged st k = Some e"
    using store_inv_by_key [OF assms, of "e_id e" e] by (simp add: staged_def lookup_by_key_def)
qed

lemma store_inv_same_maps:
  "store_inv st \<Longrightarrow> same_maps st st' \<Longrightarrow> gomap_ok (st_entries st') \<Longrightarrow> gomap_ok (st_by_key st') \<Longrightarrow>
   store_inv st'"
  by (simp add: store_inv_def same_maps_def)

definition fits :: "entry \<Rightarrow> store \<Rightarrow> bool" where
  "fits e st \<longleftrightarrow>
     (\<forall>e'. gm_get (st_entries st) (e_id e) = Some e' \<longrightarrow> ekey e' = ekey e) \<and>
     (\<forall>i. gm_get (st_by_key st) (ekey e) = Some i \<longrightarrow> i = e_id e)"

lemma put_entry_inv:
  assumes "store_inv st" and "fits e st"
  shows "store_inv (put_entry e st)"
proof -
  have 1: "i = e_id e" if "gm_get (st_entries st) i = Some e'" and "ekey e' = ekey e" for i e'
    using store_inv_by_key [OF assms(1) that(1)] that(2) assms(2) by (simp add: fits_def)
  have 2: "k = ekey e" if by_key: "gm_get (st_by_key st) k = Some (e_id e)" for k
  proof -
    obtain e' where "gm_get (st_entries st) (e_id e) = Some e'" and "ekey e' = k"
      by (rule store_inv_entry [OF assms(1) by_key])
    with assms(2) show ?thesis
      by (auto simp: fits_def)
  qed
  show ?thesis
  proof (rule store_invI)
    fix i e'
    assume ie: "gm_get (st_entries (put_entry e st)) i = Some e'"
    show "e_id e' = i \<and> gm_get (st_by_key (put_entry e st)) (ekey e') = Some i"
    proof (cases "i = e_id e")
      case True
      with ie show ?thesis
        by (simp add: put_entry_def gomap_simps)
    next
      case False
      with ie have old: "gm_get (st_entries st) i = Some e'"
        by (simp add: put_entry_def gomap_simps)
      have "ekey e' \<noteq> ekey e"
        using 1 [OF old] False by auto
      then show ?thesis
        using store_inv_id [OF assms(1) old] store_inv_by_key [OF assms(1) old]
        by (simp add: put_entry_def gomap_simps)
    qed
  next
    fix k i
    assume "gm_get (st_by_key (put_entry e st)) k = Some i"
    then show "\<exists>e'. gm_get (st_entries (put_entry e st)) i = Some e' \<and> ekey e' = k"
    proof (cases "k = ekey e")
      case False
      with \<open>gm_get (st_by_key (put_entry e st)) k = Some i\<close> have i: "gm_get (st_by_key st) k = Some i"
        by (simp add: put_entry_def gomap_simps)
      then obtain e' where "gm_get (st_entries st) i = Some e'" "ekey e' = k"
        by (rule store_inv_entry [OF assms(1)])
      moreover have "i \<noteq> e_id e"
        using i 2 [of k] False by auto
      ultimately show ?thesis
        by (simp add: put_entry_def gomap_simps)
    qed (simp add: put_entry_def gomap_simps)
  qed (simp_all add: put_entry_def store_inv_maps [OF assms(1)])
qed

lemma put_entry_staged:
  assumes "store_inv st" and "fits e st"
  shows "staged (put_entry e st) = (staged st)(ekey e \<mapsto> e)"
proof
  fix k
  show "staged (put_entry e st) k = ((staged st)(ekey e \<mapsto> e)) k"
  proof (cases "k = ekey e")
    case True
    then show ?thesis
      by (simp add: staged_def lookup_by_key_def put_entry_def gomap_simps)
  next
    case False
    have "gm_get (st_by_key st) k \<noteq> Some (e_id e)"
    proof
      assume k: "gm_get (st_by_key st) k = Some (e_id e)"
      obtain e' where "gm_get (st_entries st) (e_id e) = Some e'" "ekey e' = k"
        by (rule store_inv_entry [OF assms(1) k])
      with assms(2) False show False
        by (auto simp: fits_def)
    qed
    with False show ?thesis
      by (auto simp: staged_def lookup_by_key_def put_entry_def gomap_simps split: option.split)
  qed
qed

lemma drop_entry_inv:
  assumes "store_inv st" and "gm_get (st_entries st) i = Some e"
  shows "store_inv (drop_entry i e st)"
proof (rule store_invI)
  fix j e'
  assume "gm_get (st_entries (drop_entry i e st)) j = Some e'"
  then show "e_id e' = j \<and> gm_get (st_by_key (drop_entry i e st)) (ekey e') = Some j"
    using store_inv_id_unique [OF assms, of j e'] store_inv_id [OF assms(1), of j e']
      store_inv_by_key [OF assms(1), of j e']
    by (auto simp: drop_entry_def gomap_simps split: if_splits)
next
  fix k j
  assume "gm_get (st_by_key (drop_entry i e st)) k = Some j"
  then have j: "gm_get (st_by_key st) k = Some j" and k: "k \<noteq> ekey e"
    by (auto simp: drop_entry_def gomap_simps split: if_splits)
  obtain e' where "gm_get (st_entries st) j = Some e'" "ekey e' = k"
    by (rule store_inv_entry [OF assms(1) j])
  moreover have "j \<noteq> i"
    using store_inv_key_unique [OF assms, of k] j k by auto
  ultimately show "\<exists>e'. gm_get (st_entries (drop_entry i e st)) j = Some e' \<and> ekey e' = k"
    by (simp add: drop_entry_def gomap_simps)
qed (simp_all add: drop_entry_def store_inv_maps [OF assms(1)])

lemma drop_entry_staged:
  assumes "store_inv st" and "gm_get (st_entries st) i = Some e"
  shows "staged (drop_entry i e st) = (staged st)(ekey e := None)"
proof
  fix k
  show "staged (drop_entry i e st) k = ((staged st)(ekey e := None)) k"
    using store_inv_key_unique [OF assms, of k]
    by (cases "gm_get (st_by_key st) k")
      (auto simp: staged_def lookup_by_key_def drop_entry_def gomap_simps)
qed

lemma drop_put_same:
  "gm_get (st_entries st) (e_id e) = None \<Longrightarrow> gm_get (st_by_key st) (ekey e) = None \<Longrightarrow>
   same_maps st (drop_entry (e_id e) e (put_entry e st))"
  by (auto simp: same_maps_def drop_entry_def put_entry_def gomap_simps fun_eq_iff)

lemma reinsert_same:
  assumes "store_inv st" and "gm_get (st_entries st) i = Some e"
  shows "same_maps st ((drop_entry i e st)
    \<lparr>st_entries := gm_set i e (st_entries (drop_entry i e st)),
     st_by_key := gm_set (ekey e) i (st_by_key (drop_entry i e st))\<rparr>)"
  using assms(2) store_inv_by_key [OF assms]
  by (auto simp: same_maps_def drop_entry_def gomap_simps fun_eq_iff)

definition touch :: "timestamp \<Rightarrow> string \<Rightarrow> entry \<Rightarrow> store \<Rightarrow> store" where
  "touch now i e st = st\<lparr>st_entries := gm_set i (e\<lparr>e_last_used_at := now\<rparr>) (st_entries st)\<rparr>"

lemma touch_inv:
  assumes "store_inv st" and "gm_get (st_entries st) i = Some e"
  shows "store_inv (touch now i e st)"
proof (rule store_invI)
  fix j e'
  assume "gm_get (st_entries (touch now i e st)) j = Some e'"
  then show "e_id e' = j \<and> gm_get (st_by_key (touch now i e st)) (ekey e') = Some j"
    using store_inv_id [OF assms(1)] store_inv_by_key [OF assms(1)] assms(2)
    by (auto simp: touch_def gomap_simps split: if_splits)
next
  fix k j
  assume "gm_get (st_by_key (touch now i e st)) k = Some j"
  then have k: "gm_get (st_by_key st) k = Some j"
    by (simp add: touch_def)
  then obtain e' where "gm_get (st_entries st) j = Some e'" "ekey e' = k"
    by (rule store_inv_entry [OF assms(1)])
  then show "\<exists>e'. gm_get (st_entries (touch now i e st)) j = Some e' \<and> ekey e' = k"
    using assms(2) by (auto simp: touch_def gomap_simps)
qed (simp_all add: touch_def store_inv_maps [OF assms(1)])

lemma touch_staged:
  assumes "store_inv st" and "gm_get (st_entries st) i = Some e"
  shows "staged (touch now i e st) = (staged st)(ekey e \<mapsto> e\<lparr>e_last_used_at := now\<rparr>)"
proof
  fix k
  show "staged (touch now i e st) k = ((staged st)(ekey e \<mapsto> e\<lparr>e_last_used_at := now\<rparr>)) k"
  proof (cases "k = ekey e")
    case True
    then show ?thesis
      using store_inv_by_key [OF assms]
      by (simp add: staged_def lookup_by_key_def touch_def gomap_simps)
  next
    case False
    then show ?thesis
      using store_inv_key_unique [OF assms, of k]
      by (auto simp: staged_def lookup_by_key_def touch_def gomap_simps split: option.split)
  qed
qed

end
