(* ===== verification/Storage_Ops.thy ===== *)
theory Storage_Ops
  imports Storage_Correct
begin

text \<open>
  The operations of the model cache over the invariant: what \<open>Fetch\<close>, \<open>MarkUsed\<close> and \<open>Delete\<close> return,
  which key they change in the client's view \<open>staged\<close>, which paths of the file system they may touch,
  and when memory and \<open>index.json\<close> agree afterwards.  A fetcher is used through the contract
  \<open>fetcher_contract\<close>; \<open>Storage_Fetchers\<close> interprets it.
\<close>

section \<open>Paths\<close>

lemma remove_all_below:
  assumes "remove_all p w = (r, w')"
  shows "changes_only (prefix p) w w'"
proof (cases "p = []")
  case True
  with assms show ?thesis
    by (auto simp: changes_only_def remove_all_def Let_def split: prod.splits option.splits)
next
  case False
  then show ?thesis
    using remove_all_frame [OF _ assms] by simp
qed

lemma remove_all_path_real:
  assumes "remove_all_path p w = (r, w')" and "abs_comps (w_cwd w) p = Some d"
  shows "case kernel_path (w_fs w) d of Inl e \<Rightarrow> w' = w | Inr q \<Rightarrow> changes_only (prefix q) w w'"
  using assms remove_all_below [of _ w r w']
  by (auto simp: remove_all_path_def remove_all_real_def with_path_def split: if_splits sum.splits)

lemma remove_all_path_below:
  assumes "remove_all_path p w = (r, w')" and "abs_comps (w_cwd w) p = Some d" and "no_link_within (w_fs w) d"
  shows "changes_only (prefix d) w w'"
  using remove_all_path_real [OF assms(1,2)] by (simp add: kernel_path_plain [OF assms(3)])

lemma remove_all_path_cwd: "remove_all_path p w = (r, w') \<Longrightarrow> w_cwd w' = w_cwd w"
  using remove_all_below [of _ w r w']
  by (auto simp: remove_all_path_def remove_all_real_def with_path_def split: if_splits sum.splits option.splits
      dest: changes_only_cwd)

lemma with_path_frame:
  assumes "with_path p op w = (r, w')" and "abs_comps (w_cwd w) p = Some d"
    and "\<And>r w'. op d w = (r, w') \<Longrightarrow> changes_only P w w'"
  shows "changes_only P w w'"
  using assms by (auto simp: with_path_def split: if_splits)

lemma with_path_cwd:
  assumes "with_path p op w = (r, w')" and "\<And>d r w'. op d w = (r, w') \<Longrightarrow> w_cwd w' = w_cwd w"
  shows "w_cwd w' = w_cwd w"
  using assms by (auto simp: with_path_def split: if_splits option.splits)

lemma mkdir_all_cwd: "mkdir_all d w = (r, w') \<Longrightarrow> w_cwd w' = w_cwd w"
  using mkdir_all_frame [of d w r w'] by (auto intro: changes_only_cwd)

lemma measure_tree_frame: "measure_tree root w = (r, w') \<Longrightarrow> changes_only P w w'"
  by (auto simp: measure_tree_def with_path_def measure_tree_at_def changes_only_def
      split: if_splits option.splits prod.splits sum.splits)

lemma temp_path_cwd: "w_cwd w' = w_cwd w \<Longrightarrow> temp_path st w' = temp_path st w"
  by (simp add: temp_path_def dir_comps_def fun_eq_iff)

lemma index_file_cwd: "w_cwd w' = w_cwd w \<Longrightarrow> index_file st w' = index_file st w"
  by (simp add: index_file_def dir_comps_def fun_eq_iff)

lemma place_ok_cwd: "w_cwd w' = w_cwd w \<Longrightarrow> place_ok st w \<Longrightarrow> place_ok st w'"
  by (simp add: place_ok_def)

text \<open>The files of the index: \<open>index.json\<close> and its temporary copies.\<close>

definition index_files :: "store \<Rightarrow> world \<Rightarrow> comps \<Rightarrow> bool" where
  "index_files st w q \<longleftrightarrow> temp_path st w q \<or> index_file st w q"

lemma save_index_files:
  "save_index st w = (r, w') \<Longrightarrow> place_ok st w \<Longrightarrow> changes_only (index_files st w) w w'"
  using save_index_frame [of st w r w'] by (auto simp: index_files_def elim: changes_only_mono)

lemma index_files_below:
  "dir_comps st w = Some d \<Longrightarrow> index_files st w q \<Longrightarrow> prefix d q"
  by (auto simp: index_files_def temp_path_def index_file_def)

lemma index_files_dir: "st_dir st' = st_dir st \<Longrightarrow> index_files st' w = index_files st w"
  by (simp add: index_files_def temp_path_def index_file_def dir_comps_def fun_eq_iff)

lemma index_files_cwd: "w_cwd w' = w_cwd w \<Longrightarrow> index_files st w' = index_files st w"
  by (simp add: index_files_def temp_path_def index_file_def dir_comps_def fun_eq_iff)

lemma index_on_disk_dir: "st_dir st' = st_dir st \<Longrightarrow> index_on_disk st' w = index_on_disk st w"
  by (simp add: index_on_disk_def dir_comps_def)

lemma store_fields [simp]:
  "st_dir (put_entry e st) = st_dir st" "st_dir (drop_entry i e st) = st_dir st"
  "st_dir (touch now i e st) = st_dir st" "st_fetchers (put_entry e st) = st_fetchers st"
  "st_fetchers (drop_entry i e st) = st_fetchers st" "st_fetchers (touch now i e st) = st_fetchers st"
  by (simp_all add: put_entry_def drop_entry_def touch_def)

lemma place_ok_dir: "st_dir st' = st_dir st \<Longrightarrow> place_ok st' w = place_ok st w"
  by (simp add: place_ok_def)

text \<open>Memory and disk agree.\<close>

definition in_sync :: "store \<Rightarrow> world \<Rightarrow> bool" where
  "in_sync st w \<longleftrightarrow> index_on_disk st w = Some (index_bytes (sorted_entries st))"

section \<open>Using an entry that is present\<close>

lemma mark_used_eq:
  "gm_get (st_entries st) i = Some e \<Longrightarrow>
   mark_used now i (st, w) =
     (case save_index (touch now i e st) w of (r, w') \<Rightarrow> (r, (touch now i e st, w')))"
  by (simp add: mark_used_def touch_def Let_def)

lemma use_existing_eq:
  assumes "gm_get (st_entries st) (e_id e) = Some e"
  shows "use_existing now e (st, w) =
    (case save_index (touch now (e_id e) e st) w of
       (Inl er, w') \<Rightarrow> (Inl er, (touch now (e_id e) e st, w'))
     | (Inr _, w') \<Rightarrow> (Inr (e\<lparr>e_last_used_at := now\<rparr>), (touch now (e_id e) e st, w')))"
  using mark_used_eq [OF assms]
  by (auto simp: use_existing_def touch_def gomap_simps split: prod.split sum.split)

lemma mark_used_missing:
  "gm_get (st_entries st) i = None \<Longrightarrow> mark_used now i (st, w) = (Inl NotFound, (st, w))"
  by (simp add: mark_used_def)

text \<open>The requests \<open>Fetch\<close> accepts, and the fetcher they select.\<close>

definition request_ok :: "fetch_request \<Rightarrow> store \<Rightarrow> fetcher \<Rightarrow> bool" where
  "request_ok req st f \<longleftrightarrow> rq_source req \<noteq> [] \<and> rq_model_id req \<noteq> [] \<and>
     gm_get (st_fetchers st) (rq_source req) = Some f \<and>
     (rq_source req = ''nfs'' \<longrightarrow> rq_mount_source req \<noteq> [])"

abbreviation rkey :: "fetch_request \<Rightarrow> string" where
  "rkey req \<equiv> key_for (rq_source req) (rq_model_id req)"

text \<open>What \<open>singleflight.Group.Do\<close> does for a caller that leads: it runs the function once.\<close>

definition flight_ok :: "flight \<Rightarrow> bool" where
  "flight_ok fl \<longleftrightarrow> (\<forall>k f s. fl k f s = f s)"

text \<open>The ids of the entries present do not clash with the id of another key.\<close>

definition collision_free :: "(string \<Rightarrow> string) \<Rightarrow> store \<Rightarrow> fetch_request \<Rightarrow> bool" where
  "collision_free sha256 st req \<longleftrightarrow>
     (\<forall>(i, e) \<in> set (st_entries st).
        i = entry_id sha256 (rq_source req) (rq_model_id req) \<longrightarrow> ekey e = rkey req)"

lemma fetch_rejects:
  assumes "\<nexists>f. request_ok req st f"
  shows "\<exists>er. fetch sha256 fl now req (st, w) = (Inl er, (st, w)) \<and>
    er \<in> {SourceRequired, ModelIdRequired, UnknownSource (rq_source req), MountSourceRequired}"
  using assms by (auto simp: fetch_def request_ok_def split: option.split)

lemma fetch_present:
  assumes "request_ok req st f" and "lookup_by_key st (rkey req) = Some e"
  shows "fetch sha256 fl now req (st, w) = use_existing now e (st, w)"
  using assms by (auto simp: fetch_def request_ok_def Let_def)

lemma fetch_absent:
  assumes "request_ok req st f" and "lookup_by_key st (rkey req) = None" and "flight_ok fl"
  shows "fetch sha256 fl now req (st, w) = do_fetch sha256 f now req (st, w)"
  using assms by (auto simp: fetch_def request_ok_def flight_ok_def Let_def)

section \<open>Fetching an absent entry\<close>

text \<open>The directory a fetcher is given exists and holds no links a write could follow.\<close>

definition dir_path :: "filesys \<Rightarrow> comps \<Rightarrow> bool" where
  "dir_path fs d \<longleftrightarrow> list_all (\<lambda>q. node_at fs q = Some Dir) (prefixes d)"

lemma dir_path_iff: "dir_path fs d \<longleftrightarrow> (\<forall>q. prefix q d \<longrightarrow> node_at fs q = Some Dir)"
  by (auto simp: dir_path_def list_all_iff in_set_prefixes)

definition no_links :: "filesys \<Rightarrow> comps \<Rightarrow> bool" where
  "no_links fs d \<longleftrightarrow> (\<forall>q t. prefix d q \<longrightarrow> node_at fs q \<noteq> Some (Link t))"

definition link_free :: "filesys \<Rightarrow> comps \<Rightarrow> bool" where
  "link_free fs d \<longleftrightarrow> list_all (\<lambda>(q, nd). case nd of Link t \<Rightarrow> \<not> prefix d q | _ \<Rightarrow> True) fs"

lemma link_free_no_links: "link_free fs d \<Longrightarrow> no_links fs d"
  by (fastforce simp: link_free_def no_links_def list_all_iff node_at_def split: if_splits
      dest: gm_get_in)

lemma make_dirs_new:
  "node_at (fst (make_dirs fs done cs)) q = Some nd \<Longrightarrow> node_at fs q = Some nd \<or> nd = Dir"
  by (induction fs "done" cs rule: make_dirs.induct)
    (fastforce simp: gomap_simps split: option.splits node.splits if_splits)+

lemma make_dirs_path:
  "snd (make_dirs fs done cs) \<Longrightarrow> prefix q cs \<Longrightarrow> node_at fs done = Some Dir \<Longrightarrow>
   node_at (fst (make_dirs fs done cs)) (done @ q) = Some Dir"
proof (induction fs "done" cs arbitrary: q rule: make_dirs.induct)
  case (2 fs "done" c cs)
  show ?case
  proof (cases q)
    case Nil
    then show ?thesis
      using make_dirs_keeps [OF 2(5), of "done" "c # cs"] by simp
  next
    case (Cons c' q')
    with 2(4) have q: "c' = c" "prefix q' cs"
      by simp_all
    with 2 Cons show ?thesis
      by (auto simp: gomap_simps split: option.splits node.splits)
  qed
qed simp

lemma make_dirs_present:
  "dir_path fs (done @ cs) \<Longrightarrow> make_dirs fs done cs = (fs, True)"
proof (induction fs "done" cs rule: make_dirs.induct)
  case (2 fs "done" c cs)
  then have "node_at fs (done @ [c]) = Some Dir"
    by (simp add: dir_path_iff)
  with 2 show ?case
    by simp
qed simp

lemma mkdir_all_ready:
  assumes "mkdir_all d w = (Inr (), w')"
  shows "dir_path (w_fs w') d" and "no_links (w_fs w) x \<Longrightarrow> no_links (w_fs w') x"
proof -
  obtain f w1 where f: "next_fault w = (f, w1)" by force
  with assms have fs: "w_fs w' = fst (make_dirs (w_fs w) [] d)" and "snd (make_dirs (w_fs w) [] d)"
    by (auto simp: mkdir_all_def split: option.splits prod.splits if_splits)
  then show "dir_path (w_fs w') d"
    using make_dirs_path [of "w_fs w" "[]" d] by (auto simp: dir_path_iff node_at_def)
  show "no_links (w_fs w) x \<Longrightarrow> no_links (w_fs w') x"
    unfolding no_links_def fs using make_dirs_new by blast
qed

text \<open>What \<open>Store\<close> relies on: a fetcher writes at or below the directory it is given.\<close>

locale fetcher_contract =
  fixes f :: fetcher
  assumes writes_below:
    "f req dest w = (r, w') \<Longrightarrow> dest \<noteq> [] \<Longrightarrow> cwd_ok (w_cwd w) \<Longrightarrow> abs_comps (w_cwd w) dest = Some d \<Longrightarrow>
     dir_path (w_fs w) d \<Longrightarrow> no_links (w_fs w) d \<Longrightarrow> changes_only (prefix d) w w'"

definition dest_of :: "(string \<Rightarrow> string) \<Rightarrow> store \<Rightarrow> fetch_request \<Rightarrow> string" where
  "dest_of sha256 st req =
     (if rq_dest req = [] then path_join (st_dir st) (entry_id sha256 (rq_source req) (rq_model_id req))
      else rq_dest req)"

definition new_entry ::
  "(string \<Rightarrow> string) \<Rightarrow> store \<Rightarrow> timestamp \<Rightarrow> fetch_request \<Rightarrow> int \<Rightarrow> string list \<Rightarrow> entry" where
  "new_entry sha256 st now req sz files =
     \<lparr>e_id = entry_id sha256 (rq_source req) (rq_model_id req), e_source = rq_source req,
      e_model_id = rq_model_id req, e_path = dest_of sha256 st req, e_size = sz,
      e_files = sort files, e_fetched_at = now, e_last_used_at = now\<rparr>"

lemma new_entry_fits:
  assumes "store_inv st" and "lookup_by_key st (rkey req) = None" and "collision_free sha256 st req"
  shows "fits (new_entry sha256 st now req sz files) st"
    and "gm_get (st_entries st) (e_id (new_entry sha256 st now req sz files)) = None"
    and "gm_get (st_by_key st) (rkey req) = None"
proof -
  let ?e = "new_entry sha256 st now req sz files"
  show k: "gm_get (st_by_key st) (rkey req) = None"
  proof (rule ccontr)
    assume "gm_get (st_by_key st) (rkey req) \<noteq> None"
    then obtain i where i: "gm_get (st_by_key st) (rkey req) = Some i"
      by auto
    obtain e where "gm_get (st_entries st) i = Some e"
      by (rule store_inv_entry [OF assms(1) i])
    with i assms(2) show False
      by (simp add: lookup_by_key_def)
  qed
  show n: "gm_get (st_entries st) (e_id ?e) = None"
  proof (rule ccontr)
    assume "gm_get (st_entries st) (e_id ?e) \<noteq> None"
    then obtain e where e: "gm_get (st_entries st) (e_id ?e) = Some e"
      by auto
    then have "ekey e = rkey req"
      using assms(3) gm_get_in [OF e] by (auto simp: collision_free_def new_entry_def)
    with store_inv_by_key [OF assms(1) e] k show False
      by simp
  qed
  show "fits ?e st"
    using k n by (simp add: fits_def new_entry_def)
qed

text \<open>The paths a fetch may change: on the way to its destination, below it, and the index.\<close>

definition around :: "comps \<Rightarrow> comps \<Rightarrow> bool" where
  "around d q \<longleftrightarrow> prefix q d \<or> prefix d q"

definition fetch_area ::
  "(string \<Rightarrow> string) \<Rightarrow> store \<Rightarrow> fetch_request \<Rightarrow> world \<Rightarrow> comps \<Rightarrow> bool" where
  "fetch_area sha256 st req w q \<longleftrightarrow>
     (case abs_comps (w_cwd w) (dest_of sha256 st req) of None \<Rightarrow> False | Some d \<Rightarrow> around d q) \<or>
     index_files st w q"

definition dest_clear :: "(string \<Rightarrow> string) \<Rightarrow> store \<Rightarrow> fetch_request \<Rightarrow> world \<Rightarrow> bool" where
  "dest_clear sha256 st req w \<longleftrightarrow>
     (case abs_comps (w_cwd w) (dest_of sha256 st req) of
        None \<Rightarrow> True | Some d \<Rightarrow> link_free (w_fs w) d)"

lemma do_fetch_dest:
  "do_fetch sha256 f now req (st, w) =
     (case with_path (dest_of sha256 st req) mkdir_all w of
        (Inl e, w1) \<Rightarrow> (Inl (CreateDest e), (st, w1))
      | (Inr _, w1) \<Rightarrow>
          (case f req (dest_of sha256 st req) w1 of
             (Inl e, w2) \<Rightarrow>
               (Inl (FetcherFailed e),
                (st, if rq_dest req = [] then snd (remove_all_path (dest_of sha256 st req) w2) else w2))
           | (Inr files, w2) \<Rightarrow>
               (case measure_tree (dest_of sha256 st req) w2 of
                  (Inl e, w3) \<Rightarrow> (Inl (Measure e), (st, w3))
                | (Inr (sz, found), w3) \<Rightarrow>
                    (let e = new_entry sha256 st now req sz (if files = [] then found else files) in
                     case save_index (put_entry e st) w3 of
                       (Inl er, w4) \<Rightarrow> (Inl er, (drop_entry (e_id e) e (put_entry e st), w4))
                     | (Inr _, w4) \<Rightarrow> (Inr e, (put_entry e st, w4))))))"
  by (simp only: do_fetch_def Let_def dest_of_def new_entry_def prod.case entry.simps)

context fetcher_contract
begin

text \<open>The calls before the index is touched stay above and below the destination.\<close>

lemma prepare_frame:
  assumes "with_path (dest_of sha256 st req) mkdir_all w = (Inr (), w1)"
    and "f req (dest_of sha256 st req) w1 = (r, w2)"
    and "place_ok st w" and "dest_clear sha256 st req w"
  shows "changes_only (fetch_area sha256 st req w) w w2"
    and "\<exists>d. abs_comps (w_cwd w2) (dest_of sha256 st req) = Some d \<and> no_link_within (w_fs w2) d"
proof -
  obtain d where d: "abs_comps (w_cwd w) (dest_of sha256 st req) = Some d"
    and mk: "mkdir_all d w = (Inr (), w1)"
    using with_path_Some [OF assms(1)] by blast
  have "dest_of sha256 st req \<noteq> []"
    using assms(1) by (auto simp: with_path_def)
  have c1: "changes_only (\<lambda>q. prefix q d) w w1"
    using mk by (rule mkdir_all_frame)
  have "no_links (w_fs w) d"
    using assms(4) d by (simp add: dest_clear_def link_free_no_links)
  with c1 \<open>dest_of sha256 st req \<noteq> []\<close> have c2: "changes_only (prefix d) w1 w2"
    using writes_below [OF assms(2)] mkdir_all_ready [OF mk] d assms(3)
    by (simp add: changes_only_def place_ok_def)
  show "changes_only (fetch_area sha256 st req w) w w2"
    using c1 c2 d by (auto simp: around_def changes_only_def fetch_area_def)
  have "node_at (w_fs w2) q = Some Dir" if "strict_prefix q d" for q
  proof -
    have "prefix q d" "\<not> prefix d q"
      using that by (auto simp: strict_prefix_def intro: prefix_order.antisym)
    then show ?thesis
      using c2 mkdir_all_ready(1) [OF mk] by (simp add: changes_only_def dir_path_iff)
  qed
  then show "\<exists>d. abs_comps (w_cwd w2) (dest_of sha256 st req) = Some d \<and> no_link_within (w_fs w2) d"
    using c1 c2 d by (auto simp: changes_only_def no_link_within_def)
qed

lemma do_fetch_ok:
  assumes "do_fetch sha256 f now req (st, w) = (Inr e, (st', w'))" and "place_ok st w"
    and "dest_clear sha256 st req w"
  shows "\<exists>sz files. e = new_entry sha256 st now req sz files"
    and "st' = put_entry e st" and "in_sync st' w'"
    and "changes_only (fetch_area sha256 st req w) w w'"
proof -
  obtain w1 w2 w3 files sz found where
    1: "with_path (dest_of sha256 st req) mkdir_all w = (Inr (), w1)" and
    2: "f req (dest_of sha256 st req) w1 = (Inr files, w2)" and
    3: "measure_tree (dest_of sha256 st req) w2 = (Inr (sz, found), w3)" and
    e: "e = new_entry sha256 st now req sz (if files = [] then found else files)" and
    4: "save_index (put_entry e st) w3 = (Inr (), w')" and
    st': "st' = put_entry e st"
    using assms(1) by (auto simp: do_fetch_dest Let_def split: prod.splits sum.splits if_splits)
  show "\<exists>sz files. e = new_entry sha256 st now req sz files"
    using e by blast
  show "st' = put_entry e st"
    by (rule st')
  have c: "changes_only (fetch_area sha256 st req w) w w3"
    using prepare_frame(1) [OF 1 2 assms(2,3)] measure_tree_frame [OF 3] by (rule changes_only_trans)
  then have cwd: "w_cwd w3 = w_cwd w"
    by (rule changes_only_cwd)
  have place: "place_ok (put_entry e st) w3"
    using assms(2) cwd by (simp add: place_ok_def)
  show "in_sync st' w'"
    using save_index_ok(1) [OF 4 place] st' by (simp add: in_sync_def)
  have "changes_only (index_files st w) w3 w'"
    using save_index_files [OF 4 place] index_files_cwd [OF cwd, of st]
      index_files_dir [of "put_entry e st" st w3] by simp
  with c show "changes_only (fetch_area sha256 st req w) w w'"
    by (auto simp: changes_only_def fetch_area_def)
qed

lemma do_fetch_fails:
  assumes "do_fetch sha256 f now req (st, w) = (Inl er, (st', w'))" and "place_ok st w"
    and "store_inv st" and "lookup_by_key st (rkey req) = None" and "collision_free sha256 st req"
    and "dest_clear sha256 st req w"
  shows "same_maps st st' \<and> store_inv st' \<and> changes_only (fetch_area sha256 st req w) w w'"
proof -
  let ?dest = "dest_of sha256 st req" and ?area = "fetch_area sha256 st req w"
  consider (mk) e where "with_path ?dest mkdir_all w = (Inl e, w')" "st' = st"
    | (run) w1 e w2 where "with_path ?dest mkdir_all w = (Inr (), w1)"
        "f req ?dest w1 = (Inl e, w2)" "st' = st"
        "w' = (if rq_dest req = [] then snd (remove_all_path ?dest w2) else w2)"
    | (measure) w1 files w2 e where "with_path ?dest mkdir_all w = (Inr (), w1)"
        "f req ?dest w1 = (Inr files, w2)" "measure_tree ?dest w2 = (Inl e, w')" "st' = st"
    | (save) w1 files w2 sz found w3 e er where "with_path ?dest mkdir_all w = (Inr (), w1)"
        "f req ?dest w1 = (Inr files, w2)" "measure_tree ?dest w2 = (Inr (sz, found), w3)"
        "e = new_entry sha256 st now req sz (if files = [] then found else files)"
        "save_index (put_entry e st) w3 = (Inl er, w')"
        "st' = drop_entry (e_id e) e (put_entry e st)"
    using assms(1) by (auto simp: do_fetch_dest Let_def split: prod.splits sum.splits if_splits)
  then show ?thesis
  proof cases
    case mk
    have "changes_only ?area w w'"
    proof (cases "abs_comps (w_cwd w) ?dest")
      case None
      with mk(1) show ?thesis
        by (auto simp: with_path_def split: if_splits)
    next
      case (Some d)
      have "changes_only (\<lambda>q. prefix q d) w w'"
        using mk(1) Some by (rule with_path_frame) (rule mkdir_all_frame)
      with Some show ?thesis
        by (auto simp: changes_only_def fetch_area_def around_def)
    qed
    with mk(2) assms(3) show ?thesis
      by simp
  next
    case run
    have c: "changes_only ?area w w2"
      using run(1,2) assms(2,6) by (rule prepare_frame)
    obtain d where d: "abs_comps (w_cwd w2) ?dest = Some d" and plain: "no_link_within (w_fs w2) d"
      using prepare_frame(2) [OF run(1,2) assms(2,6)] by auto
    have "changes_only ?area w2 w'"
    proof (cases "rq_dest req = []")
      case True
      have "changes_only (prefix d) w2 w'"
        using remove_all_path_below [of ?dest w2 _ w' d] d plain run(4) True
        by (cases "remove_all_path ?dest w2") simp
      with d changes_only_cwd [OF c] show ?thesis
        by (auto simp: changes_only_def fetch_area_def around_def)
    next
      case False
      with run(4) show ?thesis
        by simp
    qed
    with c have "changes_only ?area w w'"
      by (rule changes_only_trans)
    with run(3) assms(3) show ?thesis
      by simp
  next
    case measure
    have "changes_only ?area w w'"
      using prepare_frame(1) [OF measure(1,2) assms(2,6)] measure_tree_frame [OF measure(3)]
      by (rule changes_only_trans)
    with measure(4) assms(3) show ?thesis
      by simp
  next
    case save
    have c: "changes_only ?area w w3"
      using prepare_frame(1) [OF save(1,2) assms(2,6)] measure_tree_frame [OF save(3)]
      by (rule changes_only_trans)
    have cwd: "w_cwd w3 = w_cwd w"
      using c by (rule changes_only_cwd)
    have "place_ok (put_entry e st) w3"
      using assms(2) cwd by (simp add: place_ok_def)
    from save_index_files [OF save(5) this] have "changes_only ?area w3 w'"
      using index_files_cwd [OF cwd, of st] index_files_dir [of "put_entry e st" st w3]
      by (auto simp: changes_only_def fetch_area_def)
    with c have "changes_only ?area w w'"
      by (rule changes_only_trans)
    moreover have same: "same_maps st st'"
      unfolding save(6)
    proof (rule drop_put_same)
      show "gm_get (st_entries st) (e_id e) = None"
        unfolding save(4) by (rule new_entry_fits(2) [OF assms(3-5)])
      show "gm_get (st_by_key st) (ekey e) = None"
        using new_entry_fits(3) [OF assms(3-5)] by (simp add: save(4) new_entry_def)
    qed
    moreover have "store_inv st'"
      using assms(3) same by (rule store_inv_same_maps)
        (simp_all add: save(6) drop_entry_def put_entry_def store_inv_maps [OF assms(3)])
    ultimately show ?thesis
      by blast
  qed
qed

end

end
