(* ===== verification/Storage_Fetchers.thy ===== *)
theory Storage_Fetchers
  imports Storage_Ops
begin

text \<open>
  The two fetchers of \<open>internal/storage/fetchers.go\<close>.  \<open>huggingfaceFetcher\<close> builds a command line
  and an environment; the command itself is a parameter.  \<open>nfsFetcher\<close> is modelled down to the calls
  of \<open>copyFile\<close> and \<open>copyTree\<close>, with the links that \<open>os.Stat\<close>, \<open>os.Open\<close> and \<open>os.OpenFile\<close> follow.
  \<open>filepath.WalkDir\<close> reads a directory after its callback ran on it, so a walk over a tree that the
  callback is writing to need not end; the walk has fuel, one unit per visited node.
\<close>

section \<open>Stat\<close>

definition os_stat :: "comps \<Rightarrow> node os" where
  "os_stat p w =
     (case next_fault w of
        (Some n, w') \<Rightarrow> (Inl EFAULTED, w')
      | (None, w') \<Rightarrow>
          (case resolve max_links (w_fs w') p of
             Inl e \<Rightarrow> (Inl e, w')
           | Inr q \<Rightarrow>
               (case node_at (w_fs w') q of None \<Rightarrow> (Inl ENOENT, w') | Some nd \<Rightarrow> (Inr nd, w'))))"

definition os_lstat :: "comps \<Rightarrow> node os" where
  "os_lstat p w =
     (case next_fault w of
        (Some n, w') \<Rightarrow> (Inl EFAULTED, w')
      | (None, w') \<Rightarrow>
          (case node_at (w_fs w') p of None \<Rightarrow> (Inl ENOENT, w') | Some nd \<Rightarrow> (Inr nd, w')))"

section \<open>copyFile\<close>

text \<open>\<open>os.Open\<close> for reading gives the file the path leads to.  Devices and pipes are not opened here.\<close>

definition open_read :: "comps \<Rightarrow> comps os" where
  "open_read p w =
     (case next_fault w of
        (Some n, w') \<Rightarrow> (Inl EFAULTED, w')
      | (None, w') \<Rightarrow>
          (case resolve max_links (w_fs w') p of
             Inl e \<Rightarrow> (Inl e, w')
           | Inr q \<Rightarrow>
               (case node_at (w_fs w') q of
                  None \<Rightarrow> (Inl ENOENT, w')
                | Some (File m s) \<Rightarrow> (Inr q, w')
                | Some Dir \<Rightarrow> (Inl EISDIR, w')
                | Some _ \<Rightarrow> (Inl EINVAL, w'))))"

definition file_mode :: "filesys \<Rightarrow> comps \<Rightarrow> nat" where
  "file_mode fs p = (case node_at fs p of Some (File m s) \<Rightarrow> m | _ \<Rightarrow> 0)"

definition file_data :: "filesys \<Rightarrow> comps \<Rightarrow> string" where
  "file_data fs p = (case node_at fs p of Some (File m s) \<Rightarrow> s | _ \<Rightarrow> [])"

definition file_stat :: "comps \<Rightarrow> nat os" where
  "file_stat q w =
     (case next_fault w of
        (Some n, w') \<Rightarrow> (Inl EFAULTED, w')
      | (None, w') \<Rightarrow> (Inr (file_mode (w_fs w') q), w'))"

text \<open>\<open>info.Mode() & 0o640\<close>, and \<open>0o640\<close> where that is 0; 416 is \<open>0o640\<close>.\<close>

definition copy_mode :: "nat \<Rightarrow> nat" where
  "copy_mode m = (let mode = and m 416 in if mode = 0 then 416 else mode)"

text \<open>
  \<open>os.OpenFile(dst, O_WRONLY|O_CREATE|O_TRUNC, mode)\<close>: the mode is that of a file it creates (the
  process umask takes no bit of \<open>0o640\<close> away); an existing file keeps its own.
\<close>

definition open_trunc :: "comps \<Rightarrow> nat \<Rightarrow> comps os" where
  "open_trunc p mode w =
     (case next_fault w of
        (Some n, w') \<Rightarrow> (Inl EFAULTED, w')
      | (None, w') \<Rightarrow>
          (case resolve max_links (w_fs w') p of
             Inl e \<Rightarrow> (Inl e, w')
           | Inr q \<Rightarrow>
               (case node_at (w_fs w') q of
                  None \<Rightarrow>
                    if node_at (w_fs w') (butlast q) = Some Dir
                    then (Inr q, w'\<lparr>w_fs := gm_set q (File mode []) (w_fs w')\<rparr>)
                    else (Inl ENOENT, w')
                | Some (File m s) \<Rightarrow> (Inr q, w'\<lparr>w_fs := gm_set q (File m []) (w_fs w')\<rparr>)
                | Some Dir \<Rightarrow> (Inl EISDIR, w')
                | Some _ \<Rightarrow> (Inl EINVAL, w'))))"

text \<open>\<open>io.Copy(out, in)\<close> between open files; what it reads is what the source holds by then.\<close>

definition copy_data :: "comps \<Rightarrow> comps \<Rightarrow> unit os" where
  "copy_data q t w =
     (let m = file_mode (w_fs w) t; s = file_data (w_fs w) q in
      case next_fault w of
        (Some n, w') \<Rightarrow> (Inl EFAULTED, w'\<lparr>w_fs := gm_set t (File m (take n s)) (w_fs w')\<rparr>)
      | (None, w') \<Rightarrow> (Inr (), w'\<lparr>w_fs := gm_set t (File m s) (w_fs w')\<rparr>))"

text \<open>The last call is \<open>out.Sync\<close>; the results of the deferred closes are dropped.\<close>

definition copy_file :: "comps \<Rightarrow> comps \<Rightarrow> unit os" where
  "copy_file src dst =
     and_then (mkdir_all (butlast dst)) (\<lambda>_.
     and_then (open_read src) (\<lambda>q.
     and_then (file_stat q) (\<lambda>m.
     and_then (open_trunc dst (copy_mode m)) (\<lambda>t.
     and_then (copy_data q t) (\<lambda>_.
     close_file)))))"

section \<open>copyTree\<close>

text \<open>\<open>os.Symlink\<close>.\<close>

definition os_symlink :: "string \<Rightarrow> comps \<Rightarrow> unit os" where
  "os_symlink t p w =
     (case next_fault w of
        (Some n, w') \<Rightarrow> (Inl EFAULTED, w')
      | (None, w') \<Rightarrow>
          (if node_at (w_fs w') p \<noteq> None then (Inl EEXIST, w')
           else if node_at (w_fs w') (butlast p) \<noteq> Some Dir then (Inl ENOENT, w')
           else (Inr (), w'\<lparr>w_fs := gm_set p (Link t) (w_fs w')\<rparr>)))"

definition os_readlink :: "comps \<Rightarrow> string os" where
  "os_readlink p w =
     (case next_fault w of
        (Some n, w') \<Rightarrow> (Inl EFAULTED, w')
      | (None, w') \<Rightarrow>
          (case node_at (w_fs w') p of
             Some (Link t) \<Rightarrow> (Inr t, w')
           | None \<Rightarrow> (Inl ENOENT, w')
           | _ \<Rightarrow> (Inl EINVAL, w')))"

definition copy_link :: "comps \<Rightarrow> comps \<Rightarrow> unit os" where
  "copy_link p target =
     and_then (os_readlink p) (\<lambda>t w1.
       case os_lstat target w1 of
         (Inr _, w2) \<Rightarrow> (Inr (), w2)
       | (Inl _, w2) \<Rightarrow> os_symlink t target w2)"

text \<open>
  The entries of a directory in lexical order, each with its kind.  No entry is named \<open>.\<close> or \<open>..\<close>,
  and no name holds a slash.
\<close>

definition child_names :: "filesys \<Rightarrow> comps \<Rightarrow> comps list" where
  "child_names fs p =
     sort (remdups (filter (\<lambda>q. q \<noteq> [] \<and> butlast q = p \<and> normal_comp (last q)) (map fst fs)))"

definition children :: "filesys \<Rightarrow> comps \<Rightarrow> (comps \<times> node) list" where
  "children fs p = map (\<lambda>q. (q, the (node_at fs q))) (child_names fs p)"

definition read_dir :: "comps \<Rightarrow> (comps \<times> node) list os" where
  "read_dir p w =
     (case next_fault w of
        (Some n, w') \<Rightarrow> (Inl EFAULTED, w')
      | (None, w') \<Rightarrow>
          (if node_at (w_fs w') p = Some Dir then (Inr (children (w_fs w') p), w')
           else (Inl ENOENT, w')))"

definition lift_copy :: "(os_error, unit) result \<times> world \<Rightarrow> (fetch_error, unit) result \<times> world" where
  "lift_copy x = (case x of (Inl e, w) \<Rightarrow> (Inl (CopyFailed e), w) | (Inr u, w) \<Rightarrow> (Inr u, w))"

text \<open>The callback of \<open>copyTree\<close> on one visited node.\<close>

definition copy_node ::
  "string \<Rightarrow> comps \<Rightarrow> string \<Rightarrow> comps \<Rightarrow> node \<Rightarrow> world \<Rightarrow> (fetch_error, unit) result \<times> world" where
  "copy_node src root dst p nd w =
     (case path_rel src (walk_path src root p) of
        None \<Rightarrow> (Inl (CopyFailed EINVAL), w)
      | Some rel \<Rightarrow>
          (let target = path_join dst rel in
           case nd of
             Dir \<Rightarrow> lift_copy (with_path target mkdir_all w)
           | File m s \<Rightarrow> lift_copy (with_path target (copy_file p) w)
           | Link t \<Rightarrow> lift_copy (with_path target (copy_link p) w)
           | Special \<Rightarrow> (Inl (UnsupportedType p), w)))"

fun copy_walk ::
  "nat \<Rightarrow> string \<Rightarrow> comps \<Rightarrow> string \<Rightarrow> (comps \<times> node) list \<Rightarrow> world \<Rightarrow>
   (fetch_error, unit) result \<times> world" where
  "copy_walk n src root dst [] w = (Inr (), w)"
| "copy_walk 0 src root dst (x # xs) w = (Inl OutOfFuel, w)"
| "copy_walk (Suc n) src root dst ((p, nd) # todo) w =
     (case copy_node src root dst p nd w of
        (Inl e, w1) \<Rightarrow> (Inl e, w1)
      | (Inr _, w1) \<Rightarrow>
          if nd = Dir then
            (case read_dir p w1 of
               (Inl e, w2) \<Rightarrow> (Inl (CopyFailed e), w2)
             | (Inr cs, w2) \<Rightarrow> copy_walk n src root dst (cs @ todo) w2)
          else copy_walk n src root dst todo w1)"

definition copy_tree_at ::
  "nat \<Rightarrow> string \<Rightarrow> string \<Rightarrow> comps \<Rightarrow> world \<Rightarrow> (fetch_error, unit) result \<times> world" where
  "copy_tree_at n src dst root w =
     (case os_lstat root w of
        (Inl e, w1) \<Rightarrow> (Inl (CopyFailed e), w1)
      | (Inr nd, w1) \<Rightarrow> copy_walk n src root dst [(root, nd)] w1)"

definition copy_tree :: "nat \<Rightarrow> string \<Rightarrow> string \<Rightarrow> world \<Rightarrow> (fetch_error, unit) result \<times> world" where
  "copy_tree n src dst w =
     (case abs_comps (w_cwd w) src of
        None \<Rightarrow> (Inl (CopyFailed ENOCWD), w)
      | Some root \<Rightarrow> copy_tree_at n src dst root w)"

section \<open>The fetchers\<close>

definition nfs_fetch :: "nat \<Rightarrow> fetcher" where
  "nfs_fetch n req dest w =
     (let src = path_join (rq_mount_source req) (rq_subpath req) in
      if \<not> under_root (w_cwd w) (rq_mount_source req) src then (Inl SubpathEscapes, w)
      else case with_path src os_stat w of
        (Inl e, w1) \<Rightarrow> (Inl (SourceStat e), w1)
      | (Inr Dir, w1) \<Rightarrow>
          (case copy_tree n src dest w1 of
             (Inl e, w2) \<Rightarrow> (Inl e, w2)
           | (Inr _, w2) \<Rightarrow> (Inr [], w2))
      | (Inr _, w1) \<Rightarrow>
          (case with_path (path_join dest (path_base src))
                  (\<lambda>t. with_path src (\<lambda>s. copy_file s t)) w1 of
             (Inl e, w2) \<Rightarrow> (Inl (CopyFailed e), w2)
           | (Inr _, w2) \<Rightarrow> (Inr [path_base src], w2)))"

text \<open>The command of \<open>huggingfaceFetcher\<close>: its arguments and what it adds to the environment.\<close>

definition include_args :: "string list \<Rightarrow> string list" where
  "include_args patterns = concat (map (\<lambda>p. if p = [] then [] else [''--include'', p]) patterns)"

definition hf_args :: "fetch_request \<Rightarrow> string \<Rightarrow> string list" where
  "hf_args req dest =
     [''download'', rq_model_id req, ''--local-dir'', dest, ''--local-dir-use-symlinks=False''] @
     include_args (rq_patterns req)"

definition hf_env :: "string \<Rightarrow> string list \<Rightarrow> string list" where
  "hf_env token environ =
     environ @ [''HF_HUB_DISABLE_TELEMETRY=1''] @
     (if token = [] then [] else [''HF_TOKEN='' @ token, ''HUGGING_FACE_HUB_TOKEN='' @ token])"

type_synonym command = "string \<Rightarrow> string list \<Rightarrow> string list \<Rightarrow> world \<Rightarrow> (string, string) result \<times> world"

definition hf_fetch :: "string option \<Rightarrow> command \<Rightarrow> string list \<Rightarrow> string \<Rightarrow> fetcher" where
  "hf_fetch cli run environ token req dest w =
     (case cli of
        None \<Rightarrow> (Inl CliNotFound, w)
      | Some bin \<Rightarrow>
          (case run bin (hf_args req dest) (hf_env token environ) w of
             (Inl out, w') \<Rightarrow> (Inl (CliFailed out), w')
           | (Inr out, w') \<Rightarrow> (Inr [], w')))"

text \<open>The fetchers \<open>NewStore\<close> installs.\<close>

definition default_fetchers ::
  "string option \<Rightarrow> command \<Rightarrow> string list \<Rightarrow> nat \<Rightarrow> string \<Rightarrow> (string, fetcher) gomap" where
  "default_fetchers cli run environ n token =
     [(''huggingface'', hf_fetch cli run environ token), (''nfs'', nfs_fetch n)]"

definition new_default_store ::
  "string option \<Rightarrow> command \<Rightarrow> string list \<Rightarrow> nat \<Rightarrow> string \<Rightarrow> string \<Rightarrow> world \<Rightarrow>
   (store_error, store) result \<times> world" where
  "new_default_store cli run environ n dir token =
     new_store (default_fetchers cli run environ n token) dir"

end
