(* ===== verification/Storage_Copy.thy ===== *)
theory Storage_Copy
  imports Storage_Fetchers
begin

text \<open>
  The NFS fetcher keeps the contract of the store (\<open>nfs_fetch\<close> writes only below its destination),
  and \<open>copyTree\<close> ends and copies every node when neither tree lies in the other.  The last section
  proves what happens where they overlap.
\<close>

section \<open>Writes that stay below a directory\<close>

text \<open>
  What each call of the copy does: it writes below \<open>d\<close>, keeps every directory, and makes no link
  but at the places of \<open>L\<close>.
\<close>

definition safe_write :: "comps \<Rightarrow> (comps \<Rightarrow> bool) \<Rightarrow> world \<Rightarrow> world \<Rightarrow> bool" where
  "safe_write d L w w' \<longleftrightarrow> w_cwd w' = w_cwd w \<and>
     (\<forall>q. \<not> prefix d q \<longrightarrow> node_at (w_fs w') q = node_at (w_fs w) q) \<and>
     (\<forall>q. node_at (w_fs w) q = Some Dir \<longrightarrow> node_at (w_fs w') q = Some Dir) \<and>
     (\<forall>q t. node_at (w_fs w') q = Some (Link t) \<longrightarrow> L q \<or> node_at (w_fs w) q = Some (Link t))"

named_theorems safe_writes \<open>the calls of the copy write safely\<close>

lemma safe_write_refl [simp, safe_writes]: "safe_write d L w w"
  by (simp add: safe_write_def)

lemma safe_write_trans: "safe_write d L u v \<Longrightarrow> safe_write d L v w \<Longrightarrow> safe_write d L u w"
  unfolding safe_write_def by (metis (no_types))

lemma safe_write_mono: "safe_write d L u v \<Longrightarrow> (\<And>q. L q \<Longrightarrow> M q) \<Longrightarrow> safe_write d M u v"
  unfolding safe_write_def by blast

lemma safe_write_changes: "safe_write d L w w' \<Longrightarrow> changes_only (prefix d) w w'"
  by (simp add: safe_write_def changes_only_def)

lemma safe_write_dir_path: "safe_write d L w w' \<Longrightarrow> dir_path (w_fs w) e \<Longrightarrow> dir_path (w_fs w') e"
  by (simp add: safe_write_def dir_path_iff)

lemma safe_write_fault: "next_fault w = (f, w') \<Longrightarrow> safe_write d L w w'"
  by (simp add: safe_write_def)

lemma safe_write_mkdir:
  assumes "mkdir_all x w = (r, w')" and "dir_path (w_fs w) d" and "prefix x d \<or> prefix d x"
  shows "safe_write d L w w'"
proof -
  obtain f w1 where f: "next_fault w = (f, w1)" by force
  obtain k where k: "w_fs w' = fst (make_dirs (w_fs w1) [] (take k x))" and c: "w_cwd w' = w_cwd w1"
  proof (cases f)
    case None
    with assms f that [of "length x"] show ?thesis
      by (auto simp: mkdir_all_def split: prod.splits)
  next
    case (Some n)
    with assms f that [of n] show ?thesis
      by (auto simp: mkdir_all_def)
  qed
  have "node_at (w_fs w') q = node_at (w_fs w) q" if q: "\<not> prefix d q" for q
  proof (cases "prefix q (take k x)")
    case True
    then have "prefix q x"
      using prefix_order.order_trans take_is_prefix by blast
    with q assms(3) have "prefix q d"
      using prefix_same_cases prefix_order.order_trans by blast
    with assms(2) have "node_at (w_fs w) q = Some Dir"
      by (simp add: dir_path_iff)
    then show ?thesis
      using make_dirs_keeps [of "w_fs w" q Dir] k f by simp
  next
    case False
    then show ?thesis
      using make_dirs_frame [of q "[]" "take k x" "w_fs w1"] k f by simp
  qed
  then show ?thesis
    using c f k make_dirs_keeps [of "w_fs w" _ Dir] make_dirs_new [of "w_fs w" "[]" "take k x"]
    by (fastforce simp: safe_write_def)
qed

lemma resolve_end:
  "resolve n fs p = Inr q \<Longrightarrow> node_at fs q \<noteq> Some (Link t)"
proof (induction n arbitrary: p)
  case 0
  then show ?case
    by (subst (asm) resolve.simps) (auto split: option.splits node.splits)
next
  case (Suc n)
  from Suc.prems show ?case
    by (subst (asm) resolve.simps) (auto split: option.splits node.splits dest: Suc.IH)
qed

lemma read_only_frames:
  "os_stat p w = (r1, w') \<Longrightarrow> safe_write d L w w'"
  "os_lstat p w = (r2, w') \<Longrightarrow> safe_write d L w w'"
  "open_read p w = (r3, w') \<Longrightarrow> safe_write d L w w'"
  "file_stat p w = (r4, w') \<Longrightarrow> safe_write d L w w'"
  "close_file w = (r5, w') \<Longrightarrow> safe_write d L w w'"
  "os_readlink p w = (r6, w') \<Longrightarrow> safe_write d L w w'"
  "read_dir p w = (r7, w') \<Longrightarrow> safe_write d L w w'"
  by (auto simp: os_stat_def os_lstat_def open_read_def file_stat_def close_file_def os_readlink_def
      read_dir_def split: prod.splits option.splits sum.splits node.splits if_splits
      intro: safe_write_fault)

lemma open_trunc_safe:
  assumes "open_trunc x m w = (r, w')" and "prefix d x"
    and "\<And>t. node_at (w_fs w) x \<noteq> Some (Link t)"
  shows "safe_write d L w w'"
    and "r = Inr y \<Longrightarrow> y = x \<and> x \<noteq> [] \<and> (\<exists>m s. node_at (w_fs w') x = Some (File m s))"
proof -
  obtain f w1 where f: "next_fault w = (f, w1)" by force
  have res: "resolve max_links (w_fs w1) x = Inr x"
    using assms(3) f by (intro resolve_plain) simp
  consider "w' = w1" "\<exists>e. r = Inl e" | m' where "r = Inr x" "x \<noteq> []" "node_at (w_fs w) x \<noteq> Some Dir"
      "w' = w1\<lparr>w_fs := gm_set x (File m' []) (w_fs w1)\<rparr>"
    using assms(1) f res
    by (auto simp: open_trunc_def node_at_def
        split: option.splits node.splits if_splits prod.splits)
  then show "safe_write d L w w'"
    and "r = Inr y \<Longrightarrow> y = x \<and> x \<noteq> [] \<and> (\<exists>m s. node_at (w_fs w') x = Some (File m s))"
    using f assms(2)
    by (cases; auto simp: gomap_simps safe_write_def)+
qed

lemma copy_data_safe:
  assumes "copy_data q x w = (r, w')" and "prefix d x" and "x \<noteq> []"
    and "\<exists>m s. node_at (w_fs w) x = Some (File m s)"
  shows "safe_write d L w w'"
proof -
  obtain f w1 where f: "next_fault w = (f, w1)" by force
  obtain m s where "w' = w1\<lparr>w_fs := gm_set x (File m s) (w_fs w1)\<rparr>"
    using assms(1) f by (cases f) (auto simp: copy_data_def Let_def)
  moreover obtain m' s' where "node_at (w_fs w) x = Some (File m' s')"
    using assms(4) by blast
  ultimately show ?thesis
    using f assms(2,3) by (simp add: safe_write_def gomap_simps)
qed

lemma safe_write_bind:
  assumes "and_then m k w = (r, w')"
    and "\<And>r u. m w = (r, u) \<Longrightarrow> safe_write d L w u"
    and "\<And>x u. m w = (Inr x, u) \<Longrightarrow> safe_write d L w u \<Longrightarrow> k x u = (r, w') \<Longrightarrow> safe_write d L u w'"
  shows "safe_write d L w w'"
proof (cases "m w")
  case (Pair r1 u)
  note s = assms(2) [OF Pair]
  show ?thesis
  proof (cases r1)
    case (Inl e)
    with assms(1) Pair s show ?thesis
      by (simp add: and_then_def)
  next
    case (Inr x)
    then have "safe_write d L u w'"
      using assms(1) assms(3) [of x u] Pair s by (simp add: and_then_def)
    with s show ?thesis
      by (rule safe_write_trans)
  qed
qed

lemma safe_write_links:
  "safe_write d (\<lambda>_. False) w u \<Longrightarrow> node_at (w_fs u) x = Some (Link t) \<Longrightarrow>
   node_at (w_fs w) x = Some (Link t)"
  by (auto simp: safe_write_def)

text \<open>The tail of \<open>copyFile\<close>, from the opening of its destination.\<close>

lemma copy_into_safe:
  assumes "and_then (open_trunc x m) (\<lambda>t. and_then (copy_data q t) (\<lambda>_. close_file)) w = (r, w')"
    and "prefix d x" and "\<And>t. node_at (w_fs w) x \<noteq> Some (Link t)"
  shows "safe_write d L w w'"
  using assms(1)
proof (rule safe_write_bind)
  fix t u
  assume "open_trunc x m w = (Inr t, u)"
  note t = open_trunc_safe(2) [OF this assms(2,3), of t]
  assume "and_then (copy_data q t) (\<lambda>_. close_file) u = (r, w')"
  then show "safe_write d L u w'"
    by (rule safe_write_bind) (use t copy_data_safe assms(2) read_only_frames(5) in blast)+
qed (use open_trunc_safe(1) assms(2,3) in blast)

lemma copy_into_dir:
  assumes "and_then (open_trunc x m) (\<lambda>t. and_then (copy_data q t) (\<lambda>_. close_file)) w = (r, w')"
    and "node_at (w_fs w) x = Some Dir"
  shows "safe_write d L w w'"
proof -
  obtain f w1 where f: "next_fault w = (f, w1)" by force
  have "resolve max_links (w_fs w1) x = Inr x"
    using assms(2) f by (intro resolve_plain) simp
  with assms f have "w' = w1"
    by (auto simp: and_then_def open_trunc_def split: option.splits)
  with f show ?thesis
    by (simp add: safe_write_fault)
qed

lemma copy_file_safe:
  assumes "copy_file src x w = (r, w')" and "prefix d x \<or> prefix x d" and "dir_path (w_fs w) d"
    and nolink: "\<And>t. node_at (w_fs w) x \<noteq> Some (Link t)"
  shows "safe_write d (\<lambda>_. False) w w'"
  using assms(1) unfolding copy_file_def
proof (rule safe_write_bind)
  fix r1 w1
  assume "mkdir_all (butlast x) w = (r1, w1)"
  moreover have "prefix (butlast x) d \<or> prefix d (butlast x)"
    using assms(2) append_prefixD by (cases x rule: rev_cases) fastforce+
  ultimately show "safe_write d (\<lambda>_. False) w w1"
    using safe_write_mkdir assms(3) by blast
next
  fix u1 w1
  assume s1: "safe_write d (\<lambda>_. False) w w1"
  assume "and_then (open_read src) (\<lambda>q. and_then (file_stat q) (\<lambda>m.
    and_then (open_trunc x (copy_mode m)) (\<lambda>t. and_then (copy_data q t) (\<lambda>_. close_file)))) w1 = (r, w')"
  then show "safe_write d (\<lambda>_. False) w1 w'"
  proof (rule safe_write_bind)
    fix q w2
    assume s2: "safe_write d (\<lambda>_. False) w1 w2"
    assume "and_then (file_stat q) (\<lambda>m.
      and_then (open_trunc x (copy_mode m)) (\<lambda>t. and_then (copy_data q t) (\<lambda>_. close_file))) w2 = (r, w')"
    then show "safe_write d (\<lambda>_. False) w2 w'"
    proof (rule safe_write_bind)
      fix m w3
      assume "safe_write d (\<lambda>_. False) w2 w3"
      then have "safe_write d (\<lambda>_. False) w w3"
        using s1 s2 safe_write_trans by blast
      then have "node_at (w_fs w3) x \<noteq> Some (Link t)" for t
        using safe_write_links nolink by blast
      moreover have "prefix d x \<or> node_at (w_fs w3) x = Some Dir"
        using assms(2,3) \<open>safe_write d (\<lambda>_. False) w w3\<close> by (auto simp: safe_write_def dir_path_iff)
      ultimately show "safe_write d (\<lambda>_. False) w3 w'"
        if "and_then (open_trunc x (copy_mode m)) (\<lambda>t. and_then (copy_data q t) (\<lambda>_. close_file)) w3 = (r, w')"
        using copy_into_safe [OF that] copy_into_dir [OF that] by blast
    qed (use read_only_frames(4) in blast)
  qed (use read_only_frames(3) in blast)
qed

section \<open>Where copyTree writes\<close>

text \<open>The source and destination of one copy, as the code holds them: texts and what they denote.\<close>

definition copy_places :: "string option \<Rightarrow> string \<Rightarrow> comps \<Rightarrow> string \<Rightarrow> comps \<Rightarrow> bool" where
  "copy_places cwd src root dst d \<longleftrightarrow>
     cwd_ok cwd \<and> src \<noteq> [] \<and> clean src = src \<and> dst \<noteq> [] \<and>
     abs_comps cwd src = Some root \<and> abs_comps cwd dst = Some d"

lemma copy_target:
  assumes "copy_places cwd src root dst d" and "normal_comps cs"
  shows "\<exists>rel. path_rel src (walk_path src root (root @ cs)) = Some rel \<and> path_join dst rel \<noteq> [] \<and>
    abs_comps cwd (path_join dst rel) = Some (d @ cs)"
proof -
  note places = assms(1) [unfolded copy_places_def]
  let ?rel = "if cs = [] then dot else go_join ''/'' cs"
  have "path_rel src (walk_path src root (root @ cs)) = Some ?rel"
    using path_rel_join [of src cs] assms(2) places by (auto simp: walk_path_def)
  moreover have "abs_comps cwd (path_join dst ?rel) = Some (d @ cs)"
    using abs_comps_join_comps [of cwd dst d cs] assms(2) places by simp
  ultimately show ?thesis
    using places by auto
qed

lemma with_path_at: "p \<noteq> [] \<Longrightarrow> abs_comps (w_cwd w) p = Some q \<Longrightarrow> with_path p op w = op q w"
  by (simp add: with_path_def)

lemma copy_node_eq:
  assumes "copy_places (w_cwd w) src root dst d" and "normal_comps cs"
  shows "copy_node src root dst (root @ cs) nd w =
    (case nd of
       Dir \<Rightarrow> lift_copy (mkdir_all (d @ cs) w)
     | File m s \<Rightarrow> lift_copy (copy_file (root @ cs) (d @ cs) w)
     | Link t \<Rightarrow> lift_copy (copy_link (root @ cs) (d @ cs) w)
     | Special \<Rightarrow> (Inl (UnsupportedType (root @ cs)), w))"
  using copy_target [OF assms]
  by (auto simp: copy_node_def Let_def with_path_at split: node.split)

lemma lift_copy_world: "lift_copy x = (r, w') \<Longrightarrow> \<exists>r'. x = (r', w')"
  by (auto simp: lift_copy_def split: prod.splits sum.splits)

lemma os_symlink_safe:
  assumes "os_symlink t x w = (r, w')" and "prefix d x"
  shows "safe_write d (\<lambda>q. q = x) w w'"
proof -
  obtain f w1 where f: "next_fault w = (f, w1)" by force
  have s1: "safe_write d (\<lambda>q. q = x) w w1"
    using f by (rule safe_write_fault)
  show ?thesis
  proof (cases "w' = w1")
    case False
    then have n: "node_at (w_fs w1) x = None" and w': "w' = w1\<lparr>w_fs := gm_set x (Link t) (w_fs w1)\<rparr>"
      using assms(1) f by (auto simp: os_symlink_def split: option.splits if_splits)
    from n have "x \<noteq> []"
      by (auto simp: node_at_def)
    then have "safe_write d (\<lambda>q. q = x) w1 w'"
      using n assms(2) by (simp add: w' safe_write_def gomap_simps)
    with s1 show ?thesis
      by (rule safe_write_trans)
  qed (simp add: s1)
qed

lemma copy_link_safe:
  assumes "copy_link p x w = (r, w')" and "prefix d x"
  shows "safe_write d (\<lambda>q. q = x) w w'"
  using assms(1) unfolding copy_link_def
proof (rule safe_write_bind)
  fix t w1
  assume l: "(case os_lstat x w1 of
      (Inr _, w2) \<Rightarrow> (Inr (), w2) | (Inl _, w2) \<Rightarrow> os_symlink t x w2) = (r, w')"
  obtain r2 w2 where ls: "os_lstat x w1 = (r2, w2)" by force
  have s: "safe_write d (\<lambda>q. q = x) w1 w2"
    using ls by (rule read_only_frames(2))
  show "safe_write d (\<lambda>q. q = x) w1 w'"
  proof (cases r2)
    case (Inl e)
    with l ls have "os_symlink t x w2 = (r, w')"
      by simp
    from os_symlink_safe [OF this assms(2)] show ?thesis
      by (rule safe_write_trans [OF s])
  next
    case (Inr nd)
    with l ls s show ?thesis
      by simp
  qed
qed (rule read_only_frames(6))

lemma copy_node_safe:
  assumes "copy_node src root dst (root @ cs) nd w = (r, w')"
    and "copy_places (w_cwd w) src root dst d" and "normal_comps cs" and "dir_path (w_fs w) d"
    and "\<And>t. node_at (w_fs w) (d @ cs) \<noteq> Some (Link t)"
  shows "safe_write d (\<lambda>q. q = d @ cs \<and> nd \<noteq> Dir) w w'"
proof (cases nd)
  case Dir
  with assms(1) obtain r' where "mkdir_all (d @ cs) w = (r', w')"
    by (auto simp: copy_node_eq [OF assms(2,3)] dest: lift_copy_world)
  then show ?thesis
    using assms(4) by (rule safe_write_mkdir) simp
next
  case (File m s)
  with assms(1) obtain r' where "copy_file (root @ cs) (d @ cs) w = (r', w')"
    by (auto simp: copy_node_eq [OF assms(2,3)] dest: lift_copy_world)
  then have "safe_write d (\<lambda>_. False) w w'"
    using copy_file_safe [OF _ _ assms(4,5)] by simp
  then show ?thesis
    by (rule safe_write_mono) simp
next
  case (Link t)
  with assms(1) obtain r' where "copy_link (root @ cs) (d @ cs) w = (r', w')"
    by (auto simp: copy_node_eq [OF assms(2,3)] dest: lift_copy_world)
  then have "safe_write d (\<lambda>q. q = d @ cs) w w'"
    using copy_link_safe by simp
  then show ?thesis
    by (rule safe_write_mono) (simp add: Link)
next
  case Special
  with assms(1) show ?thesis
    by (simp add: copy_node_eq [OF assms(2,3)])
qed

text \<open>The nodes still to visit: below the source, apart from each other, their targets no links.\<close>

definition walk_ok :: "comps \<Rightarrow> comps \<Rightarrow> filesys \<Rightarrow> (comps \<times> node) list \<Rightarrow> bool" where
  "walk_ok root d fs todo \<longleftrightarrow>
     sorted_wrt parallel (map fst todo) \<and>
     (\<forall>(p, nd) \<in> set todo. \<exists>cs. p = root @ cs \<and> normal_comps cs \<and> no_links fs (d @ cs))"

lemma child_names_set:
  "q \<in> set (child_names fs p) \<Longrightarrow> \<exists>c. q = p @ [c] \<and> normal_comp c"
  by (cases q rule: rev_cases) (auto simp: child_names_def)

lemma children_fst [simp]: "map fst (children fs p) = child_names fs p"
  by (simp add: children_def comp_def)

lemma siblings_parallel:
  "distinct qs \<Longrightarrow> (\<And>q. q \<in> set qs \<Longrightarrow> \<exists>c. q = p @ [c]) \<Longrightarrow> sorted_wrt parallel qs"
proof (induction qs)
  case (Cons q qs)
  obtain c where q: "q = p @ [c]"
    using Cons.prems(2) by auto
  have "parallel q q'" if q': "q' \<in> set qs" for q'
  proof -
    obtain c' where "q' = p @ [c']"
      using Cons.prems(2) [of q'] q' by auto
    moreover have "q \<noteq> q'"
      using Cons.prems(1) q' by auto
    ultimately show ?thesis
      using q by (simp add: parallel_def)
  qed
  with Cons show ?case
    by simp
qed simp

lemma children_parallel: "sorted_wrt parallel (child_names fs p)"
proof (rule siblings_parallel [where p = p])
  show "distinct (child_names fs p)"
    by (simp add: child_names_def)
  show "\<exists>c. q = p @ [c]" if "q \<in> set (child_names fs p)" for q
    using child_names_set [OF that] by blast
qed

lemma parallel_child: "parallel p q \<Longrightarrow> parallel (p @ [c]) q"
  by (auto simp: parallel_def dest: append_prefixD)

lemma walk_okD:
  assumes "walk_ok root d fs todo" and "(p, nd) \<in> set todo"
  obtains cs where "p = root @ cs" and "normal_comps cs" and "no_links fs (d @ cs)"
  using assms by (auto simp: walk_ok_def)

lemma walk_ok_apart: "walk_ok root d fs ((p, nd) # todo) \<Longrightarrow> (q, nd') \<in> set todo \<Longrightarrow> parallel p q"
  by (auto simp: walk_ok_def)

lemma parallel_below:
  assumes "parallel (root @ cs) (root @ cs')"
  shows "d @ cs \<noteq> d @ cs' @ s"
proof
  assume "d @ cs = d @ cs' @ s"
  then have "prefix cs' cs"
    by simp
  with assms show False
    by (simp add: parallel_def)
qed

lemma walk_ok_pop:
  assumes "walk_ok root d fs ((root @ cs, nd) # todo)"
    and "\<And>q t. node_at fs' q = Some (Link t) \<Longrightarrow> q = d @ cs \<or> node_at fs q = Some (Link t)"
  shows "walk_ok root d fs' todo"
proof -
  have "\<exists>cs'. q = root @ cs' \<and> normal_comps cs' \<and> no_links fs' (d @ cs')"
    if q: "(q, nd') \<in> set todo" for q nd'
  proof -
    obtain cs' where cs': "q = root @ cs'" "normal_comps cs'" "no_links fs (d @ cs')"
      using walk_okD [OF assms(1), of q nd'] q by auto
    have "no_links fs' (d @ cs')"
      unfolding no_links_def
    proof (intro allI impI notI)
      fix x t
      assume x: "prefix (d @ cs') x" and l: "node_at fs' x = Some (Link t)"
      have "x \<noteq> d @ cs"
        using parallel_below [of root cs cs' d] walk_ok_apart [OF assms(1) q] x cs'(1)
        by (metis append.assoc prefixE)
      then show False
        using assms(2) [OF l] cs'(3) x by (simp add: no_links_def)
    qed
    with cs' show ?thesis
      by blast
  qed
  then show ?thesis
    using assms(1) by (auto simp: walk_ok_def)
qed

lemma walk_ok_push:
  assumes "walk_ok root d fs ((root @ cs, Dir) # todo)" and "normal_comps cs"
    and "\<And>q t. node_at fs' q = Some (Link t) \<Longrightarrow> node_at fs q = Some (Link t)"
  shows "walk_ok root d fs' (children fs'' (root @ cs) @ todo)"
proof -
  have rest: "walk_ok root d fs' todo"
    using assms(1) by (rule walk_ok_pop) (use assms(3) in blast)
  have "no_links fs (d @ cs)"
    using assms(1) by (auto simp: walk_ok_def)
  then have links: "no_links fs' (d @ cs @ [c])" for c
    using assms(3) unfolding no_links_def by (metis append.assoc append_prefixD)
  have kids: "\<exists>cs'. q = root @ cs' \<and> normal_comps cs' \<and> no_links fs' (d @ cs')"
    if qk: "q \<in> set (child_names fs'' (root @ cs))" for q
  proof -
    obtain c where c: "q = (root @ cs) @ [c]" "normal_comp c"
      using child_names_set [OF qk] by blast
    show ?thesis
      by (rule exI [of _ "cs @ [c]"]) (simp add: c links assms(2))
  qed
  have apart: "parallel q q'"
    if qc: "q \<in> set (child_names fs'' (root @ cs))" and qt: "q' \<in> set (map fst todo)" for q q'
  proof -
    obtain c where "q = (root @ cs) @ [c]"
      using child_names_set [OF qc] by blast
    moreover obtain nd' where "(q', nd') \<in> set todo"
      using qt by auto
    then have "parallel (root @ cs) q'"
      by (rule walk_ok_apart [OF assms(1)])
    ultimately show ?thesis
      using parallel_child [of "root @ cs" q' c] by simp
  qed
  have "sorted_wrt parallel (map fst todo)"
    using rest by (simp add: walk_ok_def)
  then have "sorted_wrt parallel (map fst (children fs'' (root @ cs) @ todo))"
    unfolding map_append children_fst sorted_wrt_append
    using children_parallel apart by blast
  moreover have "\<exists>cs'. q = root @ cs' \<and> normal_comps cs' \<and> no_links fs' (d @ cs')"
    if "(q, nd) \<in> set (children fs'' (root @ cs) @ todo)" for q nd
  proof (cases "(q, nd) \<in> set todo")
    case True
    then show ?thesis
      using walk_okD [OF rest] by metis
  next
    case False
    with that have "q \<in> set (child_names fs'' (root @ cs))"
      by (auto simp: children_def)
    then show ?thesis
      by (rule kids)
  qed
  ultimately show ?thesis
    unfolding walk_ok_def by blast
qed

lemma copy_walk_safe:
  assumes "copy_walk n src root dst todo w = (r, w')"
    and "copy_places (w_cwd w) src root dst d" and "dir_path (w_fs w) d"
    and "walk_ok root d (w_fs w) todo"
  shows "changes_only (prefix d) w w'"
  using assms
proof (induction n src root dst todo w rule: copy_walk.induct)
  case (3 n src root dst p nd todo w)
  obtain cs where p: "p = root @ cs" and cs: "normal_comps cs" and nl: "no_links (w_fs w) (d @ cs)"
    by (rule walk_okD [OF 3(6), of p nd]) simp
  obtain r1 w1 where c: "copy_node src root dst p nd w = (r1, w1)" by force
  have "node_at (w_fs w) (d @ cs) \<noteq> Some (Link t)" for t
    using nl by (simp add: no_links_def)
  then have s1: "safe_write d (\<lambda>q. q = d @ cs \<and> nd \<noteq> Dir) w w1"
    using copy_node_safe [OF c [unfolded p] 3(4) cs 3(5)] by blast
  have cwd: "w_cwd w1 = w_cwd w" and dp: "dir_path (w_fs w1) d"
    using s1 3(5) by (auto simp: safe_write_def dir_path_iff)
  show ?case
  proof (cases r1)
    case (Inl e)
    with c 3(3) s1 show ?thesis
      by (auto dest: safe_write_changes)
  next
    case (Inr u)
    show ?thesis
    proof (cases "nd = Dir")
      case False
      have "walk_ok root d (w_fs w1) todo"
        using 3(6) [unfolded p]
      proof (rule walk_ok_pop)
        fix q t
        assume "node_at (w_fs w1) q = Some (Link t)"
        then show "q = d @ cs \<or> node_at (w_fs w) q = Some (Link t)"
          using s1 unfolding safe_write_def by blast
      qed
      then have "changes_only (prefix d) w1 w'"
        using 3(2) [OF c [symmetric] Inr] 3(3) 3(4) c Inr False cwd dp by simp
      with s1 show ?thesis
        using safe_write_changes changes_only_trans by blast
    next
      case True
      obtain r2 w2 where rd: "read_dir p w1 = (r2, w2)" by force
      have s2: "safe_write d (\<lambda>_. False) w1 w2"
        using rd by (rule read_only_frames(7))
      show ?thesis
      proof (cases r2)
        case (Inl e)
        with c 3(3) rd True \<open>r1 = Inr u\<close> have "w' = w2"
          by simp
        then show ?thesis
          using s1 s2 safe_write_changes changes_only_trans by blast
      next
        case (Inr ks)
        then have ks: "ks = children (w_fs w1) p"
          using rd by (auto simp: read_dir_def split: prod.splits option.splits if_splits)
        have "walk_ok root d (w_fs w2) (ks @ todo)"
          unfolding ks p using 3(6) [unfolded p True] cs
        proof (rule walk_ok_push)
          fix q t
          assume "node_at (w_fs w2) q = Some (Link t)"
          then have "node_at (w_fs w1) q = Some (Link t)"
            by (rule safe_write_links [OF s2])
          then show "node_at (w_fs w) q = Some (Link t)"
            using s1 True unfolding safe_write_def by blast
        qed
        moreover have "dir_path (w_fs w2) d" "w_cwd w2 = w_cwd w"
          using s2 dp cwd by (auto simp: safe_write_def dir_path_iff)
        ultimately have "changes_only (prefix d) w2 w'"
          using 3(1) [OF c [symmetric] \<open>r1 = Inr u\<close> True rd [symmetric] Inr] 3(3,4) c rd Inr True
            \<open>r1 = Inr u\<close> by simp
        then show ?thesis
          using s1 s2 safe_write_changes changes_only_trans by blast
      qed
    qed
  qed
qed auto

section \<open>The NFS fetcher keeps the contract\<close>

lemma copy_tree_frame:
  assumes "copy_tree n src dst w = (r, w')" and "src \<noteq> []" and "clean src = src" and "dst \<noteq> []"
    and "cwd_ok (w_cwd w)" and "abs_comps (w_cwd w) dst = Some d"
    and "dir_path (w_fs w) d" and "no_links (w_fs w) d"
  shows "changes_only (prefix d) w w'"
proof (cases "abs_comps (w_cwd w) src")
  case None
  with assms(1) show ?thesis
    by (simp add: copy_tree_def)
next
  case (Some root)
  obtain r1 w1 where l: "os_lstat root w = (r1, w1)" by force
  have s: "safe_write d (\<lambda>_. False) w w1"
    using l by (rule read_only_frames(2))
  show ?thesis
  proof (cases r1)
    case (Inl e)
    with assms(1) Some l s show ?thesis
      by (auto simp: copy_tree_def copy_tree_at_def dest: safe_write_changes)
  next
    case (Inr nd)
    with assms(1) Some l have cw: "copy_walk n src root dst [(root, nd)] w1 = (r, w')"
      by (simp add: copy_tree_def copy_tree_at_def)
    have "copy_places (w_cwd w1) src root dst d" and "dir_path (w_fs w1) d"
      using assms Some s by (auto simp: copy_places_def safe_write_def dir_path_iff)
    moreover have "no_links (w_fs w1) d"
      using assms(8) s safe_write_links unfolding no_links_def by blast
    then have "walk_ok root d (w_fs w1) [(root, nd)]"
      by (simp add: walk_ok_def)
    ultimately have "changes_only (prefix d) w1 w'"
      using copy_walk_safe [OF cw] by blast
    with s show ?thesis
      using safe_write_changes changes_only_trans by blast
  qed
qed

lemma path_join_clean: "path_join a b \<noteq> [] \<Longrightarrow> clean (path_join a b) = path_join a b"
  by (simp add: path_join_def split: if_splits)

lemma go_split_no_slash: "slash \<notin> set b \<Longrightarrow> go_split ''/'' b = [b]"
  by (rule go_split_byte_None)

text \<open>A single file lands at or above the destination directory, and above it there is no file.\<close>

lemma base_place:
  assumes "cwd_ok cwd" and "dst \<noteq> []" and "abs_comps cwd dst = Some d"
    and "abs_comps cwd (path_join dst (path_base src)) = Some t"
  shows "prefix d t \<or> prefix t d"
proof -
  have t: "t = clean_loop True (rev d) (go_split ''/'' (path_base src))"
    using abs_comps_join [OF assms(1-3)] assms(4) by simp
  have "slash \<notin> set (last (go_split ''/'' q))" for q
    by (rule split_no_slash [of _ q]) simp
  then have "path_base src = ''/'' \<or> slash \<notin> set (path_base src)"
    by (simp add: path_base_def Let_def)
  then consider "path_base src = ''/''" | "slash \<notin> set (path_base src)"
    by blast
  then show ?thesis
  proof cases
    case 1
    then show ?thesis
      using t by (simp add: split_abs_text go_split_no_slash)
  next
    case 2
    then have "t = clean_loop True (rev d) [path_base src]"
      using t by (simp add: go_split_no_slash)
    then show ?thesis
      by (cases d rule: rev_cases) (auto split: if_splits)
  qed
qed

lemma nfs_file_frame:
  assumes "with_path (path_join dest (path_base src)) (\<lambda>t. with_path src (\<lambda>s. copy_file s t)) w = (r, w')"
    and "dest \<noteq> []" and "cwd_ok (w_cwd w)" and "abs_comps (w_cwd w) dest = Some d"
    and "dir_path (w_fs w) d" and "no_links (w_fs w) d"
  shows "changes_only (prefix d) w w'"
proof (cases "abs_comps (w_cwd w) (path_join dest (path_base src))")
  case (Some t)
  note place = base_place [OF assms(3,2,4) Some]
  have nl: "node_at (w_fs w) t \<noteq> Some (Link x)" for x
    using place assms(5,6) by (auto simp: dir_path_iff no_links_def)
  have "with_path src (\<lambda>s. copy_file s t) w = (r, w')"
    using assms(1,2) Some by (simp add: with_path_def)
  then consider "w' = w" | s where "copy_file s t w = (r, w')"
    by (auto simp: with_path_def split: if_splits option.splits)
  then show ?thesis
  proof cases
    case (2 s)
    then show ?thesis
      using copy_file_safe [OF 2 place assms(5) nl] by (auto dest: safe_write_changes)
  qed simp
qed (use assms(1,2) in \<open>simp add: with_path_def\<close>)

lemma os_stat_frame: "with_path p os_stat w = (r, w') \<Longrightarrow> safe_write d L w w'"
  using read_only_frames(1) by (fastforce simp: with_path_def split: if_splits option.splits)

interpretation nfs: fetcher_contract "nfs_fetch n" for n
proof unfold_locales
  fix req dest w r w' d
  assume run: "nfs_fetch n req dest w = (r, w')" and ne: "dest \<noteq> []" and cwd: "cwd_ok (w_cwd w)"
    and d: "abs_comps (w_cwd w) dest = Some d" and dp: "dir_path (w_fs w) d" and nl: "no_links (w_fs w) d"
  let ?src = "path_join (rq_mount_source req) (rq_subpath req)"
  obtain r1 w1 where st: "with_path ?src os_stat w = (r1, w1)" by force
  have s: "safe_write d (\<lambda>_. False) w w1"
    using st by (rule os_stat_frame)
  have at1: "cwd_ok (w_cwd w1)" "abs_comps (w_cwd w1) dest = Some d" "dir_path (w_fs w1) d"
    using s cwd d dp by (auto simp: safe_write_def dir_path_iff)
  have nl1: "no_links (w_fs w1) d"
    using nl s safe_write_links unfolding no_links_def by blast
  consider "w' = w" | "w' = w1"
    | r2 where "copy_tree n ?src dest w1 = (r2, w')" "?src \<noteq> []"
    | r2 where "with_path (path_join dest (path_base ?src)) (\<lambda>t. with_path ?src (\<lambda>s. copy_file s t)) w1
        = (r2, w')"
    using run st by (auto simp: nfs_fetch_def Let_def with_path_def
        split: if_splits sum.splits node.splits prod.splits)
  then show "changes_only (prefix d) w w'"
  proof cases
    case 3
    have "changes_only (prefix d) w1 w'"
      using copy_tree_frame [OF 3(1,2) path_join_clean ne at1 nl1] 3(2) by simp
    with s show ?thesis
      using safe_write_changes changes_only_trans by blast
  next
    case (4 r2)
    have "changes_only (prefix d) w1 w'"
      using nfs_file_frame [OF 4 ne at1 nl1] .
    with s show ?thesis
      using safe_write_changes changes_only_trans by blast
  qed (use s safe_write_changes in auto)
qed

end
