(* ===== verification/Storage_CopyTree.thy ===== *)
theory Storage_CopyTree
  imports Storage_Copy
begin

text \<open>
  \<open>copyTree\<close> copies a whole tree: where neither tree lies in the other and no call fails, the walk
  ends within one unit of fuel per node of the source and leaves an image of it at the destination.
  Then what the guard of the fetcher is worth, and what happens where source and destination overlap.
\<close>

section \<open>Trees\<close>

text \<open>Below the root every node's parent is a directory, its name is normal, and it can be copied.\<close>

definition tree_ok :: "filesys \<Rightarrow> comps \<Rightarrow> bool" where
  "tree_ok fs root \<longleftrightarrow> node_at fs root = Some Dir \<and>
     list_all (\<lambda>(q, nd). strict_prefix root q \<longrightarrow>
       node_at fs (butlast q) = Some Dir \<and> normal_comp (last q) \<and> nd \<noteq> Special) fs"

definition empty_below :: "filesys \<Rightarrow> comps \<Rightarrow> bool" where
  "empty_below fs d \<longleftrightarrow> list_all (\<lambda>(q, nd). \<not> strict_prefix d q) fs"

fun copied :: "node option \<Rightarrow> node option" where
  "copied (Some Dir) = Some Dir"
| "copied (Some (File m s)) = Some (File (copy_mode m) s)"
| "copied (Some (Link t)) = Some (Link t)"
| "copied _ = None"

lemma node_at_in: "node_at fs q = Some nd \<Longrightarrow> q \<noteq> [] \<Longrightarrow> (q, nd) \<in> set fs"
  by (auto simp: node_at_def dest: gm_get_in)

lemma tree_ok_node:
  assumes "tree_ok fs root" and "node_at fs (root @ cs) = Some nd" and "cs \<noteq> []"
  shows "node_at fs (root @ butlast cs) = Some Dir" and "normal_comp (last cs)" and "nd \<noteq> Special"
proof -
  have "(root @ cs, nd) \<in> set fs"
    using node_at_in [OF assms(2)] assms(3) by simp
  moreover have "strict_prefix root (root @ cs)"
    using assms(3) by (simp add: strict_prefix_def)
  ultimately have "node_at fs (butlast (root @ cs)) = Some Dir \<and> normal_comp (last (root @ cs)) \<and> nd \<noteq> Special"
    using assms(1) unfolding tree_ok_def list_all_iff by blast
  then show "node_at fs (root @ butlast cs) = Some Dir" and "normal_comp (last cs)" and "nd \<noteq> Special"
    using assms(3) by (simp_all add: butlast_append)
qed

lemma tree_ok_above:
  "tree_ok fs root \<Longrightarrow> node_at fs (root @ cs @ ds) \<noteq> None \<Longrightarrow> ds \<noteq> [] \<Longrightarrow>
   node_at fs (root @ cs) = Some Dir"
proof (induction ds rule: rev_induct)
  case (snoc c ds)
  then have "node_at fs (root @ cs @ ds) = Some Dir"
    using tree_ok_node(1) [of fs root "cs @ ds @ [c]"] by (auto simp: butlast_append)
  with snoc show ?case
    by (cases "ds = []") simp_all
qed simp

lemma tree_ok_normal: "tree_ok fs root \<Longrightarrow> node_at fs (root @ cs) \<noteq> None \<Longrightarrow> normal_comps cs"
proof (induction cs rule: rev_induct)
  case (snoc c cs)
  then show ?case
    using tree_ok_node [of fs root "cs @ [c]"] by auto
qed simp

lemma empty_below_None:
  "empty_below fs d \<Longrightarrow> cs \<noteq> [] \<Longrightarrow> node_at fs (d @ cs) = None"
proof (rule ccontr)
  assume e: "empty_below fs d" and cs: "cs \<noteq> []" and "node_at fs (d @ cs) \<noteq> None"
  then obtain nd where "(d @ cs, nd) \<in> set fs"
    using node_at_in [of fs "d @ cs"] by auto
  moreover have "strict_prefix d (d @ cs)"
    using cs by (simp add: strict_prefix_def)
  ultimately show False
    using e unfolding empty_below_def list_all_iff by blast
qed

section \<open>One step of the walk without failures\<close>

lemma make_dirs_last:
  assumes "dir_path fs (done @ cs)" and "node_at fs (done @ cs @ [c]) = None"
  shows "make_dirs fs done (cs @ [c]) = (gm_set (done @ cs @ [c]) Dir fs, True)"
  using assms
proof (induction cs arbitrary: "done")
  case (Cons x cs)
  have "node_at fs (done @ [x]) = Some Dir"
    using Cons.prems(1) by (simp add: dir_path_iff)
  with Cons.IH [of "done @ [x]"] Cons.prems show ?case
    by simp
qed simp

text \<open>What a step writes at the target, in a world whose calls do not fail.\<close>

lemma copy_file_eq:
  assumes "w_faults w = []" and "resolve max_links (w_fs w) p = Inr q" and "node_at (w_fs w) q = Some (File m s)"
    and "dir_path (w_fs w) (butlast x)" and "node_at (w_fs w) x = None" and "x \<noteq> []"
  shows "copy_file p x w =
    (Inr (), w\<lparr>w_fs := gm_set x (File (copy_mode m) s) (gm_set x (File (copy_mode m) []) (w_fs w))\<rparr>)"
proof -
  have "q \<noteq> x"
    using assms by auto
  have mk: "mkdir_all (butlast x) w = (Inr (), w)"
    using make_dirs_present [of "w_fs w" "[]"] assms(1,4) by (simp add: mkdir_all_def)
  have rx: "resolve max_links (w_fs w) x = Inr x"
    using assms(5) by (intro resolve_plain) simp
  have "node_at (w_fs w) (butlast x) = Some Dir"
    using assms(4) by (simp add: dir_path_iff)
  then show ?thesis
    using assms \<open>q \<noteq> x\<close> rx
    by (simp add: copy_file_def and_then_def mk open_read_def file_stat_def open_trunc_def
        copy_data_def Let_def close_file_def file_mode_def file_data_def gomap_simps)
qed

lemma copy_link_eq:
  assumes "w_faults w = []" and "node_at (w_fs w) p = Some (Link t)"
    and "dir_path (w_fs w) (butlast x)" and "node_at (w_fs w) x = None" and "x \<noteq> []"
  shows "copy_link p x w = (Inr (), w\<lparr>w_fs := gm_set x (Link t) (w_fs w)\<rparr>)"
proof -
  have "node_at (w_fs w) (butlast x) = Some Dir"
    using assms(3) by (simp add: dir_path_iff)
  with assms show ?thesis
    by (simp add: copy_link_def and_then_def os_readlink_def os_lstat_def os_symlink_def)
qed

lemma mkdir_new_eq:
  assumes "w_faults w = []" and "dir_path (w_fs w) (butlast x)" and "node_at (w_fs w) x = None"
    and "x \<noteq> []"
  shows "mkdir_all x w = (Inr (), w\<lparr>w_fs := gm_set x Dir (w_fs w)\<rparr>)"
  using make_dirs_last [of "w_fs w" "[]" "butlast x" "last x"] assms by (simp add: mkdir_all_def)

definition fs_step :: "filesys \<Rightarrow> comps \<Rightarrow> node option \<Rightarrow> filesys \<Rightarrow> bool" where
  "fs_step fs x nd fs' \<longleftrightarrow> (\<forall>q. node_at fs' q = (if q = x then nd else node_at fs q))"

lemma fs_step_set:
  "x \<noteq> [] \<Longrightarrow> fs_step fs x (Some nd) (gm_set x nd fs)"
  "x \<noteq> [] \<Longrightarrow> fs_step fs x (Some nd) (gm_set x nd (gm_set x nd' fs))"
  by (simp_all add: fs_step_def gomap_simps)

lemma copy_node_step:
  assumes "copy_places (w_cwd w) src root dst d" and "w_faults w = []"
    and "node_at (w_fs w) (root @ cs) = Some nd" and "nd \<noteq> Special" and "normal_comps cs" and "cs \<noteq> []"
    and "dir_path (w_fs w) (d @ butlast cs)" and "node_at (w_fs w) (d @ cs) = None"
  shows "\<exists>fs'. copy_node src root dst (root @ cs) nd w = (Inr (), w\<lparr>w_fs := fs'\<rparr>) \<and>
    fs_step (w_fs w) (d @ cs) (copied (Some nd)) fs'"
proof -
  have x: "d @ cs \<noteq> []" "dir_path (w_fs w) (butlast (d @ cs))"
    using assms(6,7) by (simp_all add: butlast_append)
  show ?thesis
  proof (cases nd)
    case Dir
    with mkdir_new_eq [OF assms(2) x(2) assms(8) x(1)] fs_step_set(1) [OF x(1)] show ?thesis
      by (auto simp: copy_node_eq [OF assms(1,5)] lift_copy_def)
  next
    case (File m s)
    with assms(3) have "node_at (w_fs w) (root @ cs) = Some (File m s)"
      by simp
    from copy_file_eq [OF assms(2) resolve_plain this x(2) assms(8) x(1)] this File fs_step_set(2) [OF x(1)] show ?thesis
      by (auto simp: copy_node_eq [OF assms(1,5)] lift_copy_def)
  next
    case (Link t)
    with assms(3) have "node_at (w_fs w) (root @ cs) = Some (Link t)"
      by simp
    from copy_link_eq [OF assms(2) this x(2) assms(8) x(1)] Link fs_step_set(1) [OF x(1)] show ?thesis
      by (auto simp: copy_node_eq [OF assms(1,5)] lift_copy_def)
  qed (use assms(4) in simp)
qed

section \<open>The walk\<close>

text \<open>The nodes of the source still to be copied, and the state of the two trees meanwhile.\<close>

definition covered :: "(comps \<times> node) list \<Rightarrow> comps \<Rightarrow> bool" where
  "covered todo q \<longleftrightarrow> (\<exists>(p, nd) \<in> set todo. prefix p q)"

definition pending :: "filesys \<Rightarrow> (comps \<times> node) list \<Rightarrow> comps set" where
  "pending A todo = {q. node_at A q \<noteq> None \<and> covered todo q}"

definition walk_state ::
  "filesys \<Rightarrow> comps \<Rightarrow> comps \<Rightarrow> (comps \<times> node) list \<Rightarrow> filesys \<Rightarrow> bool" where
  "walk_state A root d todo fs \<longleftrightarrow>
     sorted_wrt parallel (map fst todo) \<and>
     (\<forall>(p, nd) \<in> set todo. node_at A p = Some nd \<and> (\<exists>cs. p = root @ cs \<and> cs \<noteq> [])) \<and>
     (\<forall>q. \<not> strict_prefix d q \<longrightarrow> node_at fs q = node_at A q) \<and>
     (\<forall>cs. cs \<noteq> [] \<longrightarrow> node_at fs (d @ cs) =
        (if covered todo (root @ cs) then None else copied (node_at A (root @ cs))))"

definition trees_ok :: "filesys \<Rightarrow> comps \<Rightarrow> comps \<Rightarrow> bool" where
  "trees_ok A root d \<longleftrightarrow> tree_ok A root \<and> dir_path A d \<and> parallel root d"

lemma covered_Cons: "covered ((p, nd) # todo) q \<longleftrightarrow> prefix p q \<or> covered todo q"
  by (auto simp: covered_def)

lemma covered_append: "covered (xs @ ys) q \<longleftrightarrow> covered xs q \<or> covered ys q"
  by (auto simp: covered_def)

lemma finite_nodes: "finite {q. node_at A q \<noteq> None}"
proof (rule finite_subset)
  show "{q. node_at A q \<noteq> None} \<subseteq> insert [] (fst ` set A)"
  proof
    fix q
    assume "q \<in> {q. node_at A q \<noteq> None}"
    then obtain nd where "node_at A q = Some nd"
      by auto
    then show "q \<in> insert [] (fst ` set A)"
      using node_at_in [of A q nd] by force
  qed
qed simp

lemma finite_pending [simp]: "finite (pending A todo)"
  by (rule finite_subset [OF _ finite_nodes [of A]]) (auto simp: pending_def)

lemma walk_state_parallel:
  assumes "walk_state A root d ((p, nd) # todo) fs" and "covered todo q" and "prefix q p \<or> prefix p q"
  shows "False"
proof -
  obtain p' nd' where p': "(p', nd') \<in> set todo" "prefix p' q"
    using assms(2) by (auto simp: covered_def)
  then have "parallel p p'"
    using assms(1) by (auto simp: walk_state_def)
  moreover have "prefix p' p \<or> prefix p p'"
    using assms(3) p'(2) prefix_order.order_trans prefix_same_cases by blast
  ultimately show False
    by (auto simp: parallel_def)
qed

text \<open>The directory a step writes into is there.\<close>

lemma walk_state_parent:
  assumes "trees_ok A root d" and "walk_state A root d ((root @ cs, nd) # todo) fs" and "cs \<noteq> []"
  shows "dir_path fs (d @ butlast cs)"
  unfolding dir_path_iff
proof (intro allI impI)
  fix q
  assume q: "prefix q (d @ butlast cs)"
  have A: "node_at A (root @ cs) \<noteq> None"
    using assms(2) by (auto simp: walk_state_def)
  show "node_at fs q = Some Dir"
  proof (cases "strict_prefix d q")
    case False
    then have "prefix q d"
      using q prefix_same_cases [of q "d @ butlast cs" d] by (auto simp: strict_prefix_def)
    then show ?thesis
      using assms(1,2) False by (auto simp: trees_ok_def walk_state_def dir_path_iff)
  next
    case True
    then obtain cs' where cs': "q = d @ cs'" "cs' \<noteq> []"
      by (auto simp: strict_prefix_def prefix_def)
    then have "prefix cs' (butlast cs)"
      using q by simp
    then obtain ds where ds: "cs = cs' @ ds" "ds \<noteq> []"
      using assms(3) by (cases cs rule: rev_cases) (auto simp: prefix_def)
    have "node_at A (root @ cs') = Some Dir"
      using tree_ok_above [of A root cs' ds] A assms(1) ds by (simp add: trees_ok_def)
    moreover have "\<not> covered ((root @ cs, nd) # todo) (root @ cs')"
    proof
      assume "covered ((root @ cs, nd) # todo) (root @ cs')"
      then have "covered todo (root @ cs')"
        using ds by (simp add: covered_Cons prefix_def)
      then show False
        by (rule walk_state_parallel [OF assms(2)]) (simp add: ds)
    qed
    ultimately show ?thesis
      using assms(2) cs' by (simp add: walk_state_def)
  qed
qed

lemma walk_state_target:
  "walk_state A root d ((root @ cs, nd) # todo) fs \<Longrightarrow> cs \<noteq> [] \<Longrightarrow> node_at fs (d @ cs) = None"
  by (simp add: walk_state_def covered_Cons)

lemma source_apart: "parallel root d \<Longrightarrow> \<not> prefix d (root @ cs)"
  using parallel_append [of root d cs "[]"] by (simp add: parallel_def)

lemma source_kept:
  "trees_ok A root d \<Longrightarrow> walk_state A root d todo fs \<Longrightarrow> node_at fs (root @ cs) = node_at A (root @ cs)"
  using source_apart [of root d cs] by (auto simp: trees_ok_def walk_state_def strict_prefix_def)

text \<open>The directory entries read during the walk are those of the source.\<close>

lemma child_names_iff:
  "q \<in> set (child_names fs p) \<longleftrightarrow> node_at fs q \<noteq> None \<and> (\<exists>c. q = p @ [c] \<and> normal_comp c)"
proof -
  have "q \<in> set (map fst fs) \<longleftrightarrow> gm_get fs q \<noteq> None"
    using gm_get_None_iff [of fs q] by auto
  then show ?thesis
    by (cases q rule: rev_cases) (auto simp: child_names_def node_at_def)
qed

lemma walk_state_step:
  assumes ok: "trees_ok A root d" and st: "walk_state A root d ((root @ cs, nd) # todo) fs"
    and step: "fs_step fs (d @ cs) (copied (Some nd)) fs'" and cs: "cs \<noteq> []"
    and new: "\<And>q nd'. (q, nd') \<in> set ks \<Longrightarrow>
       node_at A q = Some nd' \<and> (\<exists>c. q = (root @ cs) @ [c])"
    and par: "sorted_wrt parallel (map fst ks)"
    and cover: "\<And>q. node_at A q \<noteq> None \<Longrightarrow> prefix (root @ cs) q \<Longrightarrow> q \<noteq> root @ cs \<Longrightarrow> covered ks q"
  shows "walk_state A root d (ks @ todo) fs'"
    and "pending A (ks @ todo) = pending A ((root @ cs, nd) # todo) - {root @ cs}"
    and "root @ cs \<in> pending A ((root @ cs, nd) # todo)"
proof -
  have nd: "node_at A (root @ cs) = Some nd"
    using st by (simp add: walk_state_def)
  have not_p: "\<not> covered (ks @ todo) (root @ cs)"
    using walk_state_parallel [OF st, of "root @ cs"] new by (fastforce simp: covered_append covered_def)
  have below: "prefix (root @ cs) q" if cq: "covered ks q" for q
  proof -
    obtain k nd' where k: "(k, nd') \<in> set ks" "prefix k q"
      using cq by (auto simp: covered_def)
    then obtain c where "k = (root @ cs) @ [c]"
      using new by blast
    with k(2) show ?thesis
      by (blast dest: append_prefixD)
  qed
  have cov: "covered (ks @ todo) q \<longleftrightarrow> covered ((root @ cs, nd) # todo) q \<and> q \<noteq> root @ cs"
    if "node_at A q \<noteq> None" for q
    using not_p below cover [OF that] by (auto simp: covered_append covered_Cons)
  show "pending A (ks @ todo) = pending A ((root @ cs, nd) # todo) - {root @ cs}"
    using cov unfolding pending_def by blast
  show "root @ cs \<in> pending A ((root @ cs, nd) # todo)"
    using nd by (simp add: pending_def covered_Cons)
  have "parallel k p" if k: "(k, nk) \<in> set ks" and p: "(p, np) \<in> set todo" for k nk p np
  proof -
    obtain c where "k = (root @ cs) @ [c]"
      using new [OF k] by blast
    moreover have "parallel (root @ cs) p"
      using st p by (auto simp: walk_state_def)
    ultimately show ?thesis
      using parallel_child [of "root @ cs" p c] by simp
  qed
  then have sorted: "sorted_wrt parallel (map fst (ks @ todo))"
    using st par by (fastforce simp: walk_state_def sorted_wrt_append)
  have entries: "node_at A p = Some n \<and> (\<exists>cs. p = root @ cs \<and> cs \<noteq> [])" if "(p, n) \<in> set (ks @ todo)" for p n
  proof (cases "(p, n) \<in> set ks")
    case True
    then obtain c where "p = root @ (cs @ [c])"
      using new by auto
    then show ?thesis
      using new [OF True] by blast
  next
    case False
    with that st show ?thesis
      by (auto simp: walk_state_def)
  qed
  have outside: "node_at fs' q = node_at A q" if "\<not> strict_prefix d q" for q
  proof -
    have "q \<noteq> d @ cs"
      using that cs by (auto simp: strict_prefix_def)
    with that st step show ?thesis
      by (simp add: fs_step_def walk_state_def)
  qed
  have inside: "node_at fs' (d @ cs') =
      (if covered (ks @ todo) (root @ cs') then None else copied (node_at A (root @ cs')))"
    if "cs' \<noteq> []" for cs'
  proof (cases "cs' = cs")
    case True
    with step nd not_p show ?thesis
      by (simp add: fs_step_def)
  next
    case False
    then have "node_at fs' (d @ cs') = node_at fs (d @ cs')"
      using step by (simp add: fs_step_def)
    also have "\<dots> = (if covered ((root @ cs, nd) # todo) (root @ cs') then None
        else copied (node_at A (root @ cs')))"
      using st that by (simp add: walk_state_def)
    also have "\<dots> = (if covered (ks @ todo) (root @ cs') then None else copied (node_at A (root @ cs')))"
      using cov [of "root @ cs'"] False by (cases "node_at A (root @ cs')") auto
    finally show ?thesis .
  qed
  show "walk_state A root d (ks @ todo) fs'"
    unfolding walk_state_def using sorted entries outside inside by blast
qed

text \<open>Every node strictly below a directory is covered by the directory's entries.\<close>

lemma children_cover:
  assumes "tree_ok A root" and "node_at A q \<noteq> None" and "prefix (root @ cs) q" and "q \<noteq> root @ cs"
    and "\<And>x. node_at fs (root @ x) = node_at A (root @ x)"
  shows "covered (children fs (root @ cs)) q"
proof -
  obtain c ds where q: "q = (root @ cs) @ c # ds"
    using assms(3,4) by (metis append_Nil2 neq_Nil_conv prefixE)
  let ?k = "(root @ cs) @ [c]"
  have "node_at A ?k \<noteq> None"
  proof (cases "ds = []")
    case False
    then show ?thesis
      using tree_ok_above [OF assms(1), of "cs @ [c]" ds] assms(2) q by simp
  qed (use assms(2) q in simp)
  moreover from this have "normal_comp c"
    using tree_ok_normal [OF assms(1), of "cs @ [c]"] by simp
  ultimately have "?k \<in> set (child_names fs (root @ cs))"
    using assms(5) [of "cs @ [c]"] by (auto simp: child_names_iff)
  moreover have "prefix ?k q"
    by (simp add: q)
  ultimately show ?thesis
    unfolding covered_def children_def by force
qed

lemma no_children:
  assumes "tree_ok A root" and "node_at A (root @ cs) = Some nd" and "nd \<noteq> Dir"
    and "node_at A q \<noteq> None" and "prefix (root @ cs) q"
  shows "q = root @ cs"
proof (rule ccontr)
  assume "q \<noteq> root @ cs"
  then obtain ds where "q = root @ cs @ ds" "ds \<noteq> []"
    using assms(5) by (auto simp: prefix_def)
  with tree_ok_above [OF assms(1), of cs ds] assms show False
    by simp
qed

lemma children_entries:
  "(q, nd) \<in> set (children fs p) \<Longrightarrow> node_at fs q = Some nd \<and> (\<exists>c. q = p @ [c] \<and> normal_comp c)"
  by (auto simp: children_def child_names_iff)

lemma copy_walk_complete:
  assumes "copy_places (w_cwd w) src root dst d" and "trees_ok A root d" and "w_faults w = []"
    and "walk_state A root d todo (w_fs w)" and "card (pending A todo) \<le> n"
  shows "\<exists>fs'. copy_walk n src root dst todo w = (Inr (), w\<lparr>w_fs := fs'\<rparr>) \<and> walk_state A root d [] fs'"
  using assms
proof (induction n arbitrary: todo w)
  case 0
  have "todo = []"
  proof (cases todo)
    case (Cons x xs)
    then have "fst x \<in> pending A todo"
      using 0(4) by (cases x) (auto simp: pending_def covered_Cons walk_state_def)
    with 0(5) show ?thesis
      by (auto simp: card_eq_0_iff)
  qed simp
  with 0(4) show ?case
    by (auto intro: exI [of _ "w_fs w"])
next
  case (Suc n)
  show ?case
  proof (cases todo)
    case Nil
    with Suc.prems(4) show ?thesis
      by (auto intro: exI [of _ "w_fs w"])
  next
    case (Cons x rest)
    obtain p nd where x: "x = (p, nd)" by force
    obtain cs where p: "p = root @ cs" and cs: "cs \<noteq> []" and nd: "node_at A (root @ cs) = Some nd"
      using Suc.prems(4) Cons x by (auto simp: walk_state_def)
    have st: "walk_state A root d ((root @ cs, nd) # rest) (w_fs w)"
      using Suc.prems(4) Cons x p by simp
    have tree: "tree_ok A root"
      using Suc.prems(2) by (simp add: trees_ok_def)
    have ns: "nd \<noteq> Special"
      using tree_ok_node(3) [OF tree nd cs] .
    have "normal_comps cs"
      using tree_ok_normal [OF tree, of cs] nd by simp
    moreover have "node_at (w_fs w) (root @ cs) = Some nd"
      using source_kept [OF Suc.prems(2) st] nd by simp
    ultimately obtain fs1 where run: "copy_node src root dst (root @ cs) nd w = (Inr (), w\<lparr>w_fs := fs1\<rparr>)"
      and step: "fs_step (w_fs w) (d @ cs) (copied (Some nd)) fs1"
      using copy_node_step [OF Suc.prems(1,3) _ ns _ cs walk_state_parent [OF Suc.prems(2) st cs]
          walk_state_target [OF st cs]] by blast
    define ks where "ks = (if nd = Dir then children fs1 (root @ cs) else [])"
    have kept: "node_at fs1 (root @ x) = node_at A (root @ x)" for x
      using source_kept [OF Suc.prems(2) st, of x] step Suc.prems(2) source_apart [of root d x]
      by (auto simp: fs_step_def trees_ok_def)
    have new: "node_at A q = Some n' \<and> (\<exists>c. q = (root @ cs) @ [c])" if "(q, n') \<in> set ks" for q n'
      using that kept children_entries [of q n' fs1 "root @ cs"]
      by (auto simp: ks_def split: if_splits)
    have par: "sorted_wrt parallel (map fst ks)"
      by (simp add: ks_def children_parallel)
    have cover: "covered ks q"
      if "node_at A q \<noteq> None" "prefix (root @ cs) q" "q \<noteq> root @ cs" for q
      using children_cover [OF tree that kept] no_children [OF tree nd _ that(1,2)] that(3)
      by (auto simp: ks_def)
    note next' = walk_state_step [OF Suc.prems(2) st step cs new par cover]
    have "card (pending A (ks @ rest)) \<le> n"
      using next'(2,3) Suc.prems(5) Cons x p by simp
    from Suc.IH [of "w\<lparr>w_fs := fs1\<rparr>" "ks @ rest"] this next'(1) Suc.prems(1-3)
    obtain fs' where "copy_walk n src root dst (ks @ rest) (w\<lparr>w_fs := fs1\<rparr>) = (Inr (), w\<lparr>w_fs := fs'\<rparr>)"
      and "walk_state A root d [] fs'"
      by auto
    moreover have "nd = Dir \<Longrightarrow> node_at fs1 (root @ cs) = Some Dir"
      using kept nd by simp
    ultimately show ?thesis
      using Cons x p run Suc.prems(3)
      by (auto simp: ks_def read_dir_def split: if_splits)
  qed
qed

lemma walk_state_start:
  assumes "trees_ok A root d" and "empty_below A d"
  shows "walk_state A root d (children A root) A"
    and "card (pending A (children A root)) \<le> length A"
proof -
  have tree: "tree_ok A root"
    using assms(1) by (simp add: trees_ok_def)
  have cover: "covered (children A root) (root @ cs)"
    if "cs \<noteq> []" "node_at A (root @ cs) \<noteq> None" for cs
    using children_cover [OF tree that(2), of "[]" A] that(1) by simp
  have "node_at A (d @ cs) =
      (if covered (children A root) (root @ cs) then None else copied (node_at A (root @ cs)))"
    if "cs \<noteq> []" for cs
    using empty_below_None [OF assms(2) that] cover [OF that]
    by (cases "node_at A (root @ cs)") auto
  moreover have "node_at A p = Some n \<and> (\<exists>cs. p = root @ cs \<and> cs \<noteq> [])"
    if "(p, n) \<in> set (children A root)" for p n
    using children_entries [OF that] by blast
  ultimately show "walk_state A root d (children A root) A"
    unfolding walk_state_def using children_parallel [of A root] by (auto simp del: append_is_Nil_conv)
  have "pending A (children A root) \<subseteq> fst ` set A"
  proof
    fix q
    assume "q \<in> pending A (children A root)"
    then obtain p n nd where q: "(p, n) \<in> set (children A root)" "prefix p q" "node_at A q = Some nd"
      by (auto simp: pending_def covered_def)
    then have "q \<noteq> []"
      using children_entries [OF q(1)] by (auto simp: prefix_def)
    with node_at_in [OF q(3)] show "q \<in> fst ` set A"
      by force
  qed
  then have "card (pending A (children A root)) \<le> card (fst ` set A)"
    by (intro card_mono) simp_all
  also have "\<dots> \<le> length A"
    by (metis card_length length_map set_map)
  finally show "card (pending A (children A root)) \<le> length A" .
qed

lemma copy_tree_complete:
  assumes "copy_places (w_cwd w) src root dst d" and "trees_ok (w_fs w) root d"
    and "empty_below (w_fs w) d" and "w_faults w = []" and "length (w_fs w) < n"
  shows "\<exists>fs'. copy_tree n src dst w = (Inr (), w\<lparr>w_fs := fs'\<rparr>) \<and> walk_state (w_fs w) root d [] fs'"
proof -
  let ?A = "w_fs w"
  obtain n' where n: "n = Suc n'"
    using assms(5) by (cases n) simp_all
  have rd: "node_at ?A root = Some Dir" and dd: "dir_path ?A d"
    using assms(2) by (simp_all add: trees_ok_def tree_ok_def)
  have "abs_comps (w_cwd w) src = Some root"
    using assms(1) by (simp add: copy_places_def)
  moreover have "copy_node src root dst root Dir w = (Inr (), w)"
    using copy_node_eq [OF assms(1), of "[]" Dir] make_dirs_present [of ?A "[]" d] dd assms(4)
    by (simp add: lift_copy_def mkdir_all_def)
  moreover obtain fs' where "copy_walk n' src root dst (children ?A root) w = (Inr (), w\<lparr>w_fs := fs'\<rparr>)"
    and "walk_state ?A root d [] fs'"
    using copy_walk_complete [OF assms(1,2,4) walk_state_start(1) [OF assms(2,3)], of n']
      walk_state_start(2) [OF assms(2,3)] assms(5) n by auto
  ultimately show ?thesis
    using rd assms(4) n
    by (auto simp: copy_tree_def copy_tree_at_def os_lstat_def read_dir_def intro!: exI [of _ fs'])
qed

section \<open>The NFS fetcher\<close>

text \<open>C17.  \<open>nfsFetcher\<close> copies a directory of the share completely: with a free destination and
  neither tree inside the other, the walk ends after at most one step per node of the file system,
  every file arrives with its bytes and a mode of at most \<open>0o640\<close>, every directory and link arrives,
  nothing else appears below the destination and nothing outside it changes.\<close>

theorem nfs_fetch_copies_tree:
  assumes "cwd_ok (w_cwd w)" and "dest \<noteq> []" and "rq_mount_source req \<noteq> []"
    and "abs_comps (w_cwd w) (rq_mount_source req) = Some mount"
    and "abs_comps (w_cwd w) (path_join (rq_mount_source req) (rq_subpath req)) = Some root"
    and "prefix mount root" and "abs_comps (w_cwd w) dest = Some d"
    and "trees_ok (w_fs w) root d" and "empty_below (w_fs w) d" and "w_faults w = []"
    and "length (w_fs w) < n"
  shows "\<exists>w'. nfs_fetch n req dest w = (Inr [], w') \<and>
    (\<forall>cs. cs \<noteq> [] \<longrightarrow> node_at (w_fs w') (d @ cs) = copied (node_at (w_fs w) (root @ cs))) \<and>
    (\<forall>q. \<not> strict_prefix d q \<longrightarrow> node_at (w_fs w') q = node_at (w_fs w) q)"
proof -
  let ?src = "path_join (rq_mount_source req) (rq_subpath req)"
  have src: "?src \<noteq> []" "clean ?src = ?src"
    using assms(3) path_join_clean by simp_all
  have guard: "under_root (w_cwd w) (rq_mount_source req) ?src"
    using under_root_prefix [OF assms(1)] assms(4-6) by blast
  have dir: "node_at (w_fs w) root = Some Dir"
    using assms(8) by (simp add: trees_ok_def tree_ok_def)
  have "with_path ?src os_stat w = (Inr Dir, w)"
    using src assms(5,10) dir resolve_plain [of "w_fs w" root] by (simp add: with_path_def os_stat_def)
  moreover have "copy_places (w_cwd w) ?src root dest d"
    using src assms(1,2,5,7) by (simp add: copy_places_def)
  then obtain fs' where "copy_tree n ?src dest w = (Inr (), w\<lparr>w_fs := fs'\<rparr>)"
    and "walk_state (w_fs w) root d [] fs'"
    using copy_tree_complete [OF _ assms(8-11)] by blast
  ultimately show ?thesis
    using guard by (auto simp: nfs_fetch_def Let_def walk_state_def covered_def)
qed

definition ex_share :: world where
  "ex_share = \<lparr>w_fs =
       [([''mnt''], Dir), ([''mnt'', ''m''], Dir), ([''mnt'', ''m'', ''w.bin''], File 511 ''bytes''),
        ([''mnt'', ''m'', ''cfg''], Dir), ([''mnt'', ''m'', ''cfg'', ''a''], Link ''../w.bin''),
        ([''models''], Dir), ([''models'', ''x''], Dir)],
     w_faults = [], w_cwd = Some ''/'', w_rand = 0\<rparr>"

definition ex_nfs :: "string \<Rightarrow> fetch_request" where
  "ex_nfs sub = \<lparr>rq_source = ''nfs'', rq_model_id = ''m'', rq_dest = [], rq_patterns = [],
     rq_mount_source = ''/mnt'', rq_subpath = sub\<rparr>"

theorem nfs_fetch_copies_tree_witness:
  "\<exists>w'. nfs_fetch 8 (ex_nfs ''m'') ''/models/x'' ex_share = (Inr [], w') \<and>
    (\<forall>cs. cs \<noteq> [] \<longrightarrow>
       node_at (w_fs w') ([''models'', ''x''] @ cs) = copied (node_at (w_fs ex_share) ([''mnt'', ''m''] @ cs))) \<and>
    (\<forall>q. \<not> strict_prefix [''models'', ''x''] q \<longrightarrow> node_at (w_fs w') q = node_at (w_fs ex_share) q)"
proof (rule nfs_fetch_copies_tree [where mount = "[''mnt'']"])
  show "abs_comps (w_cwd ex_share) (rq_mount_source (ex_nfs ''m'')) = Some [''mnt'']"
    unfolding ex_share_def ex_nfs_def by code_simp
  show "abs_comps (w_cwd ex_share) (path_join (rq_mount_source (ex_nfs ''m'')) (rq_subpath (ex_nfs ''m''))) =
    Some [''mnt'', ''m'']"
    unfolding ex_share_def ex_nfs_def by code_simp
  show "abs_comps (w_cwd ex_share) ''/models/x'' = Some [''models'', ''x'']"
    unfolding ex_share_def by code_simp
  show "trees_ok (w_fs ex_share) [''mnt'', ''m''] [''models'', ''x'']"
    by (simp add: trees_ok_def tree_ok_def dir_path_def ex_share_def node_at_def parallel_def
        normal_comp_def)
qed (simp_all add: ex_share_def ex_nfs_def cwd_ok_def is_abs_def empty_below_def strict_prefix_def)

section \<open>The guard\<close>

lemma copy_node_error: "copy_node src root dst p nd w = (Inl e, w') \<Longrightarrow> e \<noteq> SubpathEscapes"
  by (auto simp: copy_node_def Let_def lift_copy_def split: option.splits node.splits prod.splits
      sum.splits)

lemma copy_walk_error: "copy_walk n src root dst todo w = (Inl e, w') \<Longrightarrow> e \<noteq> SubpathEscapes"
proof (induction n src root dst todo w rule: copy_walk.induct)
  case (3 n src root dst p nd todo w)
  obtain r1 w1 where c: "copy_node src root dst p nd w = (r1, w1)" by force
  show ?case
  proof (cases r1)
    case (Inl e1)
    with 3(3) c copy_node_error show ?thesis
      by auto
  next
    case (Inr u)
    obtain r2 w2 where "read_dir p w1 = (r2, w2)" by force
    then show ?thesis
      using 3 c Inr by (cases "nd = Dir"; cases r2) auto
  qed
qed simp_all

text \<open>C29.  The traversal guard of \<open>nfsFetcher\<close> is exact: a request is refused as escaping its mount
  precisely when the mount's components are not a prefix of the source's, and then nothing is read
  or written.\<close>

theorem nfs_guard_exact:
  assumes "cwd_ok (w_cwd w)"
  shows "(fst (nfs_fetch n req dest w) = Inl SubpathEscapes \<longleftrightarrow>
      \<not> (\<exists>mount root. abs_comps (w_cwd w) (rq_mount_source req) = Some mount \<and>
           abs_comps (w_cwd w) (path_join (rq_mount_source req) (rq_subpath req)) = Some root \<and>
           prefix mount root)) \<and>
    (fst (nfs_fetch n req dest w) = Inl SubpathEscapes \<longrightarrow> snd (nfs_fetch n req dest w) = w)"
proof -
  let ?src = "path_join (rq_mount_source req) (rq_subpath req)"
  have err: "e \<noteq> SubpathEscapes" if "copy_tree n ?src dest u = (Inl e, u')" for e u u'
    using that copy_walk_error
    by (auto simp: copy_tree_def copy_tree_at_def split: option.splits prod.splits sum.splits)
  have "fst (nfs_fetch n req dest w) = Inl SubpathEscapes \<longleftrightarrow>
      \<not> under_root (w_cwd w) (rq_mount_source req) ?src"
    using err by (auto simp: nfs_fetch_def Let_def split: prod.split sum.split node.split)
  then show ?thesis
    using under_root_prefix [OF assms] by (simp add: nfs_fetch_def Let_def)
qed

theorem nfs_guard_exact_witness:
  "fst (nfs_fetch 8 (ex_nfs ''../etc'') ''/models/x'' ex_share) = Inl SubpathEscapes"
proof -
  have "abs_comps (w_cwd ex_share) (rq_mount_source (ex_nfs ''../etc'')) = Some [''mnt'']"
    and "abs_comps (w_cwd ex_share)
      (path_join (rq_mount_source (ex_nfs ''../etc'')) (rq_subpath (ex_nfs ''../etc''))) = Some [''etc'']"
    unfolding ex_share_def ex_nfs_def by code_simp+
  moreover have "cwd_ok (w_cwd ex_share)"
    by (simp add: ex_share_def cwd_ok_def is_abs_def)
  ultimately show ?thesis
    using nfs_guard_exact [of ex_share 8 "ex_nfs ''../etc''" "''/models/x''"] by simp
qed

section \<open>Links in the share\<close>

lemma os_stat_at:
  assumes "w_faults w = []" and "src \<noteq> []" and "abs_comps (w_cwd w) src = Some p"
    and "resolve max_links (w_fs w) p = Inr q"
  shows "with_path src os_stat w = (case node_at (w_fs w) q of None \<Rightarrow> Inl ENOENT | Some nd \<Rightarrow> Inr nd, w)"
  using assms by (simp add: with_path_at os_stat_def split: option.split)

text \<open>C30.  The guard of \<open>nfsFetcher\<close> compares names only.  A source inside the mount that is a link passes
  it wherever the link leads: a file outside the mount is copied and reported as the model's, and a link
  to a directory gives success with nothing copied, because \<open>os.Stat\<close> follows the link and
  \<open>filepath.WalkDir\<close> does not.\<close>

theorem nfs_fetch_through_link:
  assumes "cwd_ok (w_cwd w)" and "w_faults w = []" and "dest \<noteq> []" and "rq_mount_source req \<noteq> []"
    and guard: "under_root (w_cwd w) (rq_mount_source req) (path_join (rq_mount_source req) (rq_subpath req))"
    and src: "abs_comps (w_cwd w) (path_join (rq_mount_source req) (rq_subpath req)) = Some p"
    and name: "path_base (path_join (rq_mount_source req) (rq_subpath req)) = b" "normal_comp b"
    and link: "node_at (w_fs w) p = Some (Link t)" "resolve max_links (w_fs w) p = Inr q"
    and dest: "abs_comps (w_cwd w) dest = Some d" "dir_path (w_fs w) d" "node_at (w_fs w) (d @ [b]) = None"
  shows "case node_at (w_fs w) q of
      None \<Rightarrow> nfs_fetch n req dest w = (Inl (SourceStat ENOENT), w)
    | Some Dir \<Rightarrow> nfs_fetch (Suc n) req dest w = (Inr [], w)
    | Some (File m s) \<Rightarrow> \<exists>w'. nfs_fetch n req dest w = (Inr [b], w') \<and>
        node_at (w_fs w') (d @ [b]) = Some (File (copy_mode m) s)
    | Some _ \<Rightarrow> True"
proof -
  let ?src = "path_join (rq_mount_source req) (rq_subpath req)"
  have ne: "?src \<noteq> []"
    using assms(4) by simp
  note st = os_stat_at [OF assms(2) ne src link(2)]
  show ?thesis
  proof (cases "node_at (w_fs w) q")
    case None
    then show ?thesis
      using guard st by (simp add: nfs_fetch_def Let_def)
  next
    case (Some nd)
    show ?thesis
    proof (cases nd)
      case Dir
      have places: "copy_places (w_cwd w) ?src p dest d"
        using assms(1,3) ne src dest(1) path_join_clean by (simp add: copy_places_def)
      have "copy_link p d w = (Inr (), w)"
        using assms(2) link(1) dest(2) by (simp add: copy_link_def and_then_def os_readlink_def os_lstat_def dir_path_iff)
      then have "copy_node ?src p dest p (Link t) w = (Inr (), w)"
        using copy_node_eq [OF places, of "[]"] by (simp add: lift_copy_def normal_comps_def)
      then have "copy_tree (Suc n) ?src dest w = (Inr (), w)"
        using assms(2) src link(1) by (simp add: copy_tree_def copy_tree_at_def os_lstat_def)
      then show ?thesis
        using Some Dir guard st by (simp add: nfs_fetch_def Let_def)
    next
      case (File m s)
      have "abs_comps (w_cwd w) (path_join dest b) = Some (d @ [b])"
        by (rule abs_comps_join_name [OF assms(1,3) dest(1) name(2)])
      then show ?thesis
        using Some File guard st src ne dest name assms(3) copy_file_eq [OF assms(2) link(2), of m s "d @ [b]"]
        by (simp add: nfs_fetch_def Let_def with_path_at node_at_set)
    qed (use Some in simp_all)
  qed
qed

definition linked_share :: "node \<Rightarrow> world" where
  "linked_share secret = ex_share\<lparr>w_fs :=
     [([''mnt''], Dir), ([''mnt'', ''m''], Link ''/etc/s''), ([''etc''], Dir), ([''etc'', ''s''], secret),
      ([''models''], Dir), ([''models'', ''x''], Dir)]\<rparr>"

theorem nfs_fetch_through_link_witness:
  "(\<exists>w'. nfs_fetch 8 (ex_nfs ''m'') ''/models/x'' (linked_share (File 384 ''key'')) = (Inr [''m''], w') \<and>
      node_at (w_fs w') [''models'', ''x'', ''m''] = Some (File (copy_mode 384) ''key'')) \<and>
    nfs_fetch 8 (ex_nfs ''m'') ''/models/x'' (linked_share Dir) = (Inr [], linked_share Dir)"
proof -
  have t: "link_target [''mnt'', ''m''] ''/etc/s'' = [''etc'', ''s'']"
    and b: "path_base (path_join ''/mnt'' ''m'') = ''m''"
    and s: "abs_comps (Some ''/'') (path_join ''/mnt'' ''m'') = Some [''mnt'', ''m'']"
      "under_root (Some ''/'') ''/mnt'' (path_join ''/mnt'' ''m'')"
    and d: "abs_comps (Some ''/'') ''/models/x'' = Some [''models'', ''x'']"
    by code_simp+
  have r: "resolve max_links (w_fs (linked_share nd)) [''mnt'', ''m''] = Inr [''etc'', ''s'']"
    and q: "node_at (w_fs (linked_share nd)) [''etc'', ''s''] = Some nd"
    and w: "cwd_ok (w_cwd (linked_share nd))" "w_faults (linked_share nd) = []" "w_cwd (linked_share nd) = Some ''/''"
      "node_at (w_fs (linked_share nd)) [''mnt'', ''m''] = Some (Link ''/etc/s'')"
      "dir_path (w_fs (linked_share nd)) [''models'', ''x'']"
      "node_at (w_fs (linked_share nd)) [''models'', ''x'', ''m''] = None"
    if "nd \<in> {Dir, File 384 ''key''}" for nd
    using that t by (auto simp: linked_share_def ex_share_def node_at_def dir_path_def cwd_ok_def is_abs_def
        max_links_def resolve.simps eval_nat_numeral)
  note through = nfs_fetch_through_link [where req = "ex_nfs ''m''" and dest = "''/models/x''" and b = "''m''"
      and p = "[''mnt'', ''m'']" and q = "[''etc'', ''s'']" and d = "[''models'', ''x'']"]
  show ?thesis
    using through [where n = 8, OF w(1,2) _ _ _ _ _ _ w(4) r _ w(5)] through [where n = 7, OF w(1,2) _ _ _ _ _ _ w(4) r _ w(5)]
      w q b s d by (fastforce simp: ex_nfs_def normal_comp_def)
qed

section \<open>Source and destination that overlap\<close>

lemma copy_file_self:
  assumes "w_faults w = []" and "node_at (w_fs w) p = Some (File m s)"
    and "dir_path (w_fs w) (butlast p)" and "p \<noteq> []"
  shows "\<exists>w'. copy_file p p w = (Inr (), w') \<and> node_at (w_fs w') p = Some (File m [])"
proof -
  have mk: "mkdir_all (butlast p) w = (Inr (), w)"
    using make_dirs_present [of "w_fs w" "[]"] assms(1,3) by (simp add: mkdir_all_def)
  have rp: "resolve max_links (w_fs w) p = Inr p"
    using assms(2) by (intro resolve_plain) simp
  show ?thesis
    using assms rp
    by (simp add: copy_file_def and_then_def mk open_read_def file_stat_def open_trunc_def
        copy_data_def Let_def close_file_def file_mode_def file_data_def gomap_simps)
qed

text \<open>C31.  A single file fetched into the directory it lies in destroys the share's copy:
  \<open>copyFile\<close> opens the same file for writing, which empties it before a byte is read, and reports
  success.\<close>

theorem nfs_fetch_onto_itself:
  assumes "cwd_ok (w_cwd w)" and "dest \<noteq> []" and "rq_mount_source req \<noteq> []"
    and "abs_comps (w_cwd w) (rq_mount_source req) = Some d" and "abs_comps (w_cwd w) dest = Some d"
    and "normal_comp (rq_subpath req)"
    and "path_base (path_join (rq_mount_source req) (rq_subpath req)) = rq_subpath req"
    and "node_at (w_fs w) (d @ [rq_subpath req]) = Some (File m s)" and "dir_path (w_fs w) d"
    and "w_faults w = []"
  shows "\<exists>w'. nfs_fetch n req dest w = (Inr [rq_subpath req], w') \<and>
    node_at (w_fs w') (d @ [rq_subpath req]) = Some (File m [])"
proof -
  let ?src = "path_join (rq_mount_source req) (rq_subpath req)" and ?p = "d @ [rq_subpath req]"
  have src: "abs_comps (w_cwd w) ?src = Some ?p"
    using abs_comps_join_name [OF assms(1,3,4,6)] .
  have dst: "abs_comps (w_cwd w) (path_join dest (path_base ?src)) = Some ?p"
    using abs_comps_join_name [OF assms(1,2,5,6)] assms(7) by simp
  have guard: "under_root (w_cwd w) (rq_mount_source req) ?src"
    using under_root_prefix [OF assms(1)] assms(4) src by simp
  have st: "with_path ?src os_stat w = (Inr (File m s), w)"
    using src assms(3,8,10) resolve_plain [of "w_fs w" ?p] by (simp add: with_path_def os_stat_def)
  obtain w' where "copy_file ?p ?p w = (Inr (), w')" and "node_at (w_fs w') ?p = Some (File m [])"
    using copy_file_self [OF assms(10,8)] assms(9) by auto
  then show ?thesis
    using guard st src dst assms(2,3,7) by (simp add: nfs_fetch_def Let_def with_path_def)
qed

theorem nfs_fetch_onto_itself_witness:
  "\<exists>w'. nfs_fetch 8 (ex_nfs ''m.bin'') ''/mnt''
      (ex_share\<lparr>w_fs := [([''mnt''], Dir), ([''mnt'', ''m.bin''], File 420 ''weights'')]\<rparr>) =
      (Inr [''m.bin''], w') \<and>
    node_at (w_fs w') [''mnt'', ''m.bin''] = Some (File 420 [])"
proof -
  let ?w = "ex_share\<lparr>w_fs := [([''mnt''], Dir), ([''mnt'', ''m.bin''], File 420 ''weights'')]\<rparr>"
  have d: "abs_comps (w_cwd ?w) ''/mnt'' = Some [''mnt'']"
    unfolding ex_share_def by code_simp
  have b: "path_base (path_join ''/mnt'' ''m.bin'') = ''m.bin''"
    by code_simp
  show ?thesis
    using nfs_fetch_onto_itself [of ?w "''/mnt''" "ex_nfs ''m.bin''" "[''mnt'']" 420 "''weights''" 8]
      d b
    by (simp add: ex_share_def ex_nfs_def cwd_ok_def is_abs_def normal_comp_def node_at_def dir_path_def)
qed

text \<open>A directory whose only content is a chain of directories of one name, \<open>k\<close> deep.\<close>

definition chain :: "filesys \<Rightarrow> comps \<Rightarrow> string \<Rightarrow> nat \<Rightarrow> bool" where
  "chain fs root z k \<longleftrightarrow>
     (\<forall>cs. node_at fs (root @ cs) = (if \<exists>j \<le> k. cs = replicate j z then Some Dir else None))"

lemma chain_dir: "chain fs root z k \<Longrightarrow> j \<le> k \<Longrightarrow> node_at fs (root @ replicate j z) = Some Dir"
  by (auto simp: chain_def)

lemma prefix_replicate: "prefix cs (replicate j z) \<Longrightarrow> \<exists>i \<le> j. cs = replicate i z"
  by (metis length_replicate min.absorb2 min.cobounded1 prefix_length_le take_replicate
      append_eq_conv_conj prefixE)

lemma chain_dir_path:
  assumes "dir_path fs root" and "chain fs root z k" and "j \<le> k"
  shows "dir_path fs (root @ replicate j z)"
  unfolding dir_path_iff
proof (intro allI impI)
  fix q
  assume q: "prefix q (root @ replicate j z)"
  show "node_at fs q = Some Dir"
  proof (cases "prefix q root")
    case True
    with assms(1) show ?thesis
      by (simp add: dir_path_iff)
  next
    case False
    then obtain cs where cs: "q = root @ cs" "prefix cs (replicate j z)"
      using q by (auto simp: prefix_append)
    obtain i where "i \<le> j" "cs = replicate i z"
      using prefix_replicate [OF cs(2)] by blast
    then show ?thesis
      using chain_dir [OF assms(2), of i] assms(3) cs(1) by simp
  qed
qed

lemma chain_step:
  assumes "chain fs root z k" and "fs_step fs (root @ replicate (Suc k) z) (Some Dir) fs'"
  shows "chain fs' root z (Suc k)"
  unfolding chain_def
proof
  fix cs
  show "node_at fs' (root @ cs) = (if \<exists>j \<le> Suc k. cs = replicate j z then Some Dir else None)"
  proof (cases "cs = replicate (Suc k) z")
    case True
    then show ?thesis
      using assms(2) by (auto simp: fs_step_def)
  next
    case False
    then have "node_at fs' (root @ cs) = node_at fs (root @ cs)"
      using assms(2) by (simp add: fs_step_def)
    then show ?thesis
      using assms(1) False by (auto simp: chain_def le_Suc_eq)
  qed
qed

lemma distinct_singleton: "distinct xs \<Longrightarrow> set xs = {x} \<Longrightarrow> xs = [x]"
  by (cases xs; cases "tl xs") auto

lemma chain_child_names:
  assumes "chain fs root z m" and "Suc j \<le> m" and "normal_comp z"
  shows "child_names fs (root @ replicate j z) = [root @ replicate (Suc j) z]"
proof -
  let ?x = "root @ replicate (Suc j) z"
  have "q \<in> set (child_names fs (root @ replicate j z)) \<longleftrightarrow> q = ?x" for q
  proof
    assume "q \<in> set (child_names fs (root @ replicate j z))"
    then obtain c where q: "q = root @ (replicate j z @ [c])" and "node_at fs q \<noteq> None"
      by (auto simp: child_names_iff)
    then obtain i where "replicate j z @ [c] = replicate i z"
      using assms(1) by (auto simp: chain_def split: if_splits)
    then have "c \<in> set (replicate i z)"
      by (metis in_set_conv_decomp)
    then have "c = z"
      by simp
    with q show "q = ?x"
      by (simp add: replicate_append_same)
  next
    assume "q = ?x"
    then have q: "q = (root @ replicate j z) @ [z]" and "node_at fs q = Some Dir"
      using chain_dir [OF assms(1,2)] by (simp_all add: replicate_append_same)
    then show "q \<in> set (child_names fs (root @ replicate j z))"
      unfolding child_names_iff using assms(3) by blast
  qed
  then have "set (child_names fs (root @ replicate j z)) = {?x}"
    by blast
  moreover have "distinct (child_names fs (root @ replicate j z))"
    by (simp add: child_names_def)
  ultimately show ?thesis
    by (rule distinct_singleton [rotated])
qed

text \<open>Every step of the walk makes the directory that the next step visits.\<close>

lemma copy_walk_chain:
  assumes "copy_places (w_cwd w) src root dst (root @ [z])" and "normal_comp z"
    and "w_faults w = []" and "dir_path (w_fs w) root" and "chain (w_fs w) root z (max 1 k)"
  shows "fst (copy_walk n src root dst [(root @ replicate k z, Dir)] w) = Inl OutOfFuel"
  using assms
proof (induction n arbitrary: k w)
  case (Suc n)
  let ?x = "root @ replicate (Suc k) z"
  have x: "(root @ [z]) @ replicate k z = ?x" and nc: "normal_comps (replicate k z)"
    using Suc.prems(2) by (simp_all add: normal_comps_def)
  have "\<exists>fs'. mkdir_all ?x w = (Inr (), w\<lparr>w_fs := fs'\<rparr>) \<and> chain fs' root z (Suc k) \<and> dir_path fs' root"
  proof (cases k)
    case 0
    then have "dir_path (w_fs w) ?x"
      using chain_dir_path [OF Suc.prems(4,5), of 1] by simp
    then show ?thesis
      using make_dirs_present [of "w_fs w" "[]" ?x] Suc.prems(3-5) 0
      by (auto simp: mkdir_all_def intro!: exI [of _ "w_fs w"])
  next
    case (Suc k')
    then have ch: "chain (w_fs w) root z k"
      using Suc.prems(5) by (simp add: max_def)
    have "dir_path (w_fs w) (butlast ?x)"
    proof -
      have "?x = (root @ replicate k z) @ [z]"
        by (simp add: replicate_append_same)
      then show ?thesis
        using chain_dir_path [OF Suc.prems(4) ch, of k] by (metis butlast_snoc le_refl)
    qed
    moreover have "node_at (w_fs w) ?x = None"
      using ch by (auto simp: chain_def simp del: replicate_Suc)
    moreover have "?x \<noteq> []"
      by simp
    ultimately have "mkdir_all ?x w = (Inr (), w\<lparr>w_fs := gm_set ?x Dir (w_fs w)\<rparr>)"
      using mkdir_new_eq [OF Suc.prems(3)] by blast
    moreover have "chain (gm_set ?x Dir (w_fs w)) root z (Suc k)"
      using ch by (rule chain_step) (rule fs_step_set(1), simp)
    moreover have "dir_path (gm_set ?x Dir (w_fs w)) root"
      using Suc.prems(4) by (auto simp: dir_path_iff node_at_set)
    ultimately show ?thesis
      by blast
  qed
  then obtain fs' where mk: "mkdir_all ?x w = (Inr (), w\<lparr>w_fs := fs'\<rparr>)"
    and ch: "chain fs' root z (Suc k)" and dp: "dir_path fs' root"
    by blast
  let ?w = "w\<lparr>w_fs := fs'\<rparr>"
  have node: "copy_node src root dst (root @ replicate k z) Dir w = (Inr (), ?w)"
    using mk x by (simp add: copy_node_eq [OF Suc.prems(1) nc] lift_copy_def del: replicate_Suc)
  have "children fs' (root @ replicate k z) = [(?x, Dir)]"
    using chain_child_names [OF ch _ Suc.prems(2), of k] chain_dir [OF ch, of "Suc k"]
    by (simp add: children_def del: replicate_Suc)
  moreover have "node_at fs' (root @ replicate k z) = Some Dir"
    using chain_dir [OF ch, of k] by simp
  ultimately have rd: "read_dir (root @ replicate k z) ?w = (Inr [(?x, Dir)], ?w)"
    using Suc.prems(3) by (simp add: read_dir_def del: replicate_Suc)
  have "fst (copy_walk n src root dst [(?x, Dir)] ?w) = Inl OutOfFuel"
    using Suc.prems(1-3) dp ch by (intro Suc.IH) (simp_all add: max_def del: replicate_Suc)
  with node rd show ?case
    by (simp del: replicate_Suc)
qed simp

text \<open>However much fuel it has, a fetch of an empty tree into a directory of it uses it up: the walk reads
  each directory after copying into it.\<close>

lemma nfs_fetch_unending:
  assumes "cwd_ok (w_cwd w)" and "dest \<noteq> []" and "rq_mount_source req \<noteq> []"
    and "abs_comps (w_cwd w) (rq_mount_source req) = Some mount"
    and "abs_comps (w_cwd w) (path_join (rq_mount_source req) (rq_subpath req)) = Some root"
    and "prefix mount root" and "abs_comps (w_cwd w) dest = Some (root @ [z])" and "normal_comp z"
    and "dir_path (w_fs w) root" and "chain (w_fs w) root z 1" and "w_faults w = []"
  shows "fst (nfs_fetch n req dest w) = Inl OutOfFuel"
proof -
  let ?src = "path_join (rq_mount_source req) (rq_subpath req)"
  have src: "?src \<noteq> []" "clean ?src = ?src"
    using assms(3) path_join_clean by simp_all
  have guard: "under_root (w_cwd w) (rq_mount_source req) ?src"
    using under_root_prefix [OF assms(1)] assms(4-6) by blast
  have dir: "node_at (w_fs w) root = Some Dir"
    using assms(9) by (simp add: dir_path_iff)
  have st: "with_path ?src os_stat w = (Inr Dir, w)"
    using src assms(5,11) dir resolve_plain [of "w_fs w" root] by (simp add: with_path_def os_stat_def)
  have "copy_places (w_cwd w) ?src root dest (root @ [z])"
    using src assms(1,2,5,7) by (simp add: copy_places_def)
  then have "fst (copy_walk n ?src root dest [(root, Dir)] w) = Inl OutOfFuel"
    using copy_walk_chain [of w ?src root dest z 0 n] assms(8-11) by simp
  then have "fst (copy_tree n ?src dest w) = Inl OutOfFuel"
    using assms(5,11) dir by (simp add: copy_tree_def copy_tree_at_def os_lstat_def)
  then show ?thesis
    using guard st by (cases "copy_tree n ?src dest w") (auto simp: nfs_fetch_def Let_def)
qed

text \<open>The calls of the copy leave the working directory alone, links or not.\<close>

lemma and_then_cwd:
  assumes "and_then m k w = (r, w')"
    and "\<And>r u. m w = (r, u) \<Longrightarrow> w_cwd u = w_cwd w"
    and "\<And>x u r v. k x u = (r, v) \<Longrightarrow> w_cwd v = w_cwd u"
  shows "w_cwd w' = w_cwd w"
  using assms by (fastforce simp: and_then_def split: prod.splits sum.splits)

lemma writes_cwd:
  "open_trunc x m w = (r1, w') \<Longrightarrow> w_cwd w' = w_cwd w"
  "copy_data q x w = (r2, w') \<Longrightarrow> w_cwd w' = w_cwd w"
  "os_symlink t x w = (r3, w') \<Longrightarrow> w_cwd w' = w_cwd w"
  by (auto simp: open_trunc_def copy_data_def os_symlink_def Let_def
      split: prod.splits option.splits sum.splits node.splits if_splits)

lemmas reads_cwd = read_only_frames [THEN safe_write_changes, THEN changes_only_cwd]

lemma copy_file_cwd: "copy_file p x w = (r, w') \<Longrightarrow> w_cwd w' = w_cwd w"
  unfolding copy_file_def
  by (rule and_then_cwd, assumption, erule mkdir_all_cwd, erule and_then_cwd, erule reads_cwd,
      erule and_then_cwd, erule reads_cwd, erule and_then_cwd, erule writes_cwd, erule and_then_cwd,
      erule writes_cwd, erule reads_cwd)

lemma copy_link_cwd: "copy_link p x w = (r, w') \<Longrightarrow> w_cwd w' = w_cwd w"
  unfolding copy_link_def
  by (rule and_then_cwd, assumption, erule reads_cwd)
    (auto split: prod.splits sum.splits dest!: reads_cwd(2) writes_cwd(3))

lemma copy_node_cwd:
  assumes "copy_node src root dst (root @ cs) nd w = (r, w')"
    and "copy_places (w_cwd w) src root dst d" and "normal_comps cs"
  shows "w_cwd w' = w_cwd w"
  using assms(1) mkdir_all_cwd copy_file_cwd copy_link_cwd unfolding copy_node_eq [OF assms(2,3)]
  by (cases nd) (fastforce dest: lift_copy_world)+

text \<open>The directories of the source that repeat the destination's place in it: copying one makes the
  next, and the walk finds it.\<close>

definition repeats :: "comps \<Rightarrow> comps \<Rightarrow> bool" where
  "repeats ds cs \<longleftrightarrow> normal_comps cs \<and> prefix cs (ds @ cs)"

lemma repeats_next:
  assumes "repeats ds cs" and "normal_comps ds" and "ds \<noteq> []"
  obtains c where "repeats ds (cs @ [c])" and "prefix (cs @ [c]) (ds @ cs)"
proof -
  obtain zs where zs: "ds @ cs = cs @ zs"
    using assms(1) by (auto simp: repeats_def prefix_def)
  then have "zs \<noteq> []"
    using assms(3) by (metis append_Nil2 append_self_conv2)
  then obtain c zs' where c: "zs = c # zs'"
    by (cases zs) auto
  then have *: "prefix (cs @ [c]) (ds @ cs)"
    using zs by simp
  have "c \<in> set (ds @ cs)"
    using zs c by simp
  then have "normal_comp c"
    using assms(1,2) by (auto simp: repeats_def normal_comps_def)
  then have "repeats ds (cs @ [c])"
    using assms(1) * by (simp add: repeats_def prefix_order.order_trans [OF *])
  then show ?thesis
    using * by (rule that)
qed

lemma copy_dir_made:
  assumes "copy_node src root dst (root @ cs) Dir w = (Inr u, w')"
    and "copy_places (w_cwd w) src root dst d" and "normal_comps cs"
  shows "dir_path (w_fs w') (d @ cs)"
  using assms(1) mkdir_all_ready(1) [of "d @ cs" w w'] unfolding copy_node_eq [OF assms(2,3)]
  by (auto simp: lift_copy_def split: prod.splits sum.splits)

lemma copy_walk_repeats:
  assumes "copy_places (w_cwd w) src root dst (root @ ds)" and "normal_comps ds" and "ds \<noteq> []"
    and "(root @ cs, Dir) \<in> set todo" and "repeats ds cs"
    and "\<forall>(p, nd) \<in> set todo. \<exists>xs. p = root @ xs \<and> normal_comps xs"
  shows "\<exists>e. fst (copy_walk n src root dst todo w) = Inl e"
  using assms(1,4-6)
proof (induction n src root dst todo w arbitrary: cs rule: copy_walk.induct)
  case (3 n src root dst p nd todo w)
  obtain xs where p: "p = root @ xs" "normal_comps xs"
    using "3.prems"(4) by auto
  obtain r w1 where r: "copy_node src root dst p nd w = (r, w1)"
    by force
  show ?case
  proof (cases r)
    case (Inr u)
    have places: "copy_places (w_cwd w1) src root dst (root @ ds)"
      using copy_node_cwd [OF r [unfolded p(1)] "3.prems"(1) p(2)] "3.prems"(1) by simp
    show ?thesis
    proof (cases "nd = Dir")
      case False
      then show ?thesis
        using "3.IH"(2) [OF r [symmetric] Inr False places, of cs] "3.prems" r Inr by auto
    next
      case True
      obtain r2 w2 where r2: "read_dir p w1 = (r2, w2)"
        by force
      show ?thesis
      proof (cases r2)
        case (Inr ks)
        have ks: "ks = children (w_fs w1) p" and w2: "w_cwd w2 = w_cwd w1"
          using r2 Inr reads_cwd(7) [OF r2] by (auto simp: read_dir_def split: prod.splits option.splits if_splits)
        have kids: "\<forall>(q, k) \<in> set (ks @ todo). \<exists>ys. q = root @ ys \<and> normal_comps ys"
          using "3.prems"(4) p by (fastforce simp: ks children_def child_names_iff)
        have "\<exists>cs'. (root @ cs', Dir) \<in> set (ks @ todo) \<and> repeats ds cs'"
        proof (cases "cs = xs")
          case True
          obtain c where c: "repeats ds (xs @ [c])" "prefix (xs @ [c]) (ds @ xs)"
            using repeats_next "3.prems"(3) assms(2,3) True by blast
          have "dir_path (w_fs w1) ((root @ ds) @ xs)"
            using copy_dir_made [of src root dst xs w u w1] r p \<open>nd = Dir\<close> \<open>r = Inr u\<close> "3.prems"(1) by blast
          then have "node_at (w_fs w1) (root @ xs @ [c]) = Some Dir"
            using c(2) by (simp add: dir_path_iff)
          moreover from this have "root @ xs @ [c] \<in> set (child_names (w_fs w1) p)"
            using c(1) by (simp add: child_names_iff p repeats_def)
          ultimately have "(root @ xs @ [c], Dir) \<in> set ks"
            by (force simp: ks children_def)
          with c(1) show ?thesis
            by (intro exI [of _ "xs @ [c]"]) simp
        next
          case False
          then have "(root @ cs, Dir) \<in> set todo"
            using "3.prems"(2) p by simp
          with "3.prems"(3) show ?thesis
            by auto
        qed
        then show ?thesis
          using "3.IH"(1) [OF r [symmetric] \<open>r = Inr u\<close> True r2 [symmetric] Inr] places w2 kids r r2 \<open>r = Inr u\<close> Inr True
          by auto
      qed (use r r2 \<open>r = Inr u\<close> True in simp)
    qed
  qed (use r in simp)
qed simp_all

text \<open>C32.  A tree fetched into a directory of its own never succeeds, whatever the tree holds and
  whichever calls fail: the walk reads each directory after copying into it, and finds the copy it has
  just made one level deeper.  The real walk ends when a path has grown too long for the kernel, which
  is a failing call here.  Links at or below the destination are excluded: there the walk can end.\<close>

theorem nfs_fetch_into_source:
  assumes "cwd_ok (w_cwd w)" and "dest \<noteq> []" and "rq_mount_source req \<noteq> []"
    and "abs_comps (w_cwd w) (path_join (rq_mount_source req) (rq_subpath req)) = Some root"
    and "abs_comps (w_cwd w) dest = Some (root @ ds)" and "ds \<noteq> []"
    and "node_at (w_fs w) root = Some Dir"
    and "\<forall>cs t. prefix cs ds \<or> prefix ds cs \<longrightarrow> node_at (w_fs w) (root @ cs) \<noteq> Some (Link t)"
  shows "\<exists>e. fst (nfs_fetch n req dest w) = Inl e"
proof -
  let ?src = "path_join (rq_mount_source req) (rq_subpath req)"
  have src: "?src \<noteq> []" "clean ?src = ?src"
    using assms(3) path_join_clean by simp_all
  have ds: "normal_comps ds"
    using abs_comps_normal [OF assms(1,5)] by simp
  have walk: "\<exists>e. fst (copy_walk n ?src root dest [(root, Dir)] u) = Inl e" if "w_cwd u = w_cwd w" for u
    using copy_walk_repeats [of u ?src root dest ds "[]" "[(root, Dir)]" n] assms(1,2,5,6) assms(4) src ds that
    by (simp add: copy_places_def repeats_def)
  have tree: "\<exists>e. fst (copy_tree n ?src dest u) = Inl e" if "w_cwd u = w_cwd w" "w_fs u = w_fs w" for u
  proof -
    obtain r v where r: "os_lstat root u = (r, v)"
      by force
    then have "w_cwd v = w_cwd w" "r = Inr Dir \<or> (\<exists>e. r = Inl e)"
      using reads_cwd(2) [OF r] that assms(7) by (auto simp: os_lstat_def split: prod.splits option.splits)
    then show ?thesis
      using walk r that assms(4) by (auto simp: copy_tree_def copy_tree_at_def)
  qed
  obtain r v where r: "with_path ?src os_stat w = (r, v)"
    by force
  then have st: "os_stat root w = (r, v)"
    using src assms(4) by (simp add: with_path_def)
  have "resolve max_links (w_fs w) root = Inr root"
    using assms(7) by (intro resolve_plain) simp
  then have "r = Inr Dir \<or> (\<exists>e. r = Inl e)" and v: "w_cwd v = w_cwd w" "w_fs v = w_fs w"
    using st reads_cwd(1) [OF st] assms(7) by (auto simp: os_stat_def split: prod.splits option.splits sum.splits)
  then show ?thesis
    using r tree [OF v] by (cases "copy_tree n ?src dest v") (auto simp: nfs_fetch_def Let_def)
qed

text \<open>A share with a file, fetched into a directory of it that is not there yet.\<close>

theorem nfs_fetch_into_source_witness:
  "\<exists>e. fst (nfs_fetch 1000 (ex_nfs ''m'') ''/mnt/m/z/y'' ex_share) = Inl e"
proof (rule nfs_fetch_into_source [where root = "[''mnt'', ''m'']" and ds = "[''z'', ''y'']"])
  show "abs_comps (w_cwd ex_share) (path_join (rq_mount_source (ex_nfs ''m'')) (rq_subpath (ex_nfs ''m''))) =
    Some [''mnt'', ''m'']"
    unfolding ex_share_def ex_nfs_def by code_simp
  show "abs_comps (w_cwd ex_share) ''/mnt/m/z/y'' = Some ([''mnt'', ''m''] @ [''z'', ''y''])"
    unfolding ex_share_def by code_simp
  show "\<forall>cs t. prefix cs [''z'', ''y''] \<or> prefix [''z'', ''y''] cs \<longrightarrow>
    node_at (w_fs ex_share) ([''mnt'', ''m''] @ cs) \<noteq> Some (Link t)"
    by (auto simp: ex_share_def node_at_def)
qed (simp_all add: ex_share_def ex_nfs_def cwd_ok_def is_abs_def node_at_def)

end
