(* ===== verification/Storage_Theorems.thy ===== *)
theory Storage_Theorems
  imports Storage_CopyTree
begin

text \<open>
  The properties of the model cache: what \<open>Fetch\<close>, \<open>Delete\<close>, \<open>List\<close> and a restart promise to their
  callers.  Each is stated by cases on the outcome of the operation, so that it covers every
  schedule of failing system calls.
\<close>

section \<open>An example store\<close>

text \<open>One model in a store at \<open>/models\<close>, a share mounted at \<open>/mnt\<close>; the witnesses evaluate it.\<close>

definition ex_entry :: entry where
  "ex_entry = \<lparr>e_id = ''00ff00ff00ff00ff'', e_source = ''nfs'', e_model_id = ''m'',
     e_path = ''/models/00ff00ff00ff00ff'', e_size = 4, e_files = [''w.bin''],
     e_fetched_at = ''2024-01-01T00:00:00Z'', e_last_used_at = ''2024-01-01T00:00:00Z''\<rparr>"

definition ex_store :: store where
  "ex_store = \<lparr>st_dir = ''/models'', st_fetchers = [(''nfs'', nfs_fetch 50)],
     st_entries = [(e_id ex_entry, ex_entry)], st_by_key = [(''nfs:m'', e_id ex_entry)]\<rparr>"

definition ex_world :: world where
  "ex_world = \<lparr>w_fs =
       [([''models''], Dir), ([''models'', ''index.json''], File 384 (index_bytes [ex_entry])),
        ([''models'', ''00ff00ff00ff00ff''], Dir),
        ([''models'', ''00ff00ff00ff00ff'', ''w.bin''], File 416 ''data''),
        ([''mnt''], Dir), ([''mnt'', ''x''], File 420 ''more'')],
     w_faults = [], w_cwd = Some ''/'', w_rand = 0\<rparr>"

definition ex_request :: "string \<Rightarrow> fetch_request" where
  "ex_request mid = \<lparr>rq_source = ''nfs'', rq_model_id = mid, rq_dest = [], rq_patterns = [],
     rq_mount_source = ''/mnt'', rq_subpath = ''x''\<rparr>"

definition ex_sha :: "string \<Rightarrow> string" where
  "ex_sha s = replicate 32 CHR ''a''"

definition ex_now :: timestamp where
  "ex_now = ''2025-06-01T12:00:00Z''"

lemmas ex_defs = ex_entry_def ex_store_def ex_world_def ex_request_def ex_sha_def ex_now_def

lemma ex_inv: "store_inv ex_store"
  by (auto simp: store_inv_def ex_defs gomap_ok_def key_for_def)

lemma ex_place: "place_ok ex_store ex_world"
  by (simp add: place_ok_def ex_defs cwd_ok_def is_abs_def)

lemma ex_request_ok: "mid \<noteq> [] \<Longrightarrow> request_ok (ex_request mid) ex_store (nfs_fetch 50)"
  by (simp add: request_ok_def ex_defs)

lemma ex_staged: "staged ex_store (rkey (ex_request ''m'')) = Some ex_entry"
  by (simp add: staged_def lookup_by_key_def ex_defs key_for_def)

lemma ex_id: "entry_id ex_sha src mid = ''6161616161616161''"
proof -
  have "take 16 (hex_encode (replicate 32 CHR ''a'')) = ''6161616161616161''"
    by code_simp
  then show ?thesis
    by (simp add: entry_id_def ex_sha_def)
qed

lemma ex_collision_free: "collision_free ex_sha ex_store (ex_request mid)"
  by (simp add: collision_free_def ex_id) (simp add: ex_defs)

lemma ex_dest_clear: "dest_clear ex_sha ex_store (ex_request mid) ex_world"
  by (simp add: dest_clear_def link_free_def ex_defs split: option.split)

lemma ex_flight: "flight_ok (\<lambda>k f s. f s)"
  by (simp add: flight_ok_def)

lemma ex_dir: "dir_comps ex_store ex_world = Some [''models'']"
  unfolding dir_comps_def ex_defs by code_simp

lemma ex_in_sync: "in_sync ex_store ex_world"
  using ex_dir by (simp add: in_sync_def index_on_disk_def ex_defs node_at_def sorted_entries_def)

lemma ex_dir_path: "dir_path (w_fs ex_world) [''models'']"
  by (simp add: dir_path_def ex_world_def node_at_def)

section \<open>Fetch\<close>

lemma staged_lookup: "lookup_by_key st k = staged st k"
  by (simp add: staged_def)

lemma fetch_hit_eq:
  assumes "request_ok req st f" and "store_inv st" and "staged st (rkey req) = Some e"
  shows "fetch sha256 fl now req (st, w) =
    (case save_index (touch now (e_id e) e st) w of
       (Inl er, w') \<Rightarrow> (Inl er, (touch now (e_id e) e st, w'))
     | (Inr _, w') \<Rightarrow> (Inr (e\<lparr>e_last_used_at := now\<rparr>), (touch now (e_id e) e st, w')))"
proof -
  have "gm_get (st_entries st) (e_id e) = Some e"
    using staged_iff [OF assms(2)] assms(3) by simp
  then show ?thesis
    using fetch_present [OF assms(1)] assms(3) use_existing_eq by (simp add: staged_lookup)
qed

lemma touch_place [simp]: "place_ok (touch now i e st) w = place_ok st w"
  by (simp add: place_ok_def)

lemma touch_files [simp]: "index_files (touch now i e st) w = index_files st w"
  by (rule index_files_dir) simp

lemma touch_disk [simp]: "index_on_disk (touch now i e st) w = index_on_disk st w"
  by (rule index_on_disk_dir) simp

text \<open> A fetch of a model that is staged never calls the fetcher: whatever the outcome it only
  touches the index, and what it returns is the staged entry with its new time of use.\<close>

theorem fetch_of_staged:
  assumes "request_ok req st f" and "store_inv st" and "place_ok st w"
    and "staged st (rkey req) = Some e"
  shows "case fetch sha256 fl now req (st, w) of
      (Inr e', (st', w')) \<Rightarrow>
        e' = e\<lparr>e_last_used_at := now\<rparr> \<and> store_inv st' \<and>
        staged st' = (staged st)(rkey req \<mapsto> e') \<and> in_sync st' w' \<and>
        changes_only (index_files st w) w w'
    | (Inl er, (st', w')) \<Rightarrow>
        store_inv st' \<and> index_on_disk st w' = index_on_disk st w \<and>
        changes_only (index_files st w) w w'"
proof -
  have e: "gm_get (st_entries st) (e_id e) = Some e" and key: "ekey e = rkey req"
    using staged_iff [OF assms(2)] assms(4) by auto
  let ?st = "touch now (e_id e) e st"
  obtain r w' where s: "save_index ?st w = (r, w')" by force
  have place: "place_ok ?st w"
    using assms(3) by simp
  have files: "changes_only (index_files st w) w w'"
    using save_index_files [OF s place] by simp
  have inv: "store_inv ?st"
    using assms(2) e by (rule touch_inv)
  have staged: "staged ?st = (staged st)(rkey req \<mapsto> e\<lparr>e_last_used_at := now\<rparr>)"
    using touch_staged [OF assms(2) e] by (simp add: key)
  show ?thesis
  proof (cases r)
    case (Inl er)
    with s files inv save_index_fails_disk [of ?st w er w'] place show ?thesis
      by (simp add: fetch_hit_eq [OF assms(1,2,4)])
  next
    case (Inr u)
    then have "in_sync ?st w'"
      using save_index_ok(1) [of ?st w w'] s place by (simp add: in_sync_def)
    with Inr s files inv staged show ?thesis
      by (simp add: fetch_hit_eq [OF assms(1,2,4)])
  qed
qed

theorem fetch_of_staged_witness:
  "case fetch ex_sha (\<lambda>k f s. f s) ex_now (ex_request ''m'') (ex_store, ex_world) of
      (Inr e', (st', w')) \<Rightarrow>
        e' = ex_entry\<lparr>e_last_used_at := ex_now\<rparr> \<and> store_inv st' \<and>
        staged st' = (staged ex_store)(rkey (ex_request ''m'') \<mapsto> e') \<and> in_sync st' w' \<and>
        changes_only (index_files ex_store ex_world) ex_world w'
    | (Inl er, (st', w')) \<Rightarrow>
        store_inv st' \<and> index_on_disk ex_store w' = index_on_disk ex_store ex_world \<and>
        changes_only (index_files ex_store ex_world) ex_world w'"
  by (rule fetch_of_staged [OF ex_request_ok ex_inv ex_place ex_staged]) simp

lemma fetch_succeeds:
  assumes "request_ok req st f" and "fetcher_contract f" and "flight_ok fl"
    and "store_inv st" and "collision_free sha256 st req"
    and "place_ok st w" and "dest_clear sha256 st req w"
    and ok: "fetch sha256 fl now req (st, w) = (Inr e, (st', w'))"
  shows "store_inv st' \<and> in_sync st' w' \<and> staged st' = (staged st)(rkey req \<mapsto> e) \<and>
    ekey e = rkey req \<and> e_last_used_at e = now \<and> st_dir st' = st_dir st \<and>
    changes_only (fetch_area sha256 st req w) w w' \<and>
    (\<forall>e0. staged st (rkey req) = Some e0 \<longrightarrow>
       e = e0\<lparr>e_last_used_at := now\<rparr> \<and> changes_only (index_files st w) w w')"
proof (cases "staged st (rkey req)")
  case (Some e0)
  then have e0: "gm_get (st_entries st) (e_id e0) = Some e0" and key: "ekey e0 = rkey req"
    using staged_iff [OF assms(4)] by auto
  let ?st = "touch now (e_id e0) e0 st"
  obtain u where s: "save_index ?st w = (Inr u, w')" and st': "st' = ?st"
    and e: "e = e0\<lparr>e_last_used_at := now\<rparr>"
    using ok by (auto simp: fetch_hit_eq [OF assms(1,4) Some] split: prod.splits sum.splits)
  have files: "changes_only (index_files st w) w w'"
    using save_index_files [OF s] assms(6) by simp
  then have "changes_only (fetch_area sha256 st req w) w w'"
    by (rule changes_only_mono) (simp add: fetch_area_def)
  moreover have "in_sync ?st w'"
    using save_index_ok(1) [of ?st w w'] s assms(6) by (simp add: in_sync_def)
  ultimately show ?thesis
    using files touch_inv [OF assms(4) e0] touch_staged [OF assms(4) e0] key Some by (simp add: st' e)
next
  case None
  then have absent: "lookup_by_key st (rkey req) = None"
    by (simp add: staged_lookup)
  have r: "do_fetch sha256 f now req (st, w) = (Inr e, (st', w'))"
    using ok fetch_absent [OF assms(1) absent assms(3)] by simp
  note steps = fetcher_contract.do_fetch_ok [OF assms(2) r assms(6,7)]
  obtain sz files where e: "e = new_entry sha256 st now req sz files"
    using steps(1) by blast
  have fits: "fits e st"
    unfolding e by (rule new_entry_fits(1) [OF assms(4) absent assms(5)])
  have "staged st' = (staged st)(rkey req \<mapsto> e)"
    using put_entry_staged [OF assms(4) fits] steps(2) by (simp add: e new_entry_def)
  then show ?thesis
    using steps(2-4) put_entry_inv [OF assms(4) fits] None by (simp add: e new_entry_def)
qed

lemma fetch_fails:
  assumes "request_ok req st f" and "fetcher_contract f" and "flight_ok fl"
    and "store_inv st" and "collision_free sha256 st req"
    and "place_ok st w" and "dest_clear sha256 st req w"
    and er: "fetch sha256 fl now req (st, w) = (Inl er, (st', w'))"
  shows "store_inv st' \<and> (\<forall>k. k \<noteq> rkey req \<longrightarrow> staged st' k = staged st k) \<and>
    (staged st (rkey req) = None \<longrightarrow> same_maps st st') \<and>
    changes_only (fetch_area sha256 st req w) w w' \<and>
    (\<forall>e0. staged st (rkey req) = Some e0 \<longrightarrow>
       staged st' (rkey req) = Some (e0\<lparr>e_last_used_at := now\<rparr>) \<and>
       index_on_disk st w' = index_on_disk st w \<and> changes_only (index_files st w) w w')"
proof (cases "staged st (rkey req)")
  case (Some e0)
  then have e0: "gm_get (st_entries st) (e_id e0) = Some e0" and key: "ekey e0 = rkey req"
    using staged_iff [OF assms(4)] by auto
  let ?st = "touch now (e_id e0) e0 st"
  have s: "save_index ?st w = (Inl er, w')" and st': "st' = ?st"
    using er by (auto simp: fetch_hit_eq [OF assms(1,4) Some] split: prod.splits sum.splits)
  have files: "changes_only (index_files st w) w w'"
    using save_index_files [OF s] assms(6) by simp
  then have "changes_only (fetch_area sha256 st req w) w w'"
    by (rule changes_only_mono) (simp add: fetch_area_def)
  moreover have "index_on_disk st w' = index_on_disk st w"
    using save_index_fails_disk [of ?st w er w'] s assms(6) by simp
  ultimately show ?thesis
    using files touch_inv [OF assms(4) e0] touch_staged [OF assms(4) e0] key Some by (simp add: st')
next
  case None
  then have absent: "lookup_by_key st (rkey req) = None"
    by (simp add: staged_lookup)
  have r: "do_fetch sha256 f now req (st, w) = (Inl er, (st', w'))"
    using er fetch_absent [OF assms(1) absent assms(3)] by simp
  have "same_maps st st' \<and> store_inv st' \<and> changes_only (fetch_area sha256 st req w) w w'"
    using fetcher_contract.do_fetch_fails [OF assms(2) r assms(6,4) absent assms(5,7)] .
  then show ?thesis
    using same_maps_staged [of st st'] None by simp
qed

text \<open>C1.  The outcome of a fetch.  On success the entry is staged under the key of the request, no
  other key changes, and memory and \<open>index.json\<close> agree.  On failure no other key changes, and a key
  that was absent stays absent: the rollback restores both maps.  Either way it writes only around
  the destination and to the index.  For a key that is staged the fetcher is not run, the answer is
  the staged entry with its new time of use, and nothing but the index is written; if that write
  fails, memory keeps the new time of use all the same, and \<open>index.json\<close> the old one.\<close>

theorem fetch_outcome:
  assumes "request_ok req st f" and "fetcher_contract f" and "flight_ok fl"
    and "store_inv st" and "collision_free sha256 st req"
    and "place_ok st w" and "dest_clear sha256 st req w"
  shows "case fetch sha256 fl now req (st, w) of
      (Inr e, (st', w')) \<Rightarrow>
        store_inv st' \<and> in_sync st' w' \<and> staged st' = (staged st)(rkey req \<mapsto> e) \<and>
        ekey e = rkey req \<and> e_last_used_at e = now \<and>
        changes_only (fetch_area sha256 st req w) w w' \<and>
        (\<forall>e0. staged st (rkey req) = Some e0 \<longrightarrow>
           e = e0\<lparr>e_last_used_at := now\<rparr> \<and> changes_only (index_files st w) w w')
    | (Inl er, (st', w')) \<Rightarrow>
        store_inv st' \<and> (\<forall>k. k \<noteq> rkey req \<longrightarrow> staged st' k = staged st k) \<and>
        (staged st (rkey req) = None \<longrightarrow> same_maps st st') \<and>
        changes_only (fetch_area sha256 st req w) w w' \<and>
        (\<forall>e0. staged st (rkey req) = Some e0 \<longrightarrow>
           staged st' (rkey req) = Some (e0\<lparr>e_last_used_at := now\<rparr>) \<and>
           index_on_disk st w' = index_on_disk st w \<and> changes_only (index_files st w) w w')"
proof -
  obtain r st' w' where r: "fetch sha256 fl now req (st, w) = (r, (st', w'))"
    using prod_cases3 by blast
  show ?thesis
  proof (cases r)
    case (Inl er)
    with r fetch_fails [OF assms r [unfolded Inl]] show ?thesis
      by auto
  next
    case (Inr e)
    with r fetch_succeeds [OF assms r [unfolded Inr]] show ?thesis
      by auto
  qed
qed

theorem fetch_outcome_witness:
  "case fetch ex_sha (\<lambda>k f s. f s) ex_now (ex_request ''x'') (ex_store, ex_world) of
      (Inr e, (st', w')) \<Rightarrow>
        store_inv st' \<and> in_sync st' w' \<and> staged st' = (staged ex_store)(rkey (ex_request ''x'') \<mapsto> e) \<and>
        ekey e = rkey (ex_request ''x'') \<and> e_last_used_at e = ex_now \<and>
        changes_only (fetch_area ex_sha ex_store (ex_request ''x'') ex_world) ex_world w'
    | (Inl er, (st', w')) \<Rightarrow>
        store_inv st' \<and> changes_only (fetch_area ex_sha ex_store (ex_request ''x'') ex_world) ex_world w'"
  using fetch_outcome [OF ex_request_ok nfs.fetcher_contract_axioms ex_flight ex_inv
      ex_collision_free ex_place ex_dest_clear, of "''x''" ex_now]
  by (auto split: prod.splits sum.splits)

section \<open>Delete\<close>

text \<open>The removal of an entry's files, which \<open>Delete\<close> skips outside the storage directory.\<close>

definition removal :: "store \<Rightarrow> entry \<Rightarrow> unit os" where
  "removal st e w =
     (if under_root (w_cwd w) (st_dir st) (e_path e) then remove_all_path (e_path e) w
      else (Inr (), w))"

lemma delete_model_eq:
  assumes "gm_get (st_entries st) i = Some e"
  shows "delete_model i (st, w) =
    (case removal st e w of
       (Inl er, w1) \<Rightarrow> (Inl (RemovePath er), (st, w1))
     | (Inr _, w1) \<Rightarrow>
         (case save_index (drop_entry i e st) w1 of
            (Inl er, w2) \<Rightarrow>
              (Inl er,
               ((drop_entry i e st)
                  \<lparr>st_entries := gm_set i e (st_entries (drop_entry i e st)),
                   st_by_key := gm_set (ekey e) i (st_by_key (drop_entry i e st))\<rparr>, w2))
          | (Inr _, w2) \<Rightarrow> (Inr (), (drop_entry i e st, w2))))"
  by (simp only: delete_model_def removal_def Let_def assms prod.case option.case)

text \<open>The paths under the storage directory.\<close>

definition in_dir :: "store \<Rightarrow> world \<Rightarrow> comps \<Rightarrow> bool" where
  "in_dir st w q \<longleftrightarrow> (case dir_comps st w of None \<Rightarrow> False | Some d \<Rightarrow> prefix d q)"

lemma index_files_in_dir: "index_files st w q \<Longrightarrow> in_dir st w q"
  by (auto simp: index_files_def temp_path_def index_file_def in_dir_def)

lemma removal_frame:
  assumes "removal st e w = (r, w')" and "place_ok st w"
    and "\<forall>p. abs_comps (w_cwd w) (e_path e) = Some p \<longrightarrow> no_link_within (w_fs w) p"
  shows "changes_only (in_dir st w) w w'"
proof (cases "under_root (w_cwd w) (st_dir st) (e_path e)")
  case True
  then obtain rs ps where rp: "abs_comps (w_cwd w) (st_dir st) = Some rs"
    "abs_comps (w_cwd w) (e_path e) = Some ps" "prefix rs ps"
    using under_root_prefix assms(2) unfolding place_ok_def by blast
  have "changes_only (prefix ps) w w'"
    using remove_all_path_below [OF _ rp(2)] rp(2) assms(1,3) True by (simp add: removal_def)
  then show ?thesis
    by (rule changes_only_mono)
      (use rp prefix_order.order_trans in \<open>auto simp: in_dir_def dir_comps_def\<close>)
qed (use assms(1) in \<open>simp add: removal_def\<close>)

lemma removal_cwd: "removal st e w = (r, w') \<Longrightarrow> w_cwd w' = w_cwd w"
  using remove_all_path_cwd by (auto simp: removal_def split: if_splits)

lemma removal_gone:
  assumes "removal st e w = (Inr (), w')" and "under_root (w_cwd w) (st_dir st) (e_path e)"
    and "e_path e \<noteq> []" and "abs_comps (w_cwd w) (e_path e) = Some p" and "kernel_path (w_fs w) p = Inr p'"
    and "prefix p' q" and "q \<noteq> []"
  shows "node_at (w_fs w') q = None"
proof -
  have "remove_all p' w = (Inr (), w')"
    using assms(1-5) by (auto simp: removal_def remove_all_path_def remove_all_real_def with_path_def split: if_splits)
  then show ?thesis
    using assms(6,7) by (auto simp: remove_all_def node_at_def gomap_simps
        split: option.splits prod.splits)
qed

lemma in_dir_cwd: "w_cwd w' = w_cwd w \<Longrightarrow> in_dir st w' = in_dir st w"
  by (simp add: in_dir_def dir_comps_def fun_eq_iff)

lemma save_in_dir:
  assumes "save_index st' w1 = (r, w2)" and "st_dir st' = st_dir st" and "place_ok st w"
    and "w_cwd w1 = w_cwd w"
  shows "changes_only (index_files st w) w1 w2" and "changes_only (in_dir st w) w1 w2"
proof -
  have "changes_only (index_files st' w1) w1 w2"
    using save_index_files [OF assms(1)] assms(2-4) by (simp add: place_ok_def)
  then show "changes_only (index_files st w) w1 w2"
    using index_files_dir [OF assms(2), of w1] index_files_cwd [OF assms(4), of st] by simp
  then show "changes_only (in_dir st w) w1 w2"
    by (rule changes_only_mono) (rule index_files_in_dir)
qed


text \<open>C2.  The outcome of a deletion.  On success the entry is gone from memory and from \<open>index.json\<close>,
  and where its path is one the guard takes to be under the storage directory, nothing is left at the
  place the path leads to but files of the index; files at a destination elsewhere are left to the
  caller.  On failure every entry is still there, and it is \<open>ErrNotFound\<close> exactly when the id is
  unknown.\<close>

theorem delete_outcome:
  assumes "store_inv st" and "place_ok st w"
  shows "case delete_model i (st, w) of
      (Inr _, (st', w')) \<Rightarrow>
        (\<exists>e. gm_get (st_entries st) i = Some e \<and> staged st' = (staged st)(ekey e := None) \<and>
           (under_root (w_cwd w) (st_dir st) (e_path e) \<and> e_path e \<noteq> [] \<longrightarrow>
              (\<forall>p p' q. abs_comps (w_cwd w) (e_path e) = Some p \<and> kernel_path (w_fs w) p = Inr p' \<and>
                 prefix p' q \<and> q \<noteq> [] \<and> \<not> index_files st w q \<longrightarrow> node_at (w_fs w') q = None)) \<and>
           (\<not> under_root (w_cwd w) (st_dir st) (e_path e) \<longrightarrow> changes_only (index_files st w) w w')) \<and>
        gm_get (st_entries st') i = None \<and> store_inv st' \<and> in_sync st' w'
    | (Inl er, (st', w')) \<Rightarrow>
        same_maps st st' \<and> store_inv st' \<and> (er = NotFound \<longleftrightarrow> gm_get (st_entries st) i = None)"
proof (cases "gm_get (st_entries st) i")
  case None
  then show ?thesis
    using assms by (simp add: delete_model_def)
next
  case (Some e)
  let ?st = "drop_entry i e st"
  obtain r1 w1 where rm: "removal st e w = (r1, w1)" by force
  have cwd: "w_cwd w1 = w_cwd w"
    using rm by (rule removal_cwd)
  obtain r2 w2 where s: "save_index ?st w1 = (r2, w2)" by force
  show ?thesis
  proof (cases r1)
    case (Inl er)
    with rm assms(1) Some show ?thesis
      by (simp add: delete_model_eq [OF Some])
  next
    case Inr1: (Inr u)
    show ?thesis
    proof (cases r2)
      case (Inl er)
      have "er \<noteq> NotFound"
        using s Inl by (auto simp: save_index_def Let_def split: prod.splits sum.splits)
      then show ?thesis
        using rm Inr1 s Inl Some reinsert_same [OF assms(1) Some]
          store_inv_same_maps [OF assms(1) reinsert_same [OF assms(1) Some]]
          store_inv_maps [OF drop_entry_inv [OF assms(1) Some]]
        by (simp add: delete_model_eq [OF Some])
    next
      case (Inr v)
      have place: "place_ok ?st w1"
        using assms(2) cwd by (simp add: place_ok_def)
      have "in_sync ?st w2"
        using save_index_ok(1) [of ?st w1 w2] s Inr place by (simp add: in_sync_def)
      moreover have "node_at (w_fs w2) q = None"
        if "under_root (w_cwd w) (st_dir st) (e_path e)" "e_path e \<noteq> []"
          "abs_comps (w_cwd w) (e_path e) = Some p" "kernel_path (w_fs w) p = Inr p'" "prefix p' q" "q \<noteq> []"
          "\<not> index_files st w q" for p p' q
        using removal_gone [OF _ that(1-6)] rm Inr1 save_in_dir(1) [OF s _ assms(2) cwd] that(7)
        by (simp add: changes_only_def)
      moreover have "changes_only (index_files st w) w w2" if "\<not> under_root (w_cwd w) (st_dir st) (e_path e)"
        using that rm save_in_dir(1) [OF s _ assms(2) cwd] by (simp add: removal_def)
      moreover have "gm_get (st_entries ?st) i = None"
        by (simp add: drop_entry_def gomap_simps)
      ultimately show ?thesis
        using rm Inr1 s Inr Some drop_entry_inv [OF assms(1) Some] drop_entry_staged [OF assms(1) Some]
        by (auto simp: delete_model_eq [OF Some])
    qed
  qed
qed

theorem delete_outcome_witness:
  "case delete_model (e_id ex_entry) (ex_store, ex_world) of
      (Inr _, (st', w')) \<Rightarrow> gm_get (st_entries st') (e_id ex_entry) = None \<and> in_sync st' w'
    | (Inl er, (st', w')) \<Rightarrow> er \<noteq> NotFound \<and> same_maps ex_store st'"
  using delete_outcome [OF ex_inv ex_place, of "e_id ex_entry"]
  by (auto simp: ex_store_def split: prod.splits sum.splits)


text \<open>C28.  An entry whose path is the storage directory itself passes the guard: deleting it removes
  every staged model and the index, and still reports failure with the entry in place.\<close>

theorem delete_of_root:
  assumes "gm_get (st_entries st) i = Some e" and "e_path e = st_dir st"
    and "place_ok st w" and "dir_comps st w = Some d" and "d \<noteq> []"
    and "\<not> ends_with_dot (st_dir st)" and "w_faults w = []" and "no_link_within (w_fs w) d"
  shows "case delete_model i (st, w) of (r, (st', w')) \<Rightarrow>
    r = Inl (TempFile ENOENT) \<and> gm_get (st_entries st') i = Some e \<and>
    list_all (\<lambda>(q, nd). \<not> prefix d q) (w_fs w')"
proof -
  define w1 where "w1 = w\<lparr>w_fs := drop_under d (w_fs w)\<rparr>"
  have d: "abs_comps (w_cwd w) (st_dir st) = Some d" and ne: "st_dir st \<noteq> []"
    using assms(3,4) by (simp_all add: dir_comps_def place_ok_def)
  have "under_root (w_cwd w) (st_dir st) (e_path e)"
    using assms(2,3) d under_root_prefix [of "w_cwd w"] by (simp add: place_ok_def)
  then have rm: "removal st e w = (Inr (), w1)"
    using assms(2,6,7) d ne remove_all_real_plain [OF assms(8)]
    by (simp add: removal_def remove_all_path_def with_path_def remove_all_def w1_def)
  have "node_at (w_fs w1) d = None"
    using assms(5) by (simp add: w1_def gomap_simps)
  then have s: "save_index (drop_entry i e st) w1 = (Inl (TempFile ENOENT), w1)"
    using d ne assms(7) by (simp add: save_index_def with_path_def create_temp_def w1_def)
  have "list_all (\<lambda>(q, nd). \<not> prefix d q) (w_fs w1)"
    by (auto simp: w1_def drop_under_def list_all_iff)
  with rm s show ?thesis
    by (simp add: delete_model_eq [OF assms(1)] gomap_simps)
qed

theorem delete_of_root_witness:
  "case delete_model ''i'' (ex_store\<lparr>st_entries := [(''i'', ex_entry\<lparr>e_path := ''/models''\<rparr>)]\<rparr>, ex_world) of
     (r, (st', w')) \<Rightarrow>
       r = Inl (TempFile ENOENT) \<and> gm_get (st_entries st') ''i'' = Some (ex_entry\<lparr>e_path := ''/models''\<rparr>) \<and>
       list_all (\<lambda>(q, nd). \<not> prefix [''models''] q) (w_fs w')"
proof (rule delete_of_root)
  let ?st = "ex_store\<lparr>st_entries := [(''i'', ex_entry\<lparr>e_path := ''/models''\<rparr>)]\<rparr>"
  show "place_ok ?st ex_world"
    using ex_place by (simp add: place_ok_def)
  show "dir_comps ?st ex_world = Some [''models'']"
    using ex_dir by (simp add: dir_comps_def)
  show "no_link_within (w_fs ex_world) [''models'']"
    by (auto simp: no_link_within_def ex_world_def node_at_def)
qed (simp_all add: ex_store_def ex_world_def ends_with_dot_def has_prefix_iff)

section \<open>The index on disk\<close>

text \<open>C13.  Rewriting the index is atomic: \<open>index.json\<close> holds either the whole new index or exactly
  what it held before, and nothing but the index and its temporary copies is touched.\<close>

theorem save_index_atomic:
  assumes "place_ok st w"
  shows "case save_index st w of
      (Inr _, w') \<Rightarrow> in_sync st w' \<and> changes_only (index_file st w) w w'
    | (Inl er, w') \<Rightarrow> index_on_disk st w' = index_on_disk st w \<and> changes_only (temp_path st w) w w'"
  using save_index_ok [OF _ assms] save_index_fails [OF _ assms] save_index_fails_disk [OF _ assms]
  by (auto simp: in_sync_def split: prod.split sum.split)

theorem save_index_atomic_witness:
  "case save_index ex_store ex_world of
      (Inr _, w') \<Rightarrow> in_sync ex_store w' \<and> changes_only (index_file ex_store ex_world) ex_world w'
    | (Inl er, w') \<Rightarrow> index_on_disk ex_store w' = index_on_disk ex_store ex_world \<and>
        changes_only (temp_path ex_store ex_world) ex_world w'"
  by (rule save_index_atomic [OF ex_place])

lemma sorted_entries_mset: "mset (sorted_entries st) = mset (map snd (st_entries st))"
  by (simp add: sorted_entries_def)

lemma entries_inj:
  assumes "store_inv st"
  shows "inj_on e_id (snd ` set (st_entries st))"
proof (rule inj_onI)
  fix e e'
  assume "e \<in> snd ` set (st_entries st)" "e' \<in> snd ` set (st_entries st)" and same: "e_id e = e_id e'"
  then obtain i j where "(i, e) \<in> set (st_entries st)" "(j, e') \<in> set (st_entries st)"
    by auto
  then have i: "gm_get (st_entries st) i = Some e" and j: "gm_get (st_entries st) j = Some e'"
    using gm_get_iff store_inv_maps [OF assms] by metis+
  then have "i = j"
    using store_inv_id [OF assms i] store_inv_id [OF assms j] same by simp
  with i j show "e = e'"
    by simp
qed

lemma sorted_entries_order:
  assumes "store_inv st" and "store_inv st'" and "same_maps st st'"
  shows "sorted_entries st' = sorted_entries st"
proof -
  have "mset (st_entries st') = mset (st_entries st)"
    using assms(3) store_inv_maps [OF assms(1)] store_inv_maps [OF assms(2)]
    by (intro gomap_same_mset) (simp_all add: same_maps_def)
  then show ?thesis
    unfolding sorted_entries_def
    by (intro sort_key_order_irrelevant) (use entries_inj [OF assms(2)] in simp_all)
qed

lemma sorted_entries_ids:
  assumes "store_inv st"
  shows "sorted_wrt (<) (map e_id (sorted_entries st))"
proof (rule sorted_distinct_strict)
  show "sorted (map e_id (sorted_entries st))"
    by (simp add: sorted_entries_def)
  have "e_id e = i" if "(i, e) \<in> set (st_entries st)" for i e
    using that store_inv_id [OF assms] gm_get_iff store_inv_maps [OF assms] by metis
  then have "map e_id (map snd (st_entries st)) = map fst (st_entries st)"
    by (auto intro: map_cong)
  then have "distinct (map e_id (map snd (st_entries st)))"
    using store_inv_maps [OF assms] by (simp only: gomap_ok_def)
  moreover have "mset (map e_id (sorted_entries st)) = mset (map e_id (map snd (st_entries st)))"
    by (simp add: sorted_entries_def del: map_map)
  ultimately show "distinct (map e_id (sorted_entries st))"
    using mset_eq_imp_distinct_iff by blast
qed

lemma sorted_entries_set:
  assumes "store_inv st"
  shows "e \<in> set (sorted_entries st) \<longleftrightarrow> gm_get (st_entries st) (e_id e) = Some e"
proof -
  have "e \<in> set (sorted_entries st) \<longleftrightarrow> (\<exists>i. (i, e) \<in> set (st_entries st))"
    by (force simp: sorted_entries_def)
  then show ?thesis
    using store_inv_id [OF assms] gm_get_iff store_inv_maps [OF assms] by metis
qed

text \<open> \<open>List\<close> returns exactly the staged entries, in strictly increasing order of their ids, and
  the order in which the runtime walks the map makes no difference.\<close>

theorem list_models_sorted:
  assumes "store_inv st"
  shows "sorted_wrt (<) (map e_id (list_models (st, w))) \<and>
    (\<forall>e. e \<in> set (list_models (st, w)) \<longleftrightarrow> staged st (ekey e) = Some e) \<and>
    (\<forall>st'. store_inv st' \<and> same_maps st st' \<longrightarrow> list_models (st', w) = list_models (st, w))"
  using sorted_entries_ids [OF assms] sorted_entries_set [OF assms] staged_iff [OF assms]
    sorted_entries_order [OF assms]
  by (simp add: list_models_def)

theorem list_models_sorted_witness:
  "ex_entry \<in> set (list_models (ex_store, ex_world)) \<longleftrightarrow> staged ex_store ''nfs:m'' = Some ex_entry"
  using list_models_sorted [OF ex_inv, of ex_world] by (simp add: ex_entry_def key_for_def)

section \<open>Restart\<close>

lemma fold_put_entries:
  "distinct (map e_id es) \<Longrightarrow>
   gm_get (st_entries (fold put_entry es st)) i = Some e \<longleftrightarrow>
   (e \<in> set es \<and> e_id e = i) \<or> (i \<notin> e_id ` set es \<and> gm_get (st_entries st) i = Some e)"
proof (induction es arbitrary: st)
  case (Cons x es)
  have "gm_get (st_entries (put_entry x st)) i = Some e \<longleftrightarrow>
    (i = e_id x \<and> e = x) \<or> (i \<noteq> e_id x \<and> gm_get (st_entries st) i = Some e)"
    by (auto simp: put_entry_def gomap_simps)
  then show ?case
    using Cons by auto
qed simp

lemma fold_put_keys:
  "distinct (map ekey es) \<Longrightarrow>
   gm_get (st_by_key (fold put_entry es st)) k = Some i \<longleftrightarrow>
   (\<exists>e \<in> set es. ekey e = k \<and> e_id e = i) \<or>
   (k \<notin> ekey ` set es \<and> gm_get (st_by_key st) k = Some i)"
proof (induction es arbitrary: st)
  case (Cons x es)
  have "gm_get (st_by_key (put_entry x st)) k = Some i \<longleftrightarrow>
    (k = ekey x \<and> i = e_id x) \<or> (k \<noteq> ekey x \<and> gm_get (st_by_key st) k = Some i)"
    by (auto simp: put_entry_def gomap_simps)
  then show ?case
    using Cons by auto
qed simp

lemma fold_put_maps:
  "gomap_ok (st_entries st) \<Longrightarrow> gomap_ok (st_by_key st) \<Longrightarrow>
   gomap_ok (st_entries (fold put_entry es st)) \<and> gomap_ok (st_by_key (fold put_entry es st)) \<and>
   st_dir (fold put_entry es st) = st_dir st \<and> st_fetchers (fold put_entry es st) = st_fetchers st"
  by (induction es arbitrary: st) (simp_all add: put_entry_def)

definition empty_store :: "(string, fetcher) gomap \<Rightarrow> string \<Rightarrow> store" where
  "empty_store fetchers dir =
     \<lparr>st_dir = dir, st_fetchers = fetchers, st_entries = [], st_by_key = []\<rparr>"

text \<open>Loading a list of entries with distinct ids and distinct keys gives a store in order.\<close>

lemma load_entries_inv:
  assumes "distinct (map e_id es)" and "distinct (map ekey es)"
  shows "store_inv (fold put_entry es (empty_store fetchers dir))"
proof (rule store_invI)
  let ?st = "fold put_entry es (empty_store fetchers dir)"
  show "gomap_ok (st_entries ?st)" "gomap_ok (st_by_key ?st)"
    using fold_put_maps [of "empty_store fetchers dir" es] by (simp_all add: empty_store_def)
  show "e_id e = i \<and> gm_get (st_by_key ?st) (ekey e) = Some i"
    if "gm_get (st_entries ?st) i = Some e" for i e
    using that assms by (auto simp: fold_put_entries fold_put_keys empty_store_def)
  show "\<exists>e. gm_get (st_entries ?st) i = Some e \<and> ekey e = k"
    if "gm_get (st_by_key ?st) k = Some i" for k i
    using that assms by (auto simp: fold_put_entries fold_put_keys empty_store_def)
qed

lemma sorted_ids_distinct: "store_inv st \<Longrightarrow> distinct (map e_id (sorted_entries st))"
  using sorted_entries_ids strict_sorted_iff by blast

lemma entries_keys_distinct:
  assumes "store_inv st"
  shows "distinct (map ekey (sorted_entries st))"
proof -
  have "inj_on ekey (set (sorted_entries st))"
  proof (rule inj_onI)
    fix e e'
    assume "e \<in> set (sorted_entries st)" "e' \<in> set (sorted_entries st)" and "ekey e = ekey e'"
    then have "staged st (ekey e) = Some e" "staged st (ekey e) = Some e'"
      using staged_iff [OF assms] sorted_entries_set [OF assms] by simp_all
    then show "e = e'"
      by simp
  qed
  moreover have "distinct (sorted_entries st)"
    using sorted_ids_distinct [OF assms] by (simp add: distinct_map)
  ultimately show ?thesis
    by (simp add: distinct_map)
qed

lemma reload_inv:
  "store_inv st \<Longrightarrow> store_inv (fold put_entry (sorted_entries st) (empty_store fetchers dir))"
  by (intro load_entries_inv sorted_ids_distinct entries_keys_distinct)

lemma reload_entries:
  assumes "store_inv st"
  shows "gm_get (st_entries (fold put_entry (sorted_entries st) (empty_store fetchers dir))) i =
    gm_get (st_entries st) i"
proof -
  have "gm_get (st_entries (fold put_entry (sorted_entries st) (empty_store fetchers dir))) i = Some e
    \<longleftrightarrow> gm_get (st_entries st) i = Some e" for e
    using fold_put_entries [OF sorted_ids_distinct [OF assms], of "empty_store fetchers dir" i e]
      sorted_entries_set [OF assms, of e] store_inv_id [OF assms, of i e]
    by (auto simp: empty_store_def)
  then show ?thesis
    by (metis not_Some_eq)
qed

lemma reload_staged:
  assumes "store_inv st"
  shows "staged (fold put_entry (sorted_entries st) (empty_store fetchers dir)) = staged st"
proof
  let ?st = "fold put_entry (sorted_entries st) (empty_store fetchers dir)"
  have "staged ?st k = Some e \<longleftrightarrow> staged st k = Some e" for k e
    using staged_iff [OF reload_inv [OF assms]] staged_iff [OF assms] reload_entries [OF assms] by simp
  then show "staged ?st k = staged st k" for k
    by (metis not_Some_eq)
qed

lemma reload_sorted:
  assumes "store_inv st"
  shows "sorted_entries (fold put_entry (sorted_entries st) (empty_store fetchers dir)) =
    sorted_entries st"
proof -
  let ?st = "fold put_entry (sorted_entries st) (empty_store fetchers dir)"
  have "mset (st_entries ?st) = mset (st_entries st)"
    using store_inv_maps [OF assms] store_inv_maps [OF reload_inv [OF assms]] reload_entries [OF assms]
    by (intro gomap_same_mset) auto
  then have "mset (map snd (st_entries ?st)) = mset (map snd (st_entries st))"
    by (simp only: mset_map)
  then show ?thesis
    unfolding sorted_entries_def [of ?st] sorted_entries_def [of st, symmetric]
    using sort_key_order_irrelevant [OF _ entries_inj [OF reload_inv [OF assms], unfolded set_map [symmetric]]]
    by (simp only: sorted_entries_def [of st])
qed

lemma sorted_entries_wf:
  "list_all (\<lambda>(i, e). entry_wf e) (st_entries st) \<Longrightarrow> \<forall>e \<in> set (sorted_entries st). entry_wf e"
  by (fastforce simp: sorted_entries_def list_all_iff)

text \<open>What a restart reads of a store: every string that is not a key made UTF-8.\<close>

definition store_utf8 :: "store \<Rightarrow> store" where
  "store_utf8 st = st\<lparr>st_entries := map (map_prod (\<lambda>i. i) entry_utf8) (st_entries st)\<rparr>"

definition keys_utf8 :: "store \<Rightarrow> bool" where
  "keys_utf8 st \<longleftrightarrow>
     list_all (\<lambda>(i, e). list_all valid_utf8 [e_id e, e_source e, e_model_id e]) (st_entries st)"

lemma gm_get_map_values: "gm_get (map (map_prod (\<lambda>i. i) f) m) k = map_option f (gm_get m k)"
  by (induction m) auto

lemma staged_utf8: "staged (store_utf8 st) k = map_option entry_utf8 (staged st k)"
  by (simp add: staged_def lookup_by_key_def store_utf8_def gm_get_map_values split: option.split)

lemma keys_kept:
  assumes "keys_utf8 st" and "gm_get (st_entries st) i = Some e"
  shows "e_id (entry_utf8 e) = e_id e" "ekey (entry_utf8 e) = ekey e"
proof -
  have "list_all valid_utf8 [e_id e, e_source e, e_model_id e]"
    using assms gm_get_in [OF assms(2)] by (force simp: keys_utf8_def list_all_iff)
  then show "e_id (entry_utf8 e) = e_id e" "ekey (entry_utf8 e) = ekey e"
    by (simp_all add: entry_utf8_def)
qed

lemma store_utf8_inv:
  assumes "store_inv st" and "keys_utf8 st"
  shows "store_inv (store_utf8 st)"
proof -
  have maps: "gm_get (st_entries (store_utf8 st)) i = map_option entry_utf8 (gm_get (st_entries st) i)"
    "st_by_key (store_utf8 st) = st_by_key st" for i
    by (simp_all add: store_utf8_def gm_get_map_values)
  have "gomap_ok (st_entries (store_utf8 st))"
    using assms(1) by (simp add: store_inv_def gomap_ok_def store_utf8_def comp_def)
  moreover have "e_id u = i \<and> gm_get (st_by_key st) (ekey u) = Some i"
    if "gm_get (st_entries (store_utf8 st)) i = Some u" for i u
  proof -
    obtain e where "gm_get (st_entries st) i = Some e" "u = entry_utf8 e"
      using \<open>gm_get (st_entries (store_utf8 st)) i = Some u\<close> unfolding maps by auto
    with keys_kept [OF assms(2)] assms(1) show ?thesis
      by (simp add: store_inv_def)
  qed
  moreover have "\<exists>u. gm_get (st_entries (store_utf8 st)) i = Some u \<and> ekey u = k"
    if "gm_get (st_by_key st) k = Some i" for k i
  proof -
    obtain e where "gm_get (st_entries st) i = Some e" "ekey e = k"
      using assms(1) \<open>gm_get (st_by_key st) k = Some i\<close> unfolding store_inv_def by blast
    with keys_kept(2) [OF assms(2)] show ?thesis
      by (simp add: maps)
  qed
  ultimately show ?thesis
    using assms(1) by (simp add: store_inv_def maps(2))
qed

lemma insort_key_map:
  "f (g x) = f x \<Longrightarrow> \<forall>y \<in> set ys. f (g y) = f y \<Longrightarrow> insort_key f (g x) (map g ys) = map g (insort_key f x ys)"
  by (induction ys) auto

lemma sort_key_map: "\<forall>x \<in> set xs. f (g x) = f x \<Longrightarrow> sort_key f (map g xs) = map g (sort_key f xs)"
  by (induction xs) (simp_all add: insort_key_map)

lemma sorted_utf8:
  assumes "keys_utf8 st"
  shows "sorted_entries (store_utf8 st) = map entry_utf8 (sorted_entries st)"
proof -
  have "map snd (st_entries (store_utf8 st)) = map entry_utf8 (map snd (st_entries st))"
    by (simp add: store_utf8_def comp_def)
  moreover have "\<forall>e \<in> set (map snd (st_entries st)). e_id (entry_utf8 e) = e_id e"
    using assms by (auto simp: keys_utf8_def list_all_iff entry_utf8_def)
  ultimately show ?thesis
    by (simp only: sorted_entries_def sort_key_map)
qed

lemma opened:
  assumes "in_sync st w" and "place_ok st w" and "w_faults w = []"
    and "dir_comps st w = Some d" and "dir_path (w_fs w) d"
    and "index_parse (index_bytes (sorted_entries st)) = Some es"
  shows "new_store fetchers (st_dir st) w = (Inr (fold put_entry es (empty_store fetchers (st_dir st))), w)"
proof -
  let ?e = "empty_store fetchers (st_dir st)" and ?data = "index_bytes (sorted_entries st)"
  have d: "abs_comps (w_cwd w) (st_dir st) = Some d" and ne: "st_dir st \<noteq> []"
    using assms(2,4) by (simp_all add: dir_comps_def place_ok_def)
  have "with_path (st_dir st) mkdir_all w = (Inr (), w)"
    using make_dirs_present [of "w_fs w" "[]" d] assms(3,5) d ne by (simp add: with_path_def mkdir_all_def)
  moreover have "with_path (index_path ?e) read_file w = (Inr ?data, w)"
  proof -
    have "index_path ?e = index_path st"
      by (simp add: index_path_def empty_store_def)
    moreover have "index_path st \<noteq> []"
      using ne by (simp add: index_path_def)
    moreover obtain m where "node_at (w_fs w) (d @ [''index.json'']) = Some (File m ?data)"
      using assms(1,4) by (auto simp: in_sync_def index_on_disk_def split: option.splits node.splits)
    ultimately show ?thesis
      using index_path_comps [OF assms(2,4)] assms(3) by (simp add: with_path_def read_file_def resolve_plain)
  qed
  ultimately show ?thesis
    using ne assms(6) by (simp add: new_store_def load_index_def empty_store_def)
qed

lemma reopened:
  assumes "in_sync st w" and "place_ok st w" and "w_faults w = []"
    and "dir_comps st w = Some d" and "dir_path (w_fs w) d"
    and "list_all (\<lambda>(i, e). entry_wf e) (st_entries st)"
  shows "new_store fetchers (st_dir st) w =
    (Inr (fold put_entry (sorted_entries st) (empty_store fetchers (st_dir st))), w)"
  by (rule opened [OF assms(1-5)]) (rule index_parse_bytes [OF sorted_entries_wf [OF assms(6)]])

lemma reopened_made:
  assumes "in_sync st w" and "place_ok st w" and "w_faults w = []"
    and "dir_comps st w = Some d" and "dir_path (w_fs w) d"
    and "list_all (\<lambda>(i, e). entry_made e) (st_entries st)" and "keys_utf8 st"
  shows "new_store fetchers (st_dir st) w =
    (Inr (fold put_entry (sorted_entries (store_utf8 st)) (empty_store fetchers (st_dir st))), w)"
proof (rule opened [OF assms(1-5)])
  have "\<forall>e \<in> set (sorted_entries st). entry_made e"
    using assms(6) by (fastforce simp: sorted_entries_def list_all_iff)
  then show "index_parse (index_bytes (sorted_entries st)) = Some (sorted_entries (store_utf8 st))"
    by (simp add: index_parse_made sorted_utf8 [OF assms(7)])
qed

lemma store_utf8_wf: "list_all (\<lambda>(i, e). entry_wf e) (st_entries st) \<Longrightarrow> store_utf8 st = st \<and> keys_utf8 st"
proof -
  assume wf: "list_all (\<lambda>(i, e). entry_wf e) (st_entries st)"
  then have "map (map_prod (\<lambda>i. i) entry_utf8) (st_entries st) = st_entries st"
    by (intro map_idI) (auto simp: list_all_iff entry_utf8_wf)
  moreover have "keys_utf8 st"
    using wf by (auto simp: keys_utf8_def list_all_iff entry_wf_def)
  ultimately show ?thesis
    by (simp add: store_utf8_def)
qed

text \<open>C14.  A restart gets everything back: opening the directory of a store whose memory agrees with
  its \<open>index.json\<close> gives a store with the same entries under the same keys, whatever fetchers it is
  opened with.  Of a path or file name that is not UTF-8 it gets back what JSON made of it, with U+FFFD
  for each byte; if there is none, memory and index agree again.\<close>

theorem restart_restores:
  assumes "store_inv st" and "in_sync st w" and "place_ok st w" and "w_faults w = []"
    and "dir_comps st w = Some d" and "dir_path (w_fs w) d"
    and "list_all (\<lambda>(i, e). entry_made e) (st_entries st)" and "keys_utf8 st"
  shows "case new_store fetchers (st_dir st) w of
      (Inr st', w') \<Rightarrow>
        w' = w \<and> store_inv st' \<and> (\<forall>k. staged st' k = map_option entry_utf8 (staged st k)) \<and>
        list_models (st', w') = map entry_utf8 (list_models (st, w)) \<and>
        (list_all (\<lambda>(i, e). entry_wf e) (st_entries st) \<longrightarrow>
           in_sync st' w' \<and> staged st' = staged st \<and> list_models (st', w') = list_models (st, w))
    | (Inl er, w') \<Rightarrow> False"
proof -
  let ?u = "store_utf8 st" and ?st = "fold put_entry (sorted_entries (store_utf8 st)) (empty_store fetchers (st_dir st))"
  note u = store_utf8_inv [OF assms(1,8)]
  have models: "sorted_entries ?st = map entry_utf8 (sorted_entries st)"
    using reload_sorted [OF u] sorted_utf8 [OF assms(8)] by (rule trans)
  have entries: "staged ?st k = map_option entry_utf8 (staged st k)" for k
    using reload_staged [OF u, THEN fun_cong] staged_utf8 by (rule trans)
  have "in_sync ?st w \<and> staged ?st = staged st \<and> sorted_entries ?st = sorted_entries st"
    if "list_all (\<lambda>(i, e). entry_wf e) (st_entries st)"
  proof -
    have same: "?u = st"
      using store_utf8_wf [OF that] by simp
    have "index_on_disk ?st w = index_on_disk st w"
      using fold_put_maps [of "empty_store fetchers (st_dir st)" "sorted_entries ?u"]
      by (intro index_on_disk_dir) (simp add: empty_store_def)
    then show ?thesis
      using assms(2) reload_staged [OF u] reload_sorted [OF u] by (simp add: in_sync_def same)
  qed
  then show ?thesis
    using reload_inv [OF u, of fetchers "st_dir st"] models entries
    unfolding reopened_made [OF assms(2-8)] by (simp only: prod.case sum.case list_models_def fst_conv) simp
qed

theorem restart_restores_witness:
  "case new_store [] ''/models'' ex_world of
      (Inr st', w') \<Rightarrow>
        w' = ex_world \<and> store_inv st' \<and> in_sync st' w' \<and> staged st' = staged ex_store \<and>
        list_models (st', w') = list_models (ex_store, ex_world)
    | (Inl er, w') \<Rightarrow> False"
proof -
  have wf: "list_all (\<lambda>(i, e). entry_wf e) (st_entries ex_store)" "list_all (\<lambda>(i, e). entry_made e) (st_entries ex_store)"
    "keys_utf8 ex_store"
    unfolding keys_utf8_def ex_store_def by code_simp+
  have "w_faults ex_world = []"
    by (simp add: ex_world_def)
  from restart_restores [OF ex_inv ex_in_sync ex_place this ex_dir ex_dir_path wf(2,3), of "[]"] wf(1)
  show ?thesis
    by (auto simp: ex_store_def split: prod.splits sum.splits)
qed

end
