(* ===== verification/Storage_Concurrent.thy ===== *)
theory Storage_Concurrent
  imports Storage_Theorems
begin

text \<open>
  Concurrent calls on one store (\<open>store.go\<close>).  Each call is a thread; a step of a thread is one
  stretch of code between two points where another thread can run: a section under \<open>s.mu\<close>, one call
  to the file system or the fetcher made without the lock, or one entry to or exit from
  \<open>singleflight.Group.Do\<close>.  A schedule says which thread moves next and what the clock reads, so a
  theorem about all schedules is about every interleaving.  The group is a parameter of the model;
  \<open>group_ok\<close> is what its documentation promises.
\<close>

section \<open>Calls, phases and the shared state\<close>

datatype store_call =
    FetchCall fetch_request
  | DeleteCall string
  | MarkUsedCall string
  | GetCall string
  | ListCall

datatype store_reply =
    FetchReply "(store_error, entry) result"
  | UnitReply "(store_error, unit) result"
  | GetReply "(store_error, entry) result"
  | ListReply "entry list"

text \<open>
  Where a thread stands.  The flag of \<open>Marking\<close> and \<open>Reading\<close> tells the double check of the leader
  (\<open>True\<close>) from the fast path.
\<close>

datatype phase =
    Calling store_call
  | Marking fetch_request entry bool
  | Reading fetch_request string bool
  | Entering fetch_request fetcher
  | Blocked fetch_request
  | Checking fetch_request fetcher
  | Making fetch_request fetcher
  | Fetching fetch_request fetcher
  | Cleaning fetch_request fetch_error
  | Measuring fetch_request "string list"
  | Committing fetch_request entry
  | Finishing fetch_request "(store_error, entry) result"
  | Replied store_reply

text \<open>
  \<open>singleflight.Group\<close>: \<open>sf_enter\<close> is a call of \<open>Do\<close> with a key, which says whether the caller is to
  run the function; \<open>sf_leave\<close> is the end of the function.
\<close>

record 'g singleflight =
  sf_enter :: "'g \<Rightarrow> string \<Rightarrow> bool \<times> 'g"
  sf_leave :: "'g \<Rightarrow> string \<Rightarrow> 'g"
  sf_running :: "'g \<Rightarrow> string \<Rightarrow> bool"

text \<open>``Only one execution is in-flight for a given key at a time''.\<close>

definition group_ok :: "'g singleflight \<Rightarrow> bool" where
  "group_ok sf \<longleftrightarrow> (\<forall>g k.
     fst (sf_enter sf g k) = (\<not> sf_running sf g k) \<and>
     sf_running sf (snd (sf_enter sf g k)) = (sf_running sf g)(k := True) \<and>
     sf_running sf (sf_leave sf g k) = (sf_running sf g)(k := False))"

record 'g conc =
  cn_sys :: sys
  cn_group :: 'g
  cn_threads :: "phase list"

definition start :: "'g \<Rightarrow> store_call list \<Rightarrow> sys \<Rightarrow> 'g conc" where
  "start g calls s = \<lparr>cn_sys = s, cn_group = g, cn_threads = map Calling calls\<rparr>"

section \<open>Steps\<close>

text \<open>The first section of a call.  All operations but \<open>Fetch\<close> are one section under the lock.\<close>

fun begin_call :: "timestamp \<Rightarrow> store_call \<Rightarrow> sys \<Rightarrow> phase \<times> sys" where
  "begin_call now (FetchCall req) s =
     (if rq_source req = [] then (Replied (FetchReply (Inl SourceRequired)), s)
      else if rq_model_id req = [] then (Replied (FetchReply (Inl ModelIdRequired)), s)
      else case gm_get (st_fetchers (fst s)) (rq_source req) of
        None \<Rightarrow> (Replied (FetchReply (Inl (UnknownSource (rq_source req)))), s)
      | Some fetcher \<Rightarrow>
          if rq_source req = ''nfs'' \<and> rq_mount_source req = []
          then (Replied (FetchReply (Inl MountSourceRequired)), s)
          else case lookup_by_key (fst s) (rkey req) of
            Some existing \<Rightarrow> (Marking req existing False, s)
          | None \<Rightarrow> (Entering req fetcher, s))"
| "begin_call now (DeleteCall i) s = (case delete_model i s of (r, s') \<Rightarrow> (Replied (UnitReply r), s'))"
| "begin_call now (MarkUsedCall i) s = (case mark_used now i s of (r, s') \<Rightarrow> (Replied (UnitReply r), s'))"
| "begin_call now (GetCall i) s = (Replied (GetReply (get_model i s)), s)"
| "begin_call now ListCall s = (Replied (ListReply (list_models s)), s)"

text \<open>The end of the block that uses an entry: the fast path returns, the leader ends its function.\<close>

definition settle :: "bool \<Rightarrow> fetch_request \<Rightarrow> (store_error, entry) result \<Rightarrow> phase" where
  "settle leads req r = (if leads then Finishing req r else Replied (FetchReply r))"

text \<open>The steps that do not involve the group.\<close>

fun thread_step :: "(string \<Rightarrow> string) \<Rightarrow> timestamp \<Rightarrow> phase \<Rightarrow> sys \<Rightarrow> phase \<times> sys" where
  "thread_step sha256 now (Calling c) s = begin_call now c s"
| "thread_step sha256 now (Marking req existing leads) s =
     (case mark_used now (e_id existing) s of
        (Inl er, s') \<Rightarrow> (settle leads req (Inl er), s')
      | (Inr _, s') \<Rightarrow> (Reading req (e_id existing) leads, s'))"
| "thread_step sha256 now (Reading req i leads) s =
     (settle leads req
        (Inr (case gm_get (st_entries (fst s)) i of None \<Rightarrow> zero_entry | Some e \<Rightarrow> e)), s)"
| "thread_step sha256 now (Checking req fetcher) s =
     (case lookup_by_key (fst s) (rkey req) of
        Some existing \<Rightarrow> (Marking req existing True, s)
      | None \<Rightarrow> (Making req fetcher, s))"
| "thread_step sha256 now (Making req fetcher) (st, w) =
     (case with_path (dest_of sha256 st req) mkdir_all w of
        (Inl e, w') \<Rightarrow> (Finishing req (Inl (CreateDest e)), (st, w'))
      | (Inr _, w') \<Rightarrow> (Fetching req fetcher, (st, w')))"
| "thread_step sha256 now (Fetching req fetcher) (st, w) =
     (case fetcher req (dest_of sha256 st req) w of
        (Inl e, w') \<Rightarrow>
          (if rq_dest req = [] then Cleaning req e else Finishing req (Inl (FetcherFailed e)), (st, w'))
      | (Inr files, w') \<Rightarrow> (Measuring req files, (st, w')))"
| "thread_step sha256 now (Cleaning req e) (st, w) =
     (Finishing req (Inl (FetcherFailed e)),
      (st, snd (remove_all_path (dest_of sha256 st req) w)))"
| "thread_step sha256 now (Measuring req files) (st, w) =
     (case measure_tree (dest_of sha256 st req) w of
        (Inl e, w') \<Rightarrow> (Finishing req (Inl (Measure e)), (st, w'))
      | (Inr (sz, found), w') \<Rightarrow>
          (Committing req (new_entry sha256 st now req sz (if files = [] then found else files)),
           (st, w')))"
| "thread_step sha256 now (Committing req e) (st, w) =
     (case save_index (put_entry e st) w of
        (Inl er, w') \<Rightarrow> (Finishing req (Inl er), (drop_entry (e_id e) e (put_entry e st), w'))
      | (Inr _, w') \<Rightarrow> (Finishing req (Inr e), (put_entry e st, w')))"
| "thread_step sha256 now ph s = (ph, s)"

text \<open>The end of a flight hands the result of the leader to every caller blocked on its key.\<close>

fun release :: "string \<Rightarrow> (store_error, entry) result \<Rightarrow> phase \<Rightarrow> phase" where
  "release k r (Blocked req) = (if rkey req = k then Replied (FetchReply r) else Blocked req)"
| "release k r ph = ph"

definition advance ::
  "'g singleflight \<Rightarrow> (string \<Rightarrow> string) \<Rightarrow> nat \<times> timestamp \<Rightarrow> 'g conc \<Rightarrow> 'g conc" where
  "advance sf sha256 mv c =
     (case mv of (i, now) \<Rightarrow>
        if length (cn_threads c) \<le> i then c
        else case cn_threads c ! i of
          Entering req fetcher \<Rightarrow>
            (case sf_enter sf (cn_group c) (rkey req) of
               (leads, g') \<Rightarrow>
                 c\<lparr>cn_group := g',
                   cn_threads := (cn_threads c)[i := if leads then Checking req fetcher else Blocked req]\<rparr>)
        | Finishing req r \<Rightarrow>
            c\<lparr>cn_group := sf_leave sf (cn_group c) (rkey req),
              cn_threads := map (release (rkey req) r) ((cn_threads c)[i := Replied (FetchReply r)])\<rparr>
        | ph \<Rightarrow>
            (case thread_step sha256 now ph (cn_sys c) of
               (ph', s') \<Rightarrow> c\<lparr>cn_sys := s', cn_threads := (cn_threads c)[i := ph']\<rparr>))"

definition run_schedule ::
  "'g singleflight \<Rightarrow> (string \<Rightarrow> string) \<Rightarrow> (nat \<times> timestamp) list \<Rightarrow> 'g conc \<Rightarrow> 'g conc" where
  "run_schedule sf sha256 mvs c = fold (advance sf sha256) mvs c"

section \<open>The flights\<close>

text \<open>The key whose flight a thread leads, and the key whose flight it waits for.\<close>

fun leading :: "phase \<Rightarrow> string option" where
  "leading (Marking req existing leads) = (if leads then Some (rkey req) else None)"
| "leading (Reading req i leads) = (if leads then Some (rkey req) else None)"
| "leading (Checking req fetcher) = Some (rkey req)"
| "leading (Making req fetcher) = Some (rkey req)"
| "leading (Fetching req fetcher) = Some (rkey req)"
| "leading (Cleaning req e) = Some (rkey req)"
| "leading (Measuring req files) = Some (rkey req)"
| "leading (Committing req e) = Some (rkey req)"
| "leading (Finishing req r) = Some (rkey req)"
| "leading ph = None"

fun blocked_on :: "phase \<Rightarrow> string option" where
  "blocked_on (Blocked req) = Some (rkey req)"
| "blocked_on ph = None"

text \<open>A thread that only looks at the store, and the two that meet the group.\<close>

fun at_group :: "phase \<Rightarrow> bool" where
  "at_group (Entering req fetcher) = True"
| "at_group (Finishing req r) = True"
| "at_group ph = False"

lemma advance_idle: "length (cn_threads c) \<le> i \<Longrightarrow> advance sf sha256 (i, now) c = c"
  by (simp add: advance_def)

lemma advance_local:
  "i < length (cn_threads c) \<Longrightarrow> \<not> at_group (cn_threads c ! i) \<Longrightarrow>
   advance sf sha256 (i, now) c =
     c\<lparr>cn_sys := snd (thread_step sha256 now (cn_threads c ! i) (cn_sys c)),
       cn_threads := (cn_threads c)[i := fst (thread_step sha256 now (cn_threads c ! i) (cn_sys c))]\<rparr>"
  by (cases "cn_threads c ! i") (simp_all add: advance_def case_prod_unfold)

lemma advance_enter:
  "i < length (cn_threads c) \<Longrightarrow> cn_threads c ! i = Entering req fetcher \<Longrightarrow>
   advance sf sha256 (i, now) c =
     c\<lparr>cn_group := snd (sf_enter sf (cn_group c) (rkey req)),
       cn_threads := (cn_threads c)[i := if fst (sf_enter sf (cn_group c) (rkey req))
                                         then Checking req fetcher else Blocked req]\<rparr>"
  by (simp add: advance_def case_prod_unfold)

lemma advance_finish:
  "i < length (cn_threads c) \<Longrightarrow> cn_threads c ! i = Finishing req r \<Longrightarrow>
   advance sf sha256 (i, now) c =
     c\<lparr>cn_group := sf_leave sf (cn_group c) (rkey req),
       cn_threads := map (release (rkey req) r) ((cn_threads c)[i := Replied (FetchReply r)])\<rparr>"
  by (simp add: advance_def)

text \<open>The three kinds of step, as one rule for the inductions below.\<close>

lemma advance_induct [case_names idle local enter finish]:
  assumes "P c"
    and "\<And>i now. i < length (cn_threads c) \<Longrightarrow> \<not> at_group (cn_threads c ! i) \<Longrightarrow>
      P (c\<lparr>cn_sys := snd (thread_step sha256 now (cn_threads c ! i) (cn_sys c)),
           cn_threads := (cn_threads c)
             [i := fst (thread_step sha256 now (cn_threads c ! i) (cn_sys c))]\<rparr>)"
    and "\<And>i req fetcher. i < length (cn_threads c) \<Longrightarrow> cn_threads c ! i = Entering req fetcher \<Longrightarrow>
      P (c\<lparr>cn_group := snd (sf_enter sf (cn_group c) (rkey req)),
           cn_threads := (cn_threads c)[i := if fst (sf_enter sf (cn_group c) (rkey req))
                                             then Checking req fetcher else Blocked req]\<rparr>)"
    and "\<And>i req r. i < length (cn_threads c) \<Longrightarrow> cn_threads c ! i = Finishing req r \<Longrightarrow>
      P (c\<lparr>cn_group := sf_leave sf (cn_group c) (rkey req),
           cn_threads := map (release (rkey req) r) ((cn_threads c)[i := Replied (FetchReply r)])\<rparr>)"
  shows "P (advance sf sha256 mv c)"
proof -
  obtain i now where mv: "mv = (i, now)"
    by force
  consider "length (cn_threads c) \<le> i"
    | "i < length (cn_threads c)" "\<not> at_group (cn_threads c ! i)"
    | req fetcher where "i < length (cn_threads c)" "cn_threads c ! i = Entering req fetcher"
    | req r where "i < length (cn_threads c)" "cn_threads c ! i = Finishing req r"
    using at_group.elims(2) [of "cn_threads c ! i"] not_le by metis
  then show ?thesis
    by cases (use assms mv in \<open>simp_all add: advance_idle advance_local advance_enter advance_finish\<close>)
qed

lemma run_schedule_invariant:
  assumes "P c" and "\<And>c mv. P c \<Longrightarrow> P (advance sf sha256 mv c)"
  shows "P (run_schedule sf sha256 mvs c)"
  using assms by (induction mvs arbitrary: c) (simp_all add: run_schedule_def)

lemma thread_step_flight:
  "leading (fst (thread_step sha256 now ph s)) = leading ph \<and>
   blocked_on (fst (thread_step sha256 now ph s)) = blocked_on ph"
proof (cases "(sha256, now, ph, s)" rule: thread_step.cases)
  case (1 sha256' now' c s')
  then show ?thesis
    by (cases c) (auto simp: Let_def split: prod.split option.split)
qed (auto simp: settle_def split: prod.split sum.split option.split)

lemma thread_step_leading [simp]: "leading (fst (thread_step sha256 now ph s)) = leading ph"
  and thread_step_blocked [simp]: "blocked_on (fst (thread_step sha256 now ph s)) = blocked_on ph"
  using thread_step_flight [of sha256 now ph s] by simp_all

lemma release_leading [simp]: "leading (release k r ph) = leading ph"
  by (cases ph) simp_all

lemma release_blocked [simp]:
  "blocked_on (release k r ph) = (if blocked_on ph = Some k then None else blocked_on ph)"
  by (cases ph) simp_all

text \<open>What the phases and the group must agree on: which key each thread leads and waits for, which
  keys are in flight.\<close>

definition flights_agree ::
  "nat \<Rightarrow> (nat \<Rightarrow> string option) \<Rightarrow> (nat \<Rightarrow> string option) \<Rightarrow> (string \<Rightarrow> bool) \<Rightarrow> bool" where
  "flights_agree n L B R \<longleftrightarrow>
     (\<forall>k. R k \<longleftrightarrow> (\<exists>i < n. L i = Some k)) \<and>
     (\<forall>i < n. \<forall>j < n. \<forall>k. L i = Some k \<longrightarrow> L j = Some k \<longrightarrow> i = j) \<and>
     (\<forall>i < n. \<forall>k. B i = Some k \<longrightarrow> R k)"

lemma flights_agreeI:
  assumes "\<And>k. R k \<longleftrightarrow> (\<exists>i < n. L i = Some k)"
    and "\<And>i j k. i < n \<Longrightarrow> j < n \<Longrightarrow> L i = Some k \<Longrightarrow> L j = Some k \<Longrightarrow> i = j"
    and "\<And>i k. i < n \<Longrightarrow> B i = Some k \<Longrightarrow> R k"
  shows "flights_agree n L B R"
  using assms unfolding flights_agree_def by blast

lemma flights_running:
  "flights_agree n L B R \<Longrightarrow> R k \<longleftrightarrow> (\<exists>i < n. L i = Some k)"
  unfolding flights_agree_def by blast

lemma flights_unique:
  "flights_agree n L B R \<Longrightarrow> i < n \<Longrightarrow> j < n \<Longrightarrow> L i = Some k \<Longrightarrow> L j = Some k \<Longrightarrow> i = j"
  unfolding flights_agree_def by blast

lemma flights_blocked: "flights_agree n L B R \<Longrightarrow> i < n \<Longrightarrow> B i = Some k \<Longrightarrow> R k"
  unfolding flights_agree_def by blast

lemma flights_agree_lead:
  assumes agree: "flights_agree n L B R" and i: "i < n" "L i = None" "\<not> R k"
  shows "flights_agree n (L(i := Some k)) B (R(k := True))"
proof (rule flights_agreeI)
  note R = flights_running [OF agree]
  show "(R(k := True)) k' \<longleftrightarrow> (\<exists>j < n. (L(i := Some k)) j = Some k')" for k'
    using R [of k'] i by (cases "k' = k") (auto, metis option.distinct(1))
  show "j = j'" if "j < n" "j' < n" "(L(i := Some k)) j = Some k'" "(L(i := Some k)) j' = Some k'" for j j' k'
    using flights_unique [OF agree that(1,2), of k'] R [of k] i that by (auto split: if_splits)
  show "(R(k := True)) k'" if "j < n" "B j = Some k'" for j k'
    using flights_blocked [OF agree that] by simp
qed

lemma flights_agree_block:
  assumes agree: "flights_agree n L B R" and "R k"
  shows "flights_agree n L (B(i := Some k)) R"
proof (rule flights_agreeI)
  show "R k'" if "j < n" "(B(i := Some k)) j = Some k'" for j k'
    using flights_blocked [OF agree, of j k'] that assms(2) by (auto split: if_splits)
qed (rule flights_running [OF agree], blast intro: flights_unique [OF agree])

lemma flights_agree_end:
  assumes agree: "flights_agree n L B R" and i: "i < n" "L i = Some k"
  shows "flights_agree n (L(i := None)) (\<lambda>j. if B j = Some k then None else B j) (R(k := False))"
proof (rule flights_agreeI)
  note one = flights_unique [OF agree]
  show "(R(k := False)) k' \<longleftrightarrow> (\<exists>j < n. (L(i := None)) j = Some k')" for k'
    using flights_running [OF agree, of k'] one i by (cases "k' = k") (auto, metis option.inject)
  show "j = j'" if "j < n" "j' < n" "(L(i := None)) j = Some k'" "(L(i := None)) j' = Some k'" for j j' k'
    using one [OF that(1,2), of k'] that by (auto split: if_splits)
  show "(R(k := False)) k'" if "j < n" "(if B j = Some k then None else B j) = Some k'" for j k'
    using flights_blocked [OF agree, of j k'] that by (auto split: if_splits)
qed

definition flight_inv :: "'g singleflight \<Rightarrow> 'g conc \<Rightarrow> bool" where
  [inv_defs]: "flight_inv sf c \<longleftrightarrow>
     flights_agree (length (cn_threads c)) (\<lambda>i. leading (cn_threads c ! i))
       (\<lambda>i. blocked_on (cn_threads c ! i)) (sf_running sf (cn_group c))"

lemma nth_update_fun:
  "i < length xs \<Longrightarrow> (\<lambda>j. f (xs[i := x] ! j)) = (\<lambda>j. f (xs ! j))(i := f x)"
  by (auto simp: fun_eq_iff)

lemma flights_agree_cong:
  assumes "n' = n" and "\<And>i. i < n \<Longrightarrow> L' i = L i" and "\<And>i. i < n \<Longrightarrow> B' i = B i" and "R' = R"
  shows "flights_agree n' L' B' R' = flights_agree n L B R"
  using assms by (simp add: flights_agree_def cong: conj_cong)

lemma flight_inv_start:
  "\<forall>k. \<not> sf_running sf g k \<Longrightarrow> flight_inv sf (start g calls s)"
  by (simp add: flight_inv_def flights_agree_def start_def)

lemma flight_inv_advance:
  assumes "group_ok sf" and "flight_inv sf c"
  shows "flight_inv sf (advance sf sha256 mv c)"
proof (induction rule: advance_induct)
  case idle
  show ?case by (rule assms(2))
next
  case (local i now)
  then show ?case
    using assms(2) by (simp add: flight_inv_def nth_update_fun fun_upd_idem)
next
  case (enter i req fetcher)
  let ?k = "rkey req" and ?R = "sf_running sf (cn_group c)"
  have sf: "fst (sf_enter sf (cn_group c) ?k) = (\<not> ?R ?k)"
    "sf_running sf (snd (sf_enter sf (cn_group c) ?k)) = ?R(?k := True)"
    using assms(1) by (simp_all add: group_ok_def)
  note agree = assms(2) [unfolded flight_inv_def]
  show ?case
  proof (cases "?R ?k")
    case True
    with flights_agree_block [OF agree True, of i] enter show ?thesis
      by (simp add: flight_inv_def sf nth_update_fun fun_upd_idem) (simp add: fun_upd_def)
  next
    case False
    with flights_agree_lead [OF agree enter(1) _ False] enter show ?thesis
      by (simp add: flight_inv_def sf nth_update_fun fun_upd_idem) (simp add: fun_upd_def)
  qed
next
  case (finish i req r)
  let ?ts = "map (release (rkey req) r) ((cn_threads c)[i := Replied (FetchReply r)])"
  have "sf_running sf (sf_leave sf (cn_group c) (rkey req)) =
      (sf_running sf (cn_group c))(rkey req := False)"
    using assms(1) by (simp add: group_ok_def)
  moreover have "leading (?ts ! j) = ((\<lambda>j. leading (cn_threads c ! j))(i := None)) j"
    and "blocked_on (?ts ! j) =
      (if blocked_on (cn_threads c ! j) = Some (rkey req) then None else blocked_on (cn_threads c ! j))"
    if "j < length (cn_threads c)" for j
    using that finish by (auto simp: nth_list_update)
  ultimately show ?case
    using flights_agree_end [OF assms(2) [unfolded flight_inv_def] finish(1), of "rkey req"] finish
    by (simp add: flight_inv_def cong: flights_agree_cong)
qed

section \<open>Every call returns\<close>

text \<open>A bound on the steps a thread has left; a blocked thread has none of its own.\<close>

fun steps_left :: "phase \<Rightarrow> nat" where
  "steps_left (Calling c) = 9"
| "steps_left (Entering req fetcher) = 8"
| "steps_left (Checking req fetcher) = 7"
| "steps_left (Making req fetcher) = 6"
| "steps_left (Fetching req fetcher) = 5"
| "steps_left (Measuring req files) = 4"
| "steps_left (Marking req existing leads) = 4"
| "steps_left (Committing req e) = 3"
| "steps_left (Reading req i leads) = 3"
| "steps_left (Cleaning req e) = 3"
| "steps_left (Finishing req r) = 2"
| "steps_left (Blocked req) = 1"
| "steps_left (Replied rep) = 0"

definition work :: "'g conc \<Rightarrow> nat" where
  "work c = sum_list (map steps_left (cn_threads c))"

definition all_replied :: "'g conc \<Rightarrow> bool" where
  "all_replied c \<longleftrightarrow> (\<forall>ph \<in> set (cn_threads c). \<exists>rep. ph = Replied rep)"

lemma thread_step_left:
  "thread_step sha256 now ph s = (ph, s) \<or>
   steps_left (fst (thread_step sha256 now ph s)) < steps_left ph"
proof (cases "(sha256, now, ph, s)" rule: thread_step.cases)
  case (1 sha256' now' c s')
  then show ?thesis
    by (cases c) (auto simp: Let_def split: prod.split option.split)
qed (auto simp: settle_def split: prod.split sum.split option.split)

lemma thread_step_stuck:
  assumes "thread_step sha256 now ph s = (ph, s)" and "\<not> at_group ph"
  shows "blocked_on ph \<noteq> None \<or> (\<exists>rep. ph = Replied rep)"
proof (cases "(sha256, now, ph, s)" rule: thread_step.cases)
  case (1 sha256' now' c s')
  with assms(1) show ?thesis
    by (cases c) (auto simp: Let_def split: prod.splits option.splits if_splits)
qed (use assms in \<open>auto simp: settle_def split: prod.splits sum.splits option.splits if_splits\<close>)

lemma sum_list_update_less:
  fixes f :: "'a \<Rightarrow> nat"
  assumes "i < length xs" and "f x < f (xs ! i)"
  shows "sum_list (map f (xs[i := x])) < sum_list (map f xs)"
  using assms elem_le_sum_list [of i "map f xs"]
  by (simp add: map_update sum_list_update)

lemma release_left: "steps_left (release k r ph) \<le> steps_left ph"
  by (cases ph) simp_all

lemma work_advance: "advance sf sha256 mv c = c \<or> work (advance sf sha256 mv c) < work c"
proof (induction rule: advance_induct)
  case (local i now)
  let ?ph = "cn_threads c ! i"
  show ?case
    using thread_step_left [of sha256 now ?ph "cn_sys c"]
  proof
    assume "thread_step sha256 now ?ph (cn_sys c) = (?ph, cn_sys c)"
    then show ?thesis
      by (cases c) simp
  next
    assume "steps_left (fst (thread_step sha256 now ?ph (cn_sys c))) < steps_left ?ph"
    with local(1) show ?thesis
      by (simp add: work_def sum_list_update_less)
  qed
next
  case (enter i req fetcher)
  then show ?case
    by (simp add: work_def sum_list_update_less)
next
  case (finish i req r)
  let ?ts = "(cn_threads c)[i := Replied (FetchReply r)]"
  have "sum_list (map (steps_left \<circ> release (rkey req) r) ?ts) \<le> sum_list (map steps_left ?ts)"
    by (rule sum_list_mono) (simp add: release_left)
  also have "\<dots> < sum_list (map steps_left (cn_threads c))"
    using finish by (simp add: sum_list_update_less)
  finally show ?case
    by (simp add: work_def)
qed simp

text \<open>There is no deadlock: a blocked caller has a leader, and a leader can always move.\<close>

lemma no_deadlock:
  assumes "flight_inv sf c" and "\<not> all_replied c"
  shows "\<exists>i < length (cn_threads c). \<forall>now. advance sf sha256 (i, now) c \<noteq> c"
proof -
  have can: "advance sf sha256 (i, now) c \<noteq> c"
    if i: "i < length (cn_threads c)" and "blocked_on (cn_threads c ! i) = None"
      and "\<nexists>rep. cn_threads c ! i = Replied rep" for i now
  proof (cases "at_group (cn_threads c ! i)")
    case True
    then consider req fetcher where "cn_threads c ! i = Entering req fetcher"
      | req r where "cn_threads c ! i = Finishing req r"
      by (auto elim: at_group.elims)
    then have "cn_threads (advance sf sha256 (i, now) c) ! i \<noteq> cn_threads c ! i"
      using i by cases (auto simp: advance_enter advance_finish)
    then show ?thesis
      by metis
  next
    case False
    then have "thread_step sha256 now (cn_threads c ! i) (cn_sys c) \<noteq> (cn_threads c ! i, cn_sys c)"
      using thread_step_stuck that(2,3) by blast
    moreover have "cn_threads (advance sf sha256 (i, now) c) ! i =
        fst (thread_step sha256 now (cn_threads c ! i) (cn_sys c))"
      and "cn_sys (advance sf sha256 (i, now) c) =
        snd (thread_step sha256 now (cn_threads c ! i) (cn_sys c))"
      using i False by (simp_all add: advance_local)
    ultimately show ?thesis
      by (metis prod.collapse)
  qed
  obtain i where i: "i < length (cn_threads c)" "\<nexists>rep. cn_threads c ! i = Replied rep"
    using assms(2) by (auto simp: all_replied_def in_set_conv_nth)
  show ?thesis
  proof (cases "blocked_on (cn_threads c ! i)")
    case None
    with can i show ?thesis
      by blast
  next
    case (Some k)
    note agree = assms(1) [unfolded flight_inv_def]
    obtain j where j: "j < length (cn_threads c)" "leading (cn_threads c ! j) = Some k"
      using flights_blocked [OF agree i(1) Some] flights_running [OF agree] by blast
    then have "blocked_on (cn_threads c ! j) = None" "\<nexists>rep. cn_threads c ! j = Replied rep"
      by (cases "cn_threads c ! j"; simp)+
    with can j(1) show ?thesis
      by blast
  qed
qed

lemma run_schedule_simps [simp]:
  "run_schedule sf sha256 [] c = c"
  "run_schedule sf sha256 (mv # mvs) c = run_schedule sf sha256 mvs (advance sf sha256 mv c)"
  "run_schedule sf sha256 (mvs @ mvs') c = run_schedule sf sha256 mvs' (run_schedule sf sha256 mvs c)"
  by (simp_all add: run_schedule_def)

lemma work_schedule: "run_schedule sf sha256 mvs c = c \<or> work (run_schedule sf sha256 mvs c) < work c"
proof (induction mvs arbitrary: c)
  case (Cons mv mvs)
  show ?case
    using Cons.IH [of "advance sf sha256 mv c"] work_advance [of sf sha256 mv c] by auto
qed simp

lemma work_round:
  assumes "i \<in> fst ` set mvs" and "\<forall>now. advance sf sha256 (i, now) c \<noteq> c"
  shows "work (run_schedule sf sha256 mvs c) < work c"
  using assms
proof (induction mvs)
  case (Cons mv mvs)
  show ?case
  proof (cases "advance sf sha256 mv c = c")
    case True
    with Cons.prems have "i \<in> fst ` set mvs"
      by (cases mv) auto
    with True Cons show ?thesis
      by simp
  next
    case False
    then have "work (advance sf sha256 mv c) < work c"
      using work_advance by blast
    with work_schedule [of sf sha256 mvs "advance sf sha256 mv c"] show ?thesis
      by auto
  qed
qed simp

lemma cn_threads_length [simp]:
  "length (cn_threads (advance sf sha256 mv c)) = length (cn_threads c)"
  by (induction rule: advance_induct) simp_all

lemma run_schedule_length [simp]:
  "length (cn_threads (run_schedule sf sha256 mvs c)) = length (cn_threads c)"
  by (induction mvs arbitrary: c) simp_all

lemma all_replied_work: "all_replied c \<longleftrightarrow> work c = 0"
proof -
  have "steps_left ph = 0 \<longleftrightarrow> (\<exists>rep. ph = Replied rep)" for ph
    by (cases ph) simp_all
  then show ?thesis
    by (simp add: work_def all_replied_def)
qed

lemma rounds_finish:
  assumes "group_ok sf" and "flight_inv sf c" and "work c \<le> length rounds"
    and "\<forall>mvs \<in> set rounds. {..< length (cn_threads c)} \<subseteq> fst ` set mvs"
  shows "all_replied (run_schedule sf sha256 (concat rounds) c)"
  using assms
proof (induction rounds arbitrary: c)
  case Nil
  then show ?case
    by (simp add: all_replied_work)
next
  case (Cons mvs rounds)
  let ?c = "run_schedule sf sha256 mvs c"
  have inv: "flight_inv sf ?c"
    using Cons.prems(2) by (rule run_schedule_invariant) (rule flight_inv_advance [OF Cons.prems(1)])
  have "work ?c \<le> length rounds"
  proof (cases "all_replied c")
    case True
    then show ?thesis
      using work_schedule [of sf sha256 mvs c] by (auto simp: all_replied_work)
  next
    case False
    then obtain i where "i < length (cn_threads c)" "\<forall>now. advance sf sha256 (i, now) c \<noteq> c"
      using no_deadlock [OF Cons.prems(2)] by metis
    with Cons.prems(4) work_round [of i mvs sf sha256 c] Cons.prems(3) show ?thesis
      by fastforce
  qed
  then show ?case
    using Cons.IH [OF Cons.prems(1) inv] Cons.prems(4) by simp
qed

section \<open>Calls do not disturb each other\<close>

abbreviation rid :: "(string \<Rightarrow> string) \<Rightarrow> fetch_request \<Rightarrow> string" where
  "rid sha256 req \<equiv> entry_id sha256 (rq_source req) (rq_model_id req)"

definition requests :: "store_call list \<Rightarrow> fetch_request set" where
  "requests calls = {req. FetchCall req \<in> set calls}"

text \<open>No two keys among the requests and the entries present share an id.\<close>

definition no_clash :: "(string \<Rightarrow> string) \<Rightarrow> fetch_request set \<Rightarrow> store \<Rightarrow> bool" where
  "no_clash sha256 reqs st \<longleftrightarrow>
     (\<forall>req \<in> reqs. collision_free sha256 st req \<and>
        (\<forall>req' \<in> reqs. rid sha256 req = rid sha256 req' \<longrightarrow> rkey req = rkey req'))"

definition store_ok :: "(string \<Rightarrow> string) \<Rightarrow> fetch_request set \<Rightarrow> store \<Rightarrow> bool" where
  [inv_defs]: "store_ok sha256 reqs st \<longleftrightarrow> store_inv st \<and> no_clash sha256 reqs st"

text \<open>An id that stands for a key, whoever writes the entry.\<close>

definition names :: "(string \<Rightarrow> string) \<Rightarrow> fetch_request set \<Rightarrow> store \<Rightarrow> string \<Rightarrow> string \<Rightarrow> bool" where
  "names sha256 reqs st i k \<longleftrightarrow>
     (\<forall>req \<in> reqs. rid sha256 req = i \<longrightarrow> rkey req = k) \<and>
     (\<forall>e. gm_get (st_entries st) i = Some e \<longrightarrow> ekey e = k)"

text \<open>
  What a finished fetch returned.  With deletions about it is an entry of the requested key or the
  zero entry; without (\<open>keep\<close>) it is the staged entry, up to its time of use.
\<close>

definition result_ok :: "bool \<Rightarrow> store \<Rightarrow> string \<Rightarrow> (store_error, entry) result \<Rightarrow> bool" where
  "result_ok keep st k r \<longleftrightarrow>
     (\<forall>e. r = Inr e \<longrightarrow>
        (if keep then \<exists>t. staged st k = Some (e\<lparr>e_last_used_at := t\<rparr>)
         else ekey e = k \<or> e = zero_entry))"

definition found :: "bool \<Rightarrow> store \<Rightarrow> string \<Rightarrow> string \<Rightarrow> bool" where
  "found keep st k i \<longleftrightarrow> (keep \<longrightarrow> (\<exists>e. staged st k = Some e \<and> e_id e = i))"

fun thread_ok ::
  "bool \<Rightarrow> (string \<Rightarrow> string) \<Rightarrow> fetch_request set \<Rightarrow> store_call \<Rightarrow> store \<Rightarrow> phase \<Rightarrow> bool" where
  "thread_ok keep sha256 reqs call st (Calling c) = (c = call)"
| "thread_ok keep sha256 reqs call st (Marking req e leads) =
     (call = FetchCall req \<and> names sha256 reqs st (e_id e) (rkey req) \<and> found keep st (rkey req) (e_id e))"
| "thread_ok keep sha256 reqs call st (Reading req i leads) =
     (call = FetchCall req \<and> names sha256 reqs st i (rkey req) \<and> found keep st (rkey req) i)"
| "thread_ok keep sha256 reqs call st (Entering req fetcher) = (call = FetchCall req)"
| "thread_ok keep sha256 reqs call st (Blocked req) = (call = FetchCall req)"
| "thread_ok keep sha256 reqs call st (Checking req fetcher) = (call = FetchCall req)"
| "thread_ok keep sha256 reqs call st (Making req fetcher) =
     (call = FetchCall req \<and> staged st (rkey req) = None)"
| "thread_ok keep sha256 reqs call st (Fetching req fetcher) =
     (call = FetchCall req \<and> staged st (rkey req) = None)"
| "thread_ok keep sha256 reqs call st (Cleaning req e) = (call = FetchCall req)"
| "thread_ok keep sha256 reqs call st (Measuring req files) =
     (call = FetchCall req \<and> staged st (rkey req) = None)"
| "thread_ok keep sha256 reqs call st (Committing req e) =
     (call = FetchCall req \<and> staged st (rkey req) = None \<and> e_id e = rid sha256 req \<and> ekey e = rkey req)"
| "thread_ok keep sha256 reqs call st (Finishing req r) =
     (call = FetchCall req \<and> result_ok keep st (rkey req) r)"
| "thread_ok keep sha256 reqs call st (Replied rep) =
     (\<forall>r. rep = FetchReply r \<longrightarrow> (\<exists>req. call = FetchCall req \<and> result_ok keep st (rkey req) r))"

text \<open>What a step may do to the store, as the other threads see it; \<open>own\<close> is the key the thread
  that moved leads.\<close>

definition evolves ::
  "bool \<Rightarrow> string option \<Rightarrow> (string \<Rightarrow> string) \<Rightarrow> fetch_request set \<Rightarrow> store \<Rightarrow> store \<Rightarrow> bool" where
  "evolves keep own sha256 reqs st st' \<longleftrightarrow>
     store_ok sha256 reqs st' \<and>
     (\<forall>i e'. gm_get (st_entries st') i = Some e' \<longrightarrow>
        (\<exists>e. gm_get (st_entries st) i = Some e \<and> ekey e = ekey e') \<or>
        (\<exists>req \<in> reqs. rid sha256 req = i \<and> rkey req = ekey e')) \<and>
     (\<forall>k. staged st k = None \<longrightarrow> own \<noteq> Some k \<longrightarrow> staged st' k = None) \<and>
     (keep \<longrightarrow> (\<forall>k e. staged st k = Some e \<longrightarrow> (\<exists>t. staged st' k = Some (e\<lparr>e_last_used_at := t\<rparr>))))"

lemma entry_last_used_idem: "e\<lparr>e_last_used_at := e_last_used_at e\<rparr> = e"
  by simp

lemma names_stable:
  assumes "names sha256 reqs st i k" and "evolves keep own sha256 reqs st st'"
  shows "names sha256 reqs st' i k"
  unfolding names_def
proof (intro conjI allI impI)
  show "\<forall>req \<in> reqs. rid sha256 req = i \<longrightarrow> rkey req = k"
    using assms(1) by (simp add: names_def)
  fix e'
  assume "gm_get (st_entries st') i = Some e'"
  then consider e where "gm_get (st_entries st) i = Some e" "ekey e = ekey e'"
    | req where "req \<in> reqs" "rid sha256 req = i" "rkey req = ekey e'"
    using assms(2) unfolding evolves_def by blast
  then show "ekey e' = k"
    using assms(1) by cases (auto simp: names_def)
qed

lemma found_stable:
  assumes "found keep st k i" and "evolves keep own sha256 reqs st st'"
  shows "found keep st' k i"
proof (cases keep)
  case True
  with assms(1) obtain e where "staged st k = Some e" "e_id e = i"
    by (auto simp: found_def)
  with assms(2) True obtain t where "staged st' k = Some (e\<lparr>e_last_used_at := t\<rparr>)"
    unfolding evolves_def by blast
  with \<open>e_id e = i\<close> show ?thesis
    by (simp add: found_def)
qed (simp add: found_def)

lemma result_stable:
  assumes "result_ok keep st k r" and "evolves keep own sha256 reqs st st'"
  shows "result_ok keep st' k r"
proof (cases keep)
  case True
  have "\<exists>t. staged st' k = Some (e\<lparr>e_last_used_at := t\<rparr>)" if r: "r = Inr e" for e
  proof -
    obtain t where "staged st k = Some (e\<lparr>e_last_used_at := t\<rparr>)"
      using assms(1) r True by (auto simp: result_ok_def)
    then obtain t' where "staged st' k = Some (e\<lparr>e_last_used_at := t, e_last_used_at := t'\<rparr>)"
      using assms(2) True unfolding evolves_def by blast
    then show ?thesis
      by auto
  qed
  with True show ?thesis
    by (simp add: result_ok_def)
qed (use assms(1) in \<open>simp add: result_ok_def\<close>)

lemma absent_stable:
  "staged st k = None \<Longrightarrow> evolves keep own sha256 reqs st st' \<Longrightarrow> own \<noteq> Some k \<Longrightarrow> staged st' k = None"
  unfolding evolves_def by blast

lemma thread_ok_stable:
  assumes "thread_ok keep sha256 reqs call st ph" and ev: "evolves keep own sha256 reqs st st'"
    and "leading ph = None \<or> leading ph \<noteq> own"
  shows "thread_ok keep sha256 reqs call st' ph"
  using assms(1,3)
  by (cases ph)
    (auto intro: names_stable [OF _ ev] found_stable [OF _ ev] result_stable [OF _ ev]
      absent_stable [OF _ ev])

text \<open>Each way the sections change the two maps.\<close>

lemma no_clash_get:
  assumes "store_inv st"
  shows "no_clash sha256 reqs st \<longleftrightarrow>
    (\<forall>req \<in> reqs. (\<forall>e. gm_get (st_entries st) (rid sha256 req) = Some e \<longrightarrow> ekey e = rkey req) \<and>
       (\<forall>req' \<in> reqs. rid sha256 req = rid sha256 req' \<longrightarrow> rkey req = rkey req'))"
  using store_inv_maps [OF assms] by (auto simp: no_clash_def collision_free_def gm_get_iff)

lemma evolvesI:
  assumes "store_ok sha256 reqs st" and "store_inv st'"
    and entries: "\<And>i e'. gm_get (st_entries st') i = Some e' \<Longrightarrow>
      (\<exists>e. gm_get (st_entries st) i = Some e \<and> ekey e = ekey e') \<or>
      (\<exists>req \<in> reqs. rid sha256 req = i \<and> rkey req = ekey e')"
    and "\<And>k. staged st k = None \<Longrightarrow> own \<noteq> Some k \<Longrightarrow> staged st' k = None"
    and "\<And>k e. keep \<Longrightarrow> staged st k = Some e \<Longrightarrow> \<exists>t. staged st' k = Some (e\<lparr>e_last_used_at := t\<rparr>)"
  shows "evolves keep own sha256 reqs st st'"
proof -
  have old: "store_inv st" and clash: "no_clash sha256 reqs st"
    using assms(1) by (simp_all add: store_ok_def)
  note free = clash [unfolded no_clash_get [OF old]]
  have "ekey e = rkey req"
    if req: "req \<in> reqs" and e: "gm_get (st_entries st') (rid sha256 req) = Some e" for req e
  proof -
    consider e0 where "gm_get (st_entries st) (rid sha256 req) = Some e0" "ekey e0 = ekey e"
      | req' where "req' \<in> reqs" "rid sha256 req' = rid sha256 req" "rkey req' = ekey e"
      using entries [OF e] by blast
    then show ?thesis
    proof cases
      case 1
      have "ekey e0 = rkey req"
        using free req 1(1) by blast
      with 1(2) show ?thesis
        by (rule trans [OF sym])
    next
      case 2
      from free req have "rid sha256 req = rid sha256 req' \<longrightarrow> rkey req = rkey req'"
        using 2(1) by blast
      then have "rkey req = ekey e"
        using 2(2,3) by (metis (no_types))
      then show ?thesis
        by (rule sym)
    qed
  qed
  then have "no_clash sha256 reqs st'"
    using free unfolding no_clash_get [OF assms(2)] by blast
  then show ?thesis
    using assms(2-5) unfolding evolves_def store_ok_def by blast
qed

lemma evolves_same:
  assumes "store_ok sha256 reqs st" and "same_maps st st'" and "store_inv st'"
  shows "evolves keep own sha256 reqs st st'"
  using assms(1,3)
proof (rule evolvesI)
  show "\<exists>t. staged st' k = Some (e\<lparr>e_last_used_at := t\<rparr>)" if "staged st k = Some e" for k e
    using that same_maps_staged [OF assms(2)] by (metis entry_last_used_idem)
qed (use assms(2) same_maps_staged [OF assms(2)] in \<open>auto simp: same_maps_def\<close>)

lemma evolves_refl: "store_ok sha256 reqs st \<Longrightarrow> evolves keep own sha256 reqs st st"
  by (rule evolves_same) (simp_all add: store_ok_def)

lemma evolves_touch:
  assumes "store_ok sha256 reqs st" and "gm_get (st_entries st) i = Some e"
  shows "evolves keep own sha256 reqs st (touch now i e st)"
  using assms(1)
proof (rule evolvesI)
  have inv: "store_inv st"
    using assms(1) by (simp add: store_ok_def)
  note staged' = touch_staged [OF inv assms(2), of now]
  show "store_inv (touch now i e st)"
    using inv assms(2) by (rule touch_inv)
  have here: "staged st (ekey e) = Some e"
    using staged_iff [OF inv] store_inv_id [OF inv assms(2)] assms(2) by simp
  show "(\<exists>e. gm_get (st_entries st) j = Some e \<and> ekey e = ekey e') \<or>
      (\<exists>req \<in> reqs. rid sha256 req = j \<and> rkey req = ekey e')"
    if "gm_get (st_entries (touch now i e st)) j = Some e'" for j e'
    using that assms(2) by (auto simp: touch_def gomap_simps split: if_splits)
  show "staged (touch now i e st) k = None" if "staged st k = None" for k
    using that here by (auto simp: staged')
  show "\<exists>t. staged (touch now i e st) k = Some (e'\<lparr>e_last_used_at := t\<rparr>)"
    if k: "staged st k = Some e'" for k e'
  proof (cases "k = ekey e")
    case True
    with k here have "e' = e"
      by simp
    with True show ?thesis
      by (auto simp: staged')
  next
    case False
    with k show ?thesis
      by (simp add: staged') (metis entry_last_used_idem)
  qed
qed

lemma evolves_drop:
  assumes "store_ok sha256 reqs st" and "gm_get (st_entries st) i = Some e"
  shows "evolves False own sha256 reqs st (drop_entry i e st)"
  using assms(1)
proof (rule evolvesI)
  have inv: "store_inv st"
    using assms(1) by (simp add: store_ok_def)
  show "store_inv (drop_entry i e st)"
    using inv assms(2) by (rule drop_entry_inv)
  show "staged (drop_entry i e st) k = None" if "staged st k = None" for k
    using that by (simp add: drop_entry_staged [OF inv assms(2)])
qed (auto simp: drop_entry_def gomap_simps split: if_splits)

lemma absent_fits:
  assumes "store_inv st" and "staged st (ekey e) = None"
    and "\<forall>e'. gm_get (st_entries st) (e_id e) = Some e' \<longrightarrow> ekey e' = ekey e"
  shows "fits e st" and "gm_get (st_entries st) (e_id e) = None"
    and "gm_get (st_by_key st) (ekey e) = None"
proof -
  show n: "gm_get (st_entries st) (e_id e) = None"
  proof (rule ccontr)
    assume "gm_get (st_entries st) (e_id e) \<noteq> None"
    then obtain e' where e': "gm_get (st_entries st) (e_id e) = Some e'"
      by auto
    then have "staged st (ekey e) = Some e'"
      using staged_iff [OF assms(1)] store_inv_id [OF assms(1) e'] assms(3) by simp
    with assms(2) show False
      by simp
  qed
  show k: "gm_get (st_by_key st) (ekey e) = None"
  proof (rule ccontr)
    assume "gm_get (st_by_key st) (ekey e) \<noteq> None"
    then obtain i where i: "gm_get (st_by_key st) (ekey e) = Some i"
      by auto
    then obtain e' where "gm_get (st_entries st) i = Some e'"
      using store_inv_entry [OF assms(1)] by metis
    with i assms(2) show False
      by (simp add: staged_def lookup_by_key_def)
  qed
  show "fits e st"
    using n k by (simp add: fits_def)
qed

lemma evolves_put:
  assumes "store_ok sha256 reqs st" and "req \<in> reqs" and "e_id e = rid sha256 req"
    and "ekey e = rkey req" and "staged st (rkey req) = None"
  shows "evolves keep (Some (rkey req)) sha256 reqs st (put_entry e st)"
    and "staged (put_entry e st) (rkey req) = Some e"
    and "same_maps st (drop_entry (e_id e) e (put_entry e st))"
proof -
  have inv: "store_inv st" and clash: "no_clash sha256 reqs st"
    using assms(1) by (simp_all add: store_ok_def)
  have own: "\<forall>e'. gm_get (st_entries st) (e_id e) = Some e' \<longrightarrow> ekey e' = ekey e"
    using clash [unfolded no_clash_get [OF inv]] assms(2) unfolding assms(3,4) by blast
  have "staged st (ekey e) = None"
    using assms(4,5) by simp
  note absent = absent_fits [OF inv this own]
  note staged' = put_entry_staged [OF inv absent(1)]
  show "staged (put_entry e st) (rkey req) = Some e"
    by (simp add: staged' assms(4))
  show "same_maps st (drop_entry (e_id e) e (put_entry e st))"
    using absent(2,3) by (rule drop_put_same)
  show "evolves keep (Some (rkey req)) sha256 reqs st (put_entry e st)"
    using assms(1) put_entry_inv [OF inv absent(1)]
  proof (rule evolvesI)
    show "(\<exists>e. gm_get (st_entries st) i = Some e \<and> ekey e = ekey e') \<or>
        (\<exists>req \<in> reqs. rid sha256 req = i \<and> rkey req = ekey e')"
      if "gm_get (st_entries (put_entry e st)) i = Some e'" for i e'
      using that assms(2-4) by (auto simp: put_entry_def gomap_simps split: if_splits)
    show "staged (put_entry e st) k = None" if "staged st k = None" "Some (rkey req) \<noteq> Some k" for k
      using that assms(4) by (simp add: staged')
    show "\<exists>t. staged (put_entry e st) k = Some (e'\<lparr>e_last_used_at := t\<rparr>)"
      if k: "staged st k = Some e'" for k e'
    proof -
      have "k \<noteq> ekey e"
        using k assms(4,5) by auto
      with k show ?thesis
        by (simp add: staged') (metis entry_last_used_idem)
    qed
  qed
qed

section \<open>Every step keeps the store and its own promise\<close>

lemma mark_used_evolves:
  assumes "store_ok sha256 reqs st" and "mark_used now i (st, w) = (r, (st', w'))"
  shows "evolves keep own sha256 reqs st st'"
proof (cases "gm_get (st_entries st) i")
  case None
  with assms mark_used_missing [of st i now w] show ?thesis
    by (simp add: evolves_refl)
next
  case (Some e)
  with assms(2) have "st' = touch now i e st"
    by (simp add: mark_used_eq split: prod.splits)
  with evolves_touch [OF assms(1) Some] show ?thesis
    by simp
qed

lemma delete_evolves:
  assumes "store_ok sha256 reqs st" and "delete_model i (st, w) = (r, (st', w'))"
  shows "evolves False own sha256 reqs st st'"
proof (cases "gm_get (st_entries st) i")
  case None
  with assms show ?thesis
    by (simp add: delete_model_def evolves_refl)
next
  case (Some e)
  have inv: "store_inv st"
    using assms(1) by (simp add: store_ok_def)
  let ?restored = "(drop_entry i e st)
    \<lparr>st_entries := gm_set i e (st_entries (drop_entry i e st)),
     st_by_key := gm_set (ekey e) i (st_by_key (drop_entry i e st))\<rparr>"
  note restored = reinsert_same [OF inv Some]
  have "store_inv ?restored"
    using inv restored
    by (rule store_inv_same_maps) (simp_all add: drop_entry_def store_inv_maps [OF inv])
  then have "evolves False own sha256 reqs st ?restored"
    using assms(1) restored by (simp add: evolves_same)
  moreover have "st' \<in> {st, ?restored, drop_entry i e st}"
    using assms(2) by (auto simp: delete_model_eq [OF Some] split: prod.splits sum.splits)
  ultimately show ?thesis
    using evolves_refl [OF assms(1)] evolves_drop [OF assms(1) Some] by auto
qed

lemma present_names:
  assumes "store_ok sha256 reqs st" and "staged st k = Some e"
  shows "names sha256 reqs st (e_id e) k" and "found keep st k (e_id e)"
proof -
  have inv: "store_inv st" and clash: "no_clash sha256 reqs st"
    using assms(1) by (simp_all add: store_ok_def)
  have e: "gm_get (st_entries st) (e_id e) = Some e" and k: "ekey e = k"
    using staged_iff [OF inv] assms(2) by simp_all
  have "rkey req = k" if "req \<in> reqs" "rid sha256 req = e_id e" for req
    using clash [unfolded no_clash_get [OF inv]] that e k by metis
  then show "names sha256 reqs st (e_id e) k"
    unfolding names_def using e k by (metis option.inject)
  show "found keep st k (e_id e)"
    using assms(2) by (simp add: found_def)
qed

lemma begin_call_ok:
  assumes ok: "store_ok sha256 reqs st" and "keep \<longrightarrow> (\<forall>i. call \<noteq> DeleteCall i)"
    and "begin_call now call (st, w) = (ph', (st', w'))"
  shows "evolves keep own sha256 reqs st st' \<and> thread_ok keep sha256 reqs call st' ph'"
proof (cases call)
  case (FetchCall req)
  have st': "st' = st"
    using assms(3) FetchCall by (auto simp: Let_def split: if_splits option.splits)
  have "thread_ok keep sha256 reqs call st ph'"
    using assms(3) FetchCall present_names [OF ok, of "rkey req"]
    by (auto simp: staged_lookup result_ok_def split: if_splits option.splits)
  with st' evolves_refl [OF ok] show ?thesis
    by simp
next
  case (DeleteCall i)
  with assms delete_evolves [OF ok, of i w] show ?thesis
    by (cases keep) (auto split: prod.splits)
next
  case (MarkUsedCall i)
  with assms(3) mark_used_evolves [OF ok, of now i w] show ?thesis
    by (auto split: prod.splits)
next
  case (GetCall i)
  with assms(3) evolves_refl [OF ok] show ?thesis
    by auto
next
  case ListCall
  with assms(3) evolves_refl [OF ok] show ?thesis
    by auto
qed

lemma settle_ok:
  "thread_ok keep sha256 reqs call st (settle leads req r) \<longleftrightarrow>
     (if leads then call = FetchCall req \<and> result_ok keep st (rkey req) r
      else \<exists>req. call = FetchCall req \<and> result_ok keep st (rkey req) r)"
  by (simp add: settle_def)

lemma reading_ok:
  assumes "store_ok sha256 reqs st" and "names sha256 reqs st i k" and "found keep st k i"
  shows "result_ok keep st k
    (Inr (case gm_get (st_entries st) i of None \<Rightarrow> zero_entry | Some e \<Rightarrow> e))"
proof (cases keep)
  case True
  then obtain e where e: "staged st k = Some e" "e_id e = i"
    using assms(3) by (auto simp: found_def)
  then have "gm_get (st_entries st) i = Some e"
    using assms(1) staged_iff by (auto simp: store_ok_def)
  with e True show ?thesis
    by (simp add: result_ok_def) (metis entry_last_used_idem)
next
  case False
  with assms(2) show ?thesis
    by (auto simp: result_ok_def names_def split: option.split)
qed

lemma committing_ok:
  assumes ok: "store_ok sha256 reqs st" and req: "req \<in> reqs" "e_id e = rid sha256 req"
      "ekey e = rkey req" "staged st (rkey req) = None"
    and step: "thread_step sha256 now (Committing req e) (st, w) = (ph', (st', w'))"
  shows "evolves keep (Some (rkey req)) sha256 reqs st st' \<and>
    thread_ok keep sha256 reqs (FetchCall req) st' ph'"
proof (cases "save_index (put_entry e st) w")
  case (Pair r w1)
  note put = evolves_put [OF ok req]
  show ?thesis
  proof (cases r)
    case (Inl er)
    have inv: "store_inv st"
      using ok by (simp add: store_ok_def)
    have "st' = drop_entry (e_id e) e (put_entry e st)" "ph' = Finishing req (Inl er)"
      using step Pair Inl by simp_all
    moreover have "store_inv (drop_entry (e_id e) e (put_entry e st))"
      using inv put(3) by (rule store_inv_same_maps)
        (simp_all add: drop_entry_def put_entry_def store_inv_maps [OF inv])
    ultimately show ?thesis
      using evolves_same [OF ok put(3)] by (simp add: result_ok_def)
  next
    case (Inr u)
    have "st' = put_entry e st" "ph' = Finishing req (Inr e)"
      using step Pair Inr by simp_all
    moreover have "result_ok keep (put_entry e st) (rkey req) (Inr e)"
      using put(2) req(3) by (simp add: result_ok_def) (metis entry_last_used_idem)
    ultimately show ?thesis
      using put(1) by simp
  qed
qed

lemma new_entry_names [simp]:
  "e_id (new_entry sha256 st now req sz files) = rid sha256 req"
  "ekey (new_entry sha256 st now req sz files) = rkey req"
  by (simp_all add: new_entry_def)

lemma thread_step_ok:
  assumes ok: "store_ok sha256 reqs st" and th: "thread_ok keep sha256 reqs call st ph"
    and reqs: "\<forall>req. call = FetchCall req \<longrightarrow> req \<in> reqs"
    and keep: "keep \<longrightarrow> (\<forall>i. call \<noteq> DeleteCall i)"
    and step: "thread_step sha256 now ph (st, w) = (ph', (st', w'))"
  shows "evolves keep (leading ph) sha256 reqs st st' \<and> thread_ok keep sha256 reqs call st' ph'"
proof (cases ph)
  case (Calling c)
  with th step begin_call_ok [OF ok keep] show ?thesis
    by simp
next
  case (Marking req e leads)
  obtain r st1 w1 where m: "mark_used now (e_id e) (st, w) = (r, (st1, w1))"
    by (metis prod.exhaust)
  have ev: "evolves keep (leading ph) sha256 reqs st st1"
    using ok m by (rule mark_used_evolves)
  from Marking th have t: "call = FetchCall req" "names sha256 reqs st (e_id e) (rkey req)"
    "found keep st (rkey req) (e_id e)"
    by simp_all
  show ?thesis
    using step Marking m ev t(1) names_stable [OF t(2) ev] found_stable [OF t(3) ev]
    by (cases r) (auto simp: settle_ok result_ok_def)
next
  case (Reading req i leads)
  with th step reading_ok [OF ok, of i "rkey req" keep] evolves_refl [OF ok] show ?thesis
    by (auto simp: settle_ok)
next
  case (Checking req fetcher)
  with th step present_names [OF ok, of "rkey req"] evolves_refl [OF ok] show ?thesis
    by (auto simp: staged_lookup split: option.splits)
next
  case (Committing req e)
  with th step reqs committing_ok [OF ok, of req e now w ph' st' w' keep] show ?thesis
    by simp
qed (use th step evolves_refl [OF ok] in
    \<open>auto simp: result_ok_def split: prod.splits sum.splits if_splits\<close>)

definition conc_inv ::
  "bool \<Rightarrow> 'g singleflight \<Rightarrow> (string \<Rightarrow> string) \<Rightarrow> store_call list \<Rightarrow> 'g conc \<Rightarrow> bool" where
  [inv_defs]: "conc_inv keep sf sha256 calls c \<longleftrightarrow>
     flight_inv sf c \<and> store_ok sha256 (requests calls) (fst (cn_sys c)) \<and>
     length (cn_threads c) = length calls \<and>
     (\<forall>i < length calls. thread_ok keep sha256 (requests calls) (calls ! i) (fst (cn_sys c))
        (cn_threads c ! i))"

lemma conc_invD:
  assumes "conc_inv keep sf sha256 calls c"
  shows "flight_inv sf c" and "store_ok sha256 (requests calls) (fst (cn_sys c))"
    and "length (cn_threads c) = length calls"
    and "i < length calls \<Longrightarrow>
      thread_ok keep sha256 (requests calls) (calls ! i) (fst (cn_sys c)) (cn_threads c ! i)"
  using assms by (simp_all add: conc_inv_def)

lemma conc_inv_start:
  assumes "\<forall>k. \<not> sf_running sf g k" and "store_inv st" and "no_clash sha256 (requests calls) st"
  shows "conc_inv keep sf sha256 calls (start g calls (st, w))"
  using assms flight_inv_start [of sf g calls "(st, w)"]
  by (simp add: conc_inv_def store_ok_def) (simp add: start_def)

lemma release_ok:
  assumes "thread_ok keep sha256 reqs call st ph" and "result_ok keep st k r"
  shows "thread_ok keep sha256 reqs call st (release k r ph)"
  using assms by (cases ph) auto

lemma conc_inv_advance:
  assumes sf: "group_ok sf" and inv: "conc_inv keep sf sha256 calls c"
    and keep: "keep \<longrightarrow> (\<forall>i. DeleteCall i \<notin> set calls)"
  shows "conc_inv keep sf sha256 calls (advance sf sha256 mv c)"
proof -
  note parts = conc_invD [OF inv]
  have flight: "flight_inv sf (advance sf sha256 mv c)"
    by (rule flight_inv_advance [OF sf parts(1)])
  let ?ok = "\<lambda>c'. store_ok sha256 (requests calls) (fst (cn_sys c')) \<and>
    (\<forall>j < length calls. thread_ok keep sha256 (requests calls) (calls ! j) (fst (cn_sys c'))
       (cn_threads c' ! j))"
  have "?ok (advance sf sha256 mv c)"
  proof (induction rule: advance_induct)
    case idle
    show ?case
      using parts by blast
  next
    case (local i now)
    let ?st = "fst (cn_sys c)" and ?ph = "cn_threads c ! i"
    obtain ph' st' w' where step: "thread_step sha256 now ?ph (cn_sys c) = (ph', (st', w'))"
      by (metis prod.exhaust)
    have i: "i < length calls"
      using local(1) parts(3) by simp
    then have member: "calls ! i \<in> set calls"
      by simp
    have "thread_step sha256 now ?ph (?st, snd (cn_sys c)) = (ph', (st', w'))"
      using step by simp
    from thread_step_ok [OF parts(2) parts(4) [OF i] _ _ this] member keep
    have ev: "evolves keep (leading ?ph) sha256 (requests calls) ?st st'"
      and here: "thread_ok keep sha256 (requests calls) (calls ! i) st' ph'"
      by (force simp: requests_def)+
    have "thread_ok keep sha256 (requests calls) (calls ! j) st' (cn_threads c ! j)"
      if j: "j < length calls" "j \<noteq> i" for j
    proof (rule thread_ok_stable [OF parts(4) [OF j(1)] ev])
      show "leading (cn_threads c ! j) = None \<or> leading (cn_threads c ! j) \<noteq> leading ?ph"
        using flights_unique [OF parts(1) [unfolded flight_inv_def], of j i] j i parts(3)
        by (cases "leading (cn_threads c ! j)") auto
    qed
    with here ev show ?case
      using step i parts(3) by (auto simp: evolves_def nth_list_update)
  next
    case (enter i req fetcher)
    with parts(2,3) parts(4) [of i] parts(4) show ?case
      by (auto simp: nth_list_update)
  next
    case (finish i req r)
    have "thread_ok keep sha256 (requests calls) (calls ! i) (fst (cn_sys c)) (Finishing req r)"
      using parts(4) [of i] finish parts(3) by simp
    then have r: "calls ! i = FetchCall req" "result_ok keep (fst (cn_sys c)) (rkey req) r"
      by simp_all
    with finish parts(2,3) parts(4) release_ok show ?case
      by (auto simp: nth_list_update)
  qed
  with flight parts(3) show ?thesis
    by (simp add: conc_inv_def)
qed

lemma conc_inv_run:
  assumes "group_ok sf" and "\<forall>k. \<not> sf_running sf g k" and "store_inv st"
    and "no_clash sha256 (requests calls) st" and "keep \<longrightarrow> (\<forall>i. DeleteCall i \<notin> set calls)"
  shows "conc_inv keep sf sha256 calls (run_schedule sf sha256 mvs (start g calls (st, w)))"
  using conc_inv_start [OF assms(2-4)]
  by (rule run_schedule_invariant) (rule conc_inv_advance [OF assms(1) _ assms(5)])

end
