(* ===== verification/Storage_Schedules.thy ===== *)
theory Storage_Schedules
  imports Storage_Concurrent
begin

text \<open>
  What concurrent callers of the store may rely on, for every interleaving of their calls: a call left
  alone does what the sequential \<open>fetch\<close> does, the fetcher never runs twice at once for a key or for
  a key that is staged, every call returns, and what a fetch returns is staged unless someone
  deletes.  The last section is the interleaving with a deletion in which \<open>Fetch\<close> returns no entry and
  no error.
\<close>

section \<open>An example group\<close>

text \<open>The keys in flight as a list.\<close>

definition flight_table :: "string list singleflight" where
  "flight_table = \<lparr>sf_enter = (\<lambda>g k. if k \<in> set g then (False, g) else (True, k # g)),
     sf_leave = (\<lambda>g k. removeAll k g), sf_running = (\<lambda>g k. k \<in> set g)\<rparr>"

lemma flight_table_ok: "group_ok flight_table"
  by (auto simp: group_ok_def flight_table_def fun_eq_iff)

lemma flight_table_empty: "\<forall>k. \<not> sf_running flight_table [] k"
  by (simp add: flight_table_def)

definition ex_calls :: "store_call list" where
  "ex_calls = [FetchCall (ex_request ''new''), FetchCall (ex_request ''new'')]"

lemma ex_no_clash: "no_clash ex_sha (requests ex_calls) ex_store"
  by (auto simp: no_clash_def requests_def ex_calls_def ex_collision_free)

text \<open>Two callers of one model: after six moves the first runs the fetcher and the second waits.\<close>

definition ex_moves :: "(nat \<times> timestamp) list" where
  "ex_moves = [(0, ex_now), (1, ex_now), (0, ex_now), (1, ex_now), (0, ex_now), (0, ex_now)]"

text \<open>Two callers of a model that is staged; the second marks the entry after the first.\<close>

definition ex_hits :: "store_call list" where
  "ex_hits = [FetchCall (ex_request ''m''), FetchCall (ex_request ''m'')]"

definition ex_hit_moves :: "(nat \<times> timestamp) list" where
  "ex_hit_moves = [(0, ex_now), (1, ex_now), (0, ex_now), (0, ex_now), (1, ''2025-06-01T12:00:01Z''), (1, ex_now)]"

lemma ex_hits_no_clash: "no_clash ex_sha (requests ex_hits) ex_store"
  by (auto simp: no_clash_def requests_def ex_hits_def ex_collision_free)

definition fetched :: "phase \<Rightarrow> entry option" where
  "fetched ph = (case ph of Replied (FetchReply (Inr e)) \<Rightarrow> Some e | _ \<Rightarrow> None)"

definition fetches :: "phase \<Rightarrow> string option" where
  "fetches ph = (case ph of Fetching req f \<Rightarrow> Some (rkey req) | _ \<Rightarrow> None)"

lemma fetched_iff: "fetched ph = Some e \<longleftrightarrow> ph = Replied (FetchReply (Inr e))"
  by (simp add: fetched_def split: phase.split store_reply.split sum.split)

lemma fetches_iff: "fetches ph = Some k \<longleftrightarrow> (\<exists>req f. ph = Fetching req f \<and> rkey req = k)"
  by (auto simp: fetches_def split: phase.splits)

lemma ex_run_fetching:
  "map fetches (cn_threads (run_schedule flight_table ex_sha ex_moves (start [] ex_calls (ex_store, ex_world)))) =
     [Some ''nfs:new'', None]"
  unfolding ex_defs ex_calls_def ex_moves_def by code_simp

lemma ex_run_fetched:
  "map fetched (cn_threads (run_schedule flight_table ex_sha ex_hit_moves (start [] ex_hits (ex_store, ex_world)))) =
     [Some (ex_entry\<lparr>e_last_used_at := ex_now\<rparr>),
      Some (ex_entry\<lparr>e_last_used_at := ''2025-06-01T12:00:01Z''\<rparr>)]"
  unfolding ex_defs ex_hits_def ex_hit_moves_def by code_simp

section \<open>A call left alone\<close>

definition solo :: "sys \<Rightarrow> 'g \<Rightarrow> phase \<Rightarrow> 'g conc" where
  "solo s g ph = \<lparr>cn_sys = s, cn_group = g, cn_threads = [ph]\<rparr>"

text \<open>From some number of steps on, the thread has replied \<open>r\<close> and the system is \<open>s'\<close>.\<close>

definition ends ::
  "'g singleflight \<Rightarrow> (string \<Rightarrow> string) \<Rightarrow> timestamp \<Rightarrow> nat \<Rightarrow> sys \<Rightarrow> 'g \<Rightarrow> phase \<Rightarrow>
   (store_error, entry) result \<times> sys \<Rightarrow> bool" where
  "ends sf sha256 now n s g ph res \<longleftrightarrow>
     (\<forall>m \<ge> n. \<exists>g'. run_schedule sf sha256 (replicate m (0, now)) (solo s g ph) =
        solo (snd res) g' (Replied (FetchReply (fst res))))"

lemma ends_replied: "ends sf sha256 now n s g (Replied (FetchReply r)) (r, s)"
proof -
  have "run_schedule sf sha256 (replicate m (0, now)) (solo s g (Replied rep)) = solo s g (Replied rep)"
    for m rep
    by (induction m) (simp_all add: solo_def advance_def)
  then show ?thesis
    unfolding ends_def by auto
qed

lemma ends_advance:
  assumes "advance sf sha256 (0, now) (solo s g ph) = solo s1 g1 ph1"
    and "ends sf sha256 now n s1 g1 ph1 res"
  shows "ends sf sha256 now (Suc n) s g ph res"
  unfolding ends_def
proof (intro allI impI)
  fix m
  assume "Suc n \<le> m"
  then obtain m' where "m = Suc m'" "n \<le> m'"
    using Suc_le_D by blast
  with assms show "\<exists>g'. run_schedule sf sha256 (replicate m (0, now)) (solo s g ph) =
      solo (snd res) g' (Replied (FetchReply (fst res)))"
    by (simp add: ends_def)
qed

lemma ends_step:
  assumes "\<not> at_group ph" and "thread_step sha256 now ph s = (ph1, s1)"
    and "ends sf sha256 now n s1 g ph1 res"
  shows "ends sf sha256 now (Suc n) s g ph res"
  using assms(3)
  by (rule ends_advance [rotated]) (use assms(1,2) in \<open>simp add: solo_def advance_local\<close>)

lemma ends_finish: "ends sf sha256 now (Suc n) s g (Finishing req r) (r, s)"
  by (rule ends_advance [OF _ ends_replied]) (simp add: solo_def advance_def)

lemma ends_mono: "ends sf sha256 now n s g ph res \<Longrightarrow> n \<le> n' \<Longrightarrow> ends sf sha256 now n' s g ph res"
  by (simp add: ends_def)

lemma ends_use:
  "ends sf sha256 now (Suc (Suc (Suc n))) s g (Marking req e False) (use_existing now e s)"
proof -
  obtain r st1 w1 where m: "mark_used now (e_id e) s = (r, (st1, w1))"
    by (metis prod.exhaust)
  show ?thesis
  proof (cases r)
    case (Inl er)
    with m have "use_existing now e s = (Inl er, (st1, w1))"
      by (simp add: use_existing_def)
    with m Inl show ?thesis
      by (auto intro!: ends_step [of "Marking req e False"] ends_replied simp: settle_def)
  next
    case (Inr u)
    let ?r = "Inr (case gm_get (st_entries st1) (e_id e) of None \<Rightarrow> zero_entry | Some e \<Rightarrow> e)"
    have res: "use_existing now e s = (?r, (st1, w1))"
      using m Inr by (simp add: use_existing_def)
    have "ends sf sha256 now (Suc n) (st1, w1) g (Reading req (e_id e) False) (?r, (st1, w1))"
      by (rule ends_step [OF _ _ ends_replied]) (simp_all add: settle_def)
    then have "ends sf sha256 now (Suc (Suc n)) (st1, w1) g (Reading req (e_id e) False) (?r, (st1, w1))"
      by (rule ends_mono) simp
    then show ?thesis
      unfolding res by (rule ends_step [rotated 2]) (use m Inr in simp_all)
  qed
qed

lemma ends_do_fetch:
  "ends sf sha256 now 6 s g (Making req fetcher) (do_fetch sha256 fetcher now req s)"
proof -
  obtain st w where s: "s = (st, w)"
    by force
  let ?dest = "dest_of sha256 st req"
  obtain r1 w1 where 1: "with_path ?dest mkdir_all w = (r1, w1)" by force
  obtain r2 w2 where 2: "fetcher req ?dest w1 = (r2, w2)" by force
  obtain r3 w3 where 3: "measure_tree ?dest w2 = (r3, w3)" by force
  note now6 = numeral_eq_Suc
  show ?thesis
  proof (cases r1)
    case (Inl e)
    with 1 s have "do_fetch sha256 fetcher now req s = (Inl (CreateDest e), (st, w1))"
      by (simp add: do_fetch_dest)
    with 1 s Inl show ?thesis
      by (auto intro!: ends_step [of "Making req fetcher"] ends_finish simp: now6)
  next
    case (Inr u)
    note made = 1 [unfolded Inr]
    have "ends sf sha256 now 5 (st, w1) g (Fetching req fetcher) (do_fetch sha256 fetcher now req s)"
    proof (cases r2)
      case (Inl e)
      note failed = 2 [unfolded Inl]
      show ?thesis
      proof (cases "rq_dest req = []")
        case True
        let ?w = "snd (remove_all_path ?dest w2)"
        have "do_fetch sha256 fetcher now req s = (Inl (FetcherFailed e), (st, ?w))"
          using made failed True s by (simp add: do_fetch_dest)
        moreover have "ends sf sha256 now 4 (st, w2) g (Cleaning req e) (Inl (FetcherFailed e), (st, ?w))"
          by (auto intro!: ends_step [of "Cleaning req e"] ends_finish simp: now6)
        ultimately show ?thesis
          using failed True by (auto intro!: ends_step [of "Fetching req fetcher"] simp: now6)
      next
        case False
        then have "do_fetch sha256 fetcher now req s = (Inl (FetcherFailed e), (st, w2))"
          using made failed s by (simp add: do_fetch_dest)
        with failed False show ?thesis
          by (auto intro!: ends_step [of "Fetching req fetcher"] ends_finish simp: now6)
      qed
    next
      case (Inr files)
      note fetched = 2 [unfolded Inr]
      have "ends sf sha256 now 4 (st, w2) g (Measuring req files) (do_fetch sha256 fetcher now req s)"
      proof (cases r3)
        case (Inl e)
        with made fetched 3 s have "do_fetch sha256 fetcher now req s = (Inl (Measure e), (st, w3))"
          by (simp add: do_fetch_dest)
        with 3 Inl show ?thesis
          by (auto intro!: ends_step [of "Measuring req files"] ends_finish simp: now6)
      next
        case (Inr m)
        obtain sz found where m: "m = (sz, found)" by force
        define e where "e = new_entry sha256 st now req sz (if files = [] then found else files)"
        obtain r4 w4 where 4: "save_index (put_entry e st) w3 = (r4, w4)" by force
        have "do_fetch sha256 fetcher now req s =
            (case r4 of Inl er \<Rightarrow> (Inl er, (drop_entry (e_id e) e (put_entry e st), w4))
             | Inr _ \<Rightarrow> (Inr e, (put_entry e st, w4)))"
          using made fetched 3 Inr m 4 s by (simp add: do_fetch_dest e_def [symmetric] split: sum.split)
        then have "ends sf sha256 now 3 (st, w3) g (Committing req e) (do_fetch sha256 fetcher now req s)"
          using 4 by (cases r4) (auto intro!: ends_step [of "Committing req e"] ends_finish simp: now6)
        with 3 Inr m show ?thesis
          unfolding e_def
          by (auto intro!: ends_step [of "Measuring req files"] simp: now6)
      qed
      with fetched show ?thesis
        by (auto intro!: ends_step [of "Fetching req fetcher"] simp: now6)
    qed
    with made s show ?thesis
      by (auto intro!: ends_step [of "Making req fetcher"] simp: now6)
  qed
qed

lemma fetch_accepts:
  assumes "fetch sha256 fl now req s = res"
  shows "(\<exists>r. begin_call now (FetchCall req) s = (Replied (FetchReply r), s) \<and> res = (r, s)) \<or>
    (\<exists>e. begin_call now (FetchCall req) s = (Marking req e False, s) \<and> res = use_existing now e s) \<or>
    (\<exists>fetcher. begin_call now (FetchCall req) s = (Entering req fetcher, s) \<and>
       lookup_by_key (fst s) (rkey req) = None \<and>
       res = fl (rkey req) (\<lambda>(st, w). case lookup_by_key st (rkey req) of
               Some existing \<Rightarrow> use_existing now existing (st, w)
             | None \<Rightarrow> do_fetch sha256 fetcher now req (st, w)) s)"
proof -
  obtain st w where "s = (st, w)"
    by force
  then show ?thesis
    unfolding assms [symmetric]
    by (cases "gm_get (st_fetchers st) (rq_source req)"; cases "lookup_by_key st (rkey req)")
      (simp_all add: fetch_def Let_def)
qed

text \<open>The two models of \<open>Fetch\<close> agree: with no other call running, the steps of \<open>Fetch\<close> end in exactly the result and the state of
  the sequential \<open>fetch\<close>, in which \<open>singleflight\<close> runs the function it is given once.\<close>

theorem fetch_alone:
  assumes "group_ok sf" and "\<forall>k. \<not> sf_running sf g k" and "9 \<le> n"
  shows "\<exists>g'. run_schedule sf sha256 (replicate n (0, now)) (start g [FetchCall req] s) =
    (case fetch sha256 (\<lambda>k f s. f s) now req s of
       (r, s') \<Rightarrow> \<lparr>cn_sys = s', cn_group = g', cn_threads = [Replied (FetchReply r)]\<rparr>)"
proof -
  let ?res = "fetch sha256 (\<lambda>k f s. f s) now req s"
  have lead: "fst (sf_enter sf g k)" for k
    using assms(1,2) by (simp add: group_ok_def)
  have "ends sf sha256 now 9 s g (Calling (FetchCall req)) ?res"
    using fetch_accepts [of sha256 "\<lambda>k f s. f s" now req s, OF refl]
  proof (elim disjE exE conjE)
    fix r
    assume "begin_call now (FetchCall req) s = (Replied (FetchReply r), s)" "?res = (r, s)"
    then show ?thesis
      by (auto intro!: ends_step [of "Calling (FetchCall req)"] ends_replied simp: numeral_eq_Suc)
  next
    fix e
    assume "begin_call now (FetchCall req) s = (Marking req e False, s)" "?res = use_existing now e s"
    then show ?thesis
      by (auto intro!: ends_step [of "Calling (FetchCall req)"] ends_use simp: numeral_eq_Suc)
  next
    fix fetcher
    assume b: "begin_call now (FetchCall req) s = (Entering req fetcher, s)"
      and none: "lookup_by_key (fst s) (rkey req) = None"
      and res: "?res = (\<lambda>(st, w). case lookup_by_key st (rkey req) of
               Some existing \<Rightarrow> use_existing now existing (st, w)
             | None \<Rightarrow> do_fetch sha256 fetcher now req (st, w)) s"
    have do: "?res = do_fetch sha256 fetcher now req s"
      using none res by (cases s) simp
    have "ends sf sha256 now 7 s g1 (Checking req fetcher) ?res" for g1
    proof -
      have "ends sf sha256 now (Suc 6) s g1 (Checking req fetcher) (do_fetch sha256 fetcher now req s)"
        by (rule ends_step [OF _ _ ends_do_fetch]) (simp_all add: none)
      then show ?thesis
        by (simp add: do)
    qed
    then have "ends sf sha256 now 8 s g (Entering req fetcher) ?res"
      using ends_advance [of sf sha256 now s g "Entering req fetcher" s _ "Checking req fetcher" 7 ?res]
        lead [of "rkey req"]
      by (simp add: solo_def advance_def case_prod_unfold numeral_eq_Suc)
    with b show ?thesis
      by (auto intro!: ends_step [of "Calling (FetchCall req)"] simp: numeral_eq_Suc)
  qed
  with assms(3) show ?thesis
    by (simp add: ends_def solo_def start_def case_prod_unfold)
qed

theorem fetch_alone_witness:
  "\<exists>g'. run_schedule flight_table ex_sha (replicate 9 (0, ex_now))
      (start [] [FetchCall (ex_request ''new'')] (ex_store, ex_world)) =
    (case fetch ex_sha (\<lambda>k f s. f s) ex_now (ex_request ''new'') (ex_store, ex_world) of
       (r, s') \<Rightarrow> \<lparr>cn_sys = s', cn_group = g', cn_threads = [Replied (FetchReply r)]\<rparr>)"
  by (rule fetch_alone [OF flight_table_ok flight_table_empty]) simp

section \<open>Every interleaving\<close>

text \<open>C5.  Whatever the interleaving of the calls and whichever system call fails: the two maps stay
  consistent; a fetcher runs only for a key that is not staged, and never twice at once for one key;
  and a fetch that reports success returns an entry of the key it was asked for, or (after a deletion
  in between) the zero entry.\<close>

theorem concurrent_fetch_safe:
  assumes "group_ok sf" and "\<forall>k. \<not> sf_running sf g k" and "store_inv st"
    and "no_clash sha256 (requests calls) st"
  shows "case run_schedule sf sha256 mvs (start g calls (st, w)) of c \<Rightarrow>
    store_inv (fst (cn_sys c)) \<and>
    (\<forall>i < length calls. \<forall>req f. cn_threads c ! i = Fetching req f \<longrightarrow>
       staged (fst (cn_sys c)) (rkey req) = None \<and>
       (\<forall>j < length calls. \<forall>req' f'. cn_threads c ! j = Fetching req' f' \<longrightarrow>
          rkey req' = rkey req \<longrightarrow> j = i)) \<and>
    (\<forall>i < length calls. \<forall>e. cn_threads c ! i = Replied (FetchReply (Inr e)) \<longrightarrow>
       (\<exists>req. calls ! i = FetchCall req \<and> (ekey e = rkey req \<or> e = zero_entry)))"
proof -
  let ?c = "run_schedule sf sha256 mvs (start g calls (st, w))"
  have inv: "conc_inv False sf sha256 calls ?c"
    by (rule conc_inv_run [OF assms]) simp
  note parts = conc_invD [OF inv]
  have "j = i"
    if "i < length calls" "j < length calls" "cn_threads ?c ! i = Fetching req f"
      "cn_threads ?c ! j = Fetching req' f'" "rkey req' = rkey req" for i j req f req' f'
    using flights_unique [OF parts(1) [unfolded flight_inv_def], of j i "rkey req"] that parts(3) by simp
  moreover have "staged (fst (cn_sys ?c)) (rkey req) = None"
    if "i < length calls" "cn_threads ?c ! i = Fetching req f" for i req f
    using parts(4) [OF that(1)] that(2) by simp
  moreover have "\<exists>req. calls ! i = FetchCall req \<and> (ekey e = rkey req \<or> e = zero_entry)"
    if "i < length calls" "cn_threads ?c ! i = Replied (FetchReply (Inr e))" for i e
    using parts(4) [OF that(1)] that(2) by (auto simp: result_ok_def)
  moreover have "store_inv (fst (cn_sys ?c))"
    using parts(2) by (simp add: store_ok_def)
  ultimately show ?thesis
    by blast
qed

theorem concurrent_fetch_safe_witness:
  "case run_schedule flight_table ex_sha ex_moves (start [] ex_calls (ex_store, ex_world)) of c \<Rightarrow>
    store_inv (fst (cn_sys c)) \<and>
    (\<exists>req f. cn_threads c ! 0 = Fetching req f \<and> rkey req = ''nfs:new'' \<and>
       staged (fst (cn_sys c)) (rkey req) = None)"
proof -
  let ?c = "run_schedule flight_table ex_sha ex_moves (start [] ex_calls (ex_store, ex_world))"
  have len: "length (cn_threads ?c) = 2"
    using arg_cong [OF ex_run_fetching, of length] by simp
  have "map fetches (cn_threads ?c) ! 0 = Some ''nfs:new''"
    by (simp only: ex_run_fetching nth_Cons_0)
  then have "fetches (cn_threads ?c ! 0) = Some ''nfs:new''"
    using len by simp
  then obtain req f where r: "cn_threads ?c ! 0 = Fetching req f" "rkey req = ''nfs:new''"
    by (auto simp: fetches_iff)
  from concurrent_fetch_safe [OF flight_table_ok flight_table_empty ex_inv ex_no_clash,
      of ex_moves ex_world]
  show ?thesis
    using r by (auto simp: ex_calls_def)
qed

text \<open>C16.  As long as nobody deletes, a successful fetch returns the entry that is staged under its
  key when all is done, except for a later time of use: concurrent callers of one key get one model.\<close>

theorem concurrent_fetch_staged:
  assumes "group_ok sf" and "\<forall>k. \<not> sf_running sf g k" and "store_inv st"
    and "no_clash sha256 (requests calls) st" and "\<forall>i. DeleteCall i \<notin> set calls"
    and "i < length calls"
    and "cn_threads (run_schedule sf sha256 mvs (start g calls (st, w))) ! i = Replied (FetchReply (Inr e))"
  shows "\<exists>req t. calls ! i = FetchCall req \<and>
    staged (fst (cn_sys (run_schedule sf sha256 mvs (start g calls (st, w))))) (rkey req) =
      Some (e\<lparr>e_last_used_at := t\<rparr>)"
proof -
  have "conc_inv True sf sha256 calls (run_schedule sf sha256 mvs (start g calls (st, w)))"
    by (rule conc_inv_run [OF assms(1-4)]) (simp add: assms(5))
  from conc_invD(4) [OF this assms(6)] assms(7) show ?thesis
    by (auto simp: result_ok_def)
qed

theorem concurrent_fetch_staged_witness:
  "\<exists>req t. ex_hits ! 0 = FetchCall req \<and>
    staged (fst (cn_sys (run_schedule flight_table ex_sha ex_hit_moves
      (start [] ex_hits (ex_store, ex_world))))) (rkey req) =
      Some (ex_entry\<lparr>e_last_used_at := ex_now, e_last_used_at := t\<rparr>)"
proof (rule concurrent_fetch_staged [OF flight_table_ok flight_table_empty ex_inv ex_hits_no_clash])
  let ?ts = "cn_threads (run_schedule flight_table ex_sha ex_hit_moves (start [] ex_hits (ex_store, ex_world)))"
  have len: "length ?ts = 2"
    using arg_cong [OF ex_run_fetched, of length] by simp
  have "map fetched ?ts ! 0 = Some (ex_entry\<lparr>e_last_used_at := ex_now\<rparr>)"
    by (simp only: ex_run_fetched nth_Cons_0)
  then show "?ts ! 0 = Replied (FetchReply (Inr (ex_entry\<lparr>e_last_used_at := ex_now\<rparr>)))"
    using len by (simp add: fetched_iff)
qed (simp_all add: ex_hits_def)

text \<open>C10.  Every call returns: after nine rounds per call, in each of which every thread gets a turn
  in whatever order, no caller is left waiting.\<close>

theorem every_call_returns:
  assumes "group_ok sf" and "\<forall>k. \<not> sf_running sf g k" and "9 * length calls \<le> length rounds"
    and "\<forall>mvs \<in> set rounds. {..< length calls} \<subseteq> fst ` set mvs"
  shows "all_replied (run_schedule sf sha256 (concat rounds) (start g calls s))"
proof (rule rounds_finish [OF assms(1)])
  show "flight_inv sf (start g calls s)"
    using assms(2) by (rule flight_inv_start)
  have "work (start g calls s) = 9 * length calls"
    by (simp add: work_def start_def sum_list_triv comp_def)
  with assms(3) show "work (start g calls s) \<le> length rounds"
    by simp
  show "\<forall>mvs \<in> set rounds. {..< length (cn_threads (start g calls s))} \<subseteq> fst ` set mvs"
    using assms(4) by (simp add: start_def)
qed

theorem every_call_returns_witness:
  "all_replied (run_schedule flight_table ex_sha (concat (replicate 18 [(1, ex_now), (0, ex_now)]))
     (start [] ex_calls (ex_store, ex_world)))"
proof (rule every_call_returns [OF flight_table_ok flight_table_empty])
  show "\<forall>mvs \<in> set (replicate 18 [(1, ex_now), (0, ex_now)]). {..< length ex_calls} \<subseteq> fst ` set mvs"
    by (auto simp: ex_calls_def)
qed (simp add: ex_calls_def)

section \<open>A deletion in between\<close>

text \<open>C33.  Between \<open>markUsed\<close> and the second read of the entry the lock is free.  A deletion that runs
  there makes \<open>Fetch\<close> return the zero entry and no error.\<close>

theorem fetch_races_delete:
  assumes "request_ok req st f" and "store_inv st" and "staged st (rkey req) = Some e"
    and "mark_used now (e_id e) (st, w) = (Inr (), s1)" and "delete_model (e_id e) s1 = (Inr (), s2)"
  shows "run_schedule sf sha256 [(0, now), (0, now), (1, now), (0, now)]
      (start g [FetchCall req, DeleteCall (e_id e)] (st, w)) =
    \<lparr>cn_sys = s2, cn_group = g,
     cn_threads = [Replied (FetchReply (Inr zero_entry)), Replied (UnitReply (Inr ()))]\<rparr>"
proof -
  have "begin_call now (FetchCall req) (st, w) = (Marking req e False, (st, w))"
    using assms(1,3) by (auto simp: request_ok_def staged_lookup)
  moreover have "gm_get (st_entries (fst s2)) (e_id e) = None"
    using assms(5) by (cases s1)
      (auto simp: delete_model_def drop_entry_def gomap_simps split: option.splits prod.splits sum.splits)
  ultimately show ?thesis
    using assms(4,5) by (simp add: start_def advance_def settle_def)
qed

theorem fetch_races_delete_witness:
  "cn_threads (run_schedule flight_table ex_sha [(0, ex_now), (0, ex_now), (1, ex_now), (0, ex_now)]
      (start [] [FetchCall (ex_request ''m''), DeleteCall (e_id ex_entry)] (ex_store, ex_world))) =
    [Replied (FetchReply (Inr zero_entry)), Replied (UnitReply (Inr ()))]"
proof -
  let ?i = "''00ff00ff00ff00ff''"
  have i: "e_id ex_entry = ?i"
    by (simp add: ex_entry_def)
  obtain r1 s1 where m: "mark_used ex_now ?i (ex_store, ex_world) = (r1, s1)"
    by (metis prod.exhaust)
  obtain r2 s2 where d: "delete_model ?i s1 = (r2, s2)"
    by (metis prod.exhaust)
  have "fst (mark_used ex_now ?i (ex_store, ex_world)) = Inr ()"
    unfolding ex_defs by code_simp
  then have r1: "r1 = Inr ()"
    by (simp add: m)
  have "fst (delete_model ?i (snd (mark_used ex_now ?i (ex_store, ex_world)))) = Inr ()"
    unfolding ex_defs by code_simp
  then have r2: "r2 = Inr ()"
    by (simp add: m d)
  show ?thesis
    using fetch_races_delete [OF ex_request_ok ex_inv ex_staged, of ex_now ex_world s1 s2 flight_table ex_sha "[]"]
      m d r1 r2 i by simp
qed

end
