(* ===== verification/Storage_Links.thy ===== *)
theory Storage_Links
  imports Storage_Theorems
begin

text \<open>
  What a link on the way to a path means for \<open>Delete\<close>: its guard compares names, the kernel follows links.
\<close>

lemma kernel_path_through:
  assumes "no_link_within fs (r @ [c])" and "node_at fs (r @ [c]) = Some (Link t)"
    and "link_target (r @ [c]) t = d" and "no_link_within fs (d @ [x])"
  shows "kernel_path fs (r @ [c, x]) = Inr (d @ [x])"
proof -
  have "kernel_path fs (r @ [c, x]) = kernel_walk max_links fs r [c, x]"
    using kernel_walk_along [of r fs "[]" "[c, x]"] assms(1) by (simp add: kernel_path_def no_link_within_snoc)
  also have "\<dots> = kernel_walk 39 fs [] (d @ [x])"
    using assms(2,3) by (simp add: max_links_def eval_nat_numeral)
  also have "\<dots> = kernel_walk 39 fs d [x]"
    using kernel_walk_along [of d fs "[]" "[x]"] assms(4) by (simp add: no_link_within_snoc)
  finally show ?thesis
    by simp
qed

text \<open>C20.  The guard of \<open>Delete\<close> compares names: an entry whose path leads through a link below the
  storage directory passes it, and \<open>os.RemoveAll\<close> follows the link, so that what is removed is a tree
  wherever the link leads.\<close>

theorem delete_through_link:
  assumes "gm_get (st_entries st) i = Some e" and "place_ok st w" and "w_faults w = []"
    and "dir_comps st w = Some root" and "prefix root r"
    and path: "e_path e \<noteq> []" "\<not> ends_with_dot (e_path e)" "abs_comps (w_cwd w) (e_path e) = Some (r @ [c, x])"
    and link: "no_link_within (w_fs w) (r @ [c])" "node_at (w_fs w) (r @ [c]) = Some (Link t)"
      "link_target (r @ [c]) t = d" "no_link_within (w_fs w) (d @ [x])"
  shows "case delete_model i (st, w) of (r', (st', w')) \<Rightarrow>
    (\<forall>q. prefix (d @ [x]) q \<and> \<not> index_files st w q \<longrightarrow> node_at (w_fs w') q = None)"
proof -
  have guard: "under_root (w_cwd w) (st_dir st) (e_path e)"
    using assms(2,4,5) path(3) under_root_prefix [of "w_cwd w"] by (simp add: place_ok_def dir_comps_def)
  define w1 where "w1 = w\<lparr>w_fs := drop_under (d @ [x]) (w_fs w)\<rparr>"
  have rm: "removal st e w = (Inr (), w1)"
    using guard path assms(3) kernel_path_through [OF link]
    by (simp add: removal_def remove_all_path_def with_path_def remove_all_real_def remove_all_def w1_def)
  obtain r2 w2 where s: "save_index (drop_entry i e st) w1 = (r2, w2)" by force
  have "w_cwd w1 = w_cwd w"
    by (simp add: w1_def)
  then have "changes_only (index_files st w) w1 w2"
    using save_in_dir(1) [OF s _ assms(2)] by simp
  then have "node_at (w_fs w2) q = None" if "prefix (d @ [x]) q" "\<not> index_files st w q" for q
    using that by (auto simp: changes_only_def w1_def gomap_simps)
  then show ?thesis
    using rm s by (simp add: delete_model_eq [OF assms(1)] split: sum.split)
qed

definition linked_world :: world where
  "linked_world = ex_world\<lparr>w_fs :=
     [([''models''], Dir), ([''models'', ''m''], Dir), ([''models'', ''m'', ''etc''], Link ''/etc''),
      ([''etc''], Dir), ([''etc'', ''ssl''], Dir), ([''etc'', ''ssl'', ''key''], File 384 ''k'')]\<rparr>"

theorem delete_through_link_witness:
  "case delete_model ''i'' (ex_store\<lparr>st_entries := [(''i'', ex_entry\<lparr>e_path := ''/models/m/etc/ssl''\<rparr>)]\<rparr>, linked_world) of
     (r', (st', w')) \<Rightarrow> node_at (w_fs linked_world) [''etc'', ''ssl'', ''key''] \<noteq> None \<and>
       node_at (w_fs w') [''etc'', ''ssl'', ''key''] = None"
proof -
  let ?e = "ex_entry\<lparr>e_path := ''/models/m/etc/ssl''\<rparr>"
  let ?st = "ex_store\<lparr>st_entries := [(''i'', ?e)]\<rparr>"
  have world: "w_cwd linked_world = w_cwd ex_world" "w_faults linked_world = []"
    by (simp_all add: linked_world_def ex_world_def)
  have place: "place_ok ?st linked_world"
    using ex_place by (simp add: place_ok_def world)
  have dir: "dir_comps ?st linked_world = Some [''models'']"
    using ex_dir by (simp add: dir_comps_def world)
  have path: "abs_comps (w_cwd linked_world) (e_path ?e) = Some ([''models'', ''m''] @ [''etc'', ''ssl''])"
    "link_target ([''models'', ''m''] @ [''etc'']) ''/etc'' = [''etc'']"
    unfolding world ex_world_def by code_simp+
  have links: "no_link_within (w_fs linked_world) ([''models'', ''m''] @ [''etc''])"
    "no_link_within (w_fs linked_world) ([''etc''] @ [''ssl''])"
    "node_at (w_fs linked_world) ([''models'', ''m''] @ [''etc'']) = Some (Link ''/etc'')"
    by (auto simp: no_link_within_def strict_prefix_def prefix_Cons linked_world_def node_at_def)
  have "case delete_model ''i'' (?st, linked_world) of (r', (st', w')) \<Rightarrow>
      (\<forall>q. prefix ([''etc''] @ [''ssl'']) q \<and> \<not> index_files ?st linked_world q \<longrightarrow> node_at (w_fs w') q = None)"
    by (rule delete_through_link [OF _ place world(2) dir _ _ _ path(1) links(1,3) path(2) links(2)])
      (simp_all add: ends_with_dot_def has_prefix_iff)
  moreover have "\<not> index_files ?st linked_world [''etc'', ''ssl'', ''key'']"
    by (simp add: index_files_def temp_path_def index_file_def dir)
  moreover have "node_at (w_fs linked_world) [''etc'', ''ssl'', ''key''] \<noteq> None"
    by (simp add: linked_world_def node_at_def)
  ultimately show ?thesis
    by (auto split: prod.splits)
qed

end
