(* ===== verification/Gpu_Types.thy ===== *)
theory Gpu_Types
  imports Go_Strings
begin

text \<open>
  The data of \<open>internal/gpu/types.go\<close> and the interface of \<open>internal/gpu/command.go\<close>.  A vendor is
  a Go string type, and so it is here.  A command runner is a parameter: for a name and arguments it
  gives the output of the command or an error.
\<close>

type_synonym vendor = string

definition vendor_nvidia :: vendor where
  "vendor_nvidia = ''nvidia''"

definition vendor_amd :: vendor where
  "vendor_amd = ''amd''"

definition vendor_intel :: vendor where
  "vendor_intel = ''intel''"

definition vendor_unknown :: vendor where
  "vendor_unknown = ''none''"

record gpu_info =
  gi_index :: int
  gi_name :: string
  gi_vendor :: vendor
  gi_memory_total :: "64 word"
  gi_memory_free :: "64 word"
  gi_utilization :: int

record snapshot =
  sn_vendor :: vendor
  sn_gpus :: "gpu_info list"
  sn_timestamp :: timestamp

type_synonym runner = "string \<Rightarrow> string list \<Rightarrow> (string, string) result"

text \<open>
  \<open>ExecRunner\<close>: \<open>os/exec\<close> ends a process with what it printed on its standard output and, if it could
  not be started, failed or was killed with its context, an error.  No caller looks at the output
  that comes with an error.
\<close>

record process_end =
  pe_stdout :: string
  pe_error :: "string option"

definition exec_runner :: "(string \<Rightarrow> string list \<Rightarrow> process_end) \<Rightarrow> runner" where
  "exec_runner os name args =
     (case pe_error (os name args) of
        Some e \<Rightarrow> Inl e
      | None \<Rightarrow> Inr (pe_stdout (os name args)))"

lemma vendors_distinct [simp]:
  "vendor_nvidia \<noteq> vendor_amd" "vendor_nvidia \<noteq> vendor_intel" "vendor_nvidia \<noteq> vendor_unknown"
  "vendor_amd \<noteq> vendor_nvidia" "vendor_amd \<noteq> vendor_intel" "vendor_amd \<noteq> vendor_unknown"
  "vendor_intel \<noteq> vendor_nvidia" "vendor_intel \<noteq> vendor_amd" "vendor_intel \<noteq> vendor_unknown"
  "vendor_unknown \<noteq> vendor_nvidia" "vendor_unknown \<noteq> vendor_amd" "vendor_unknown \<noteq> vendor_intel"
  by (simp_all add: vendor_nvidia_def vendor_amd_def vendor_intel_def vendor_unknown_def)

end
