(* ===== verification/Container_Docker.thy ===== *)
theory Container_Docker
  imports Gpu_Types
begin

text \<open>
  The Docker interface as \<open>internal/container/client.go\<close> names it, the GPU settings of
  \<open>runtime.go\<close> and the operations of \<open>manager.go\<close>.  The daemon, the network, the clock and the
  request context are the environment: functions that answer each call from the whole history of
  calls so far, so that a theorem about every environment covers every behaviour of a daemon with a
  state of its own, every failure and every moment of cancellation.
\<close>

section \<open>Configurations\<close>

record device_request =
  dr_count :: int
  dr_capabilities :: "string list list"

record device_mapping =
  dm_path_on_host :: string
  dm_path_in_container :: string
  dm_cgroup_permissions :: string

record mount =
  mt_type :: string
  mt_source :: string
  mt_target :: string

record container_config =
  cc_image :: string
  cc_cmd :: "string list"
  cc_env :: "string list"

record host_config =
  hc_binds :: "string list"
  hc_mounts :: "mount list"
  hc_device_requests :: "device_request list"
  hc_devices :: "device_mapping list"
  hc_security_opt :: "string list"
  hc_group_add :: "string list"

definition empty_host :: host_config where
  "empty_host = \<lparr>hc_binds = [], hc_mounts = [], hc_device_requests = [], hc_devices = [],
     hc_security_opt = [], hc_group_add = []\<rparr>"

definition device :: "string \<Rightarrow> device_mapping" where
  "device p = \<lparr>dm_path_on_host = p, dm_path_in_container = p, dm_cgroup_permissions = ''rwm''\<rparr>"

definition inject_nvidia :: "host_config \<Rightarrow> host_config" where
  "inject_nvidia hc = hc\<lparr>hc_device_requests :=
     hc_device_requests hc @ [\<lparr>dr_count = -1, dr_capabilities = [[''gpu'']]\<rparr>]\<rparr>"

definition inject_amd :: "host_config \<Rightarrow> host_config" where
  "inject_amd hc = hc\<lparr>hc_devices := hc_devices hc @ [device ''/dev/kfd'', device ''/dev/dri''],
     hc_security_opt := hc_security_opt hc @ [''seccomp=unconfined''],
     hc_group_add := hc_group_add hc @ [''video'', ''render'']\<rparr>"

definition inject_intel :: "host_config \<Rightarrow> host_config" where
  "inject_intel hc = hc\<lparr>hc_devices := hc_devices hc @ [device ''/dev/dri''],
     hc_group_add := hc_group_add hc @ [''video'', ''render'']\<rparr>"

definition inject_gpu :: "vendor \<Rightarrow> host_config \<Rightarrow> host_config" where
  "inject_gpu v hc =
     (if v = vendor_nvidia then inject_nvidia hc
      else if v = vendor_amd then inject_amd hc
      else if v = vendor_intel then inject_intel hc
      else hc)"

section \<open>Calls and the environment\<close>

datatype call =
    NetworkCreate string
  | VolumeCreate string
  | ContainerCreate container_config host_config "string list" string
  | ContainerStart string
  | ContainerStop string
  | ContainerRestart string
  | ContainerRemove string bool
  | ContainerInspect string
  | ContainerList
  | ContainerLogs string bool bool
  | ContainerWait string
  | CopyToContainer string string "(string \<times> nat \<times> string) list"
  | CopyFromContainer string string
  | NetworkRemove string
  | VolumeRemove string bool
  | HttpGet string
  | TimeNow
  | CtxErr
  | Sleep nat
  | StartLogs string string
  | CancelLogs string

type_synonym history = "call list"

text \<open>
  What the code reads of an inspection: nothing where \<open>NetworkSettings\<close> is nil, otherwise the
  endpoints by network name, \<open>None\<close> for a nil endpoint.
\<close>

type_synonym inspection = "(string \<times> string option) list option"

record summary =
  sm_id :: string
  sm_names :: "string list"
  sm_image :: string
  sm_state :: string
  sm_status :: string
  sm_created :: int

text \<open>The answer of \<open>ContainerWait\<close>: cancelled, an exit with its error message, or a wait error.\<close>

datatype wait_answer =
    WaitCancelled string
  | WaitExit int string
  | WaitError string

text \<open>The items of a tar stream: an entry with its type flag and contents, or a read error.\<close>

datatype tar_item =
    TarEntry char string
  | TarDataError char string
  | TarError string

record env =
  en_do :: "history \<Rightarrow> call \<Rightarrow> (string, unit) result"
  en_create :: "history \<Rightarrow> call \<Rightarrow> (string, string) result"
  en_inspect :: "history \<Rightarrow> call \<Rightarrow> (string, inspection) result"
  en_list :: "history \<Rightarrow> (string, summary list) result"
  en_wait :: "history \<Rightarrow> string \<Rightarrow> wait_answer"
  en_copy_from :: "history \<Rightarrow> call \<Rightarrow> (string, tar_item list) result"
  en_http :: "history \<Rightarrow> string \<Rightarrow> nat option"
  en_clock :: "history \<Rightarrow> int"
  en_ctx :: "history \<Rightarrow> string option"

section \<open>The manager\<close>

record create_request =
  cr_name :: string
  cr_image :: string
  cr_env :: "string list"
  cr_mounts :: "string list"
  cr_gpu :: bool
  cr_command :: "string list"

record container_info =
  ci_id :: string
  ci_name :: string
  ci_image :: string
  ci_state :: string
  ci_status :: string
  ci_created :: int

text \<open>The call \<open>Create\<close> makes for a request.\<close>

definition create_call :: "vendor \<Rightarrow> create_request \<Rightarrow> call" where
  "create_call v req =
     (let config = \<lparr>cc_image = cr_image req, cc_cmd = cr_command req, cc_env = cr_env req\<rparr>;
          host = empty_host\<lparr>hc_binds := cr_mounts req\<rparr>
      in ContainerCreate config (if cr_gpu req then inject_gpu v host else host) [] (cr_name req))"

definition wrap_error :: "string \<Rightarrow> (string, 'a) result \<Rightarrow> (string, 'a) result" where
  "wrap_error msg r = (case r of Inl e \<Rightarrow> Inl (msg @ '': '' @ e) | Inr x \<Rightarrow> Inr x)"

definition manager_create ::
  "env \<Rightarrow> vendor \<Rightarrow> create_request \<Rightarrow> history \<Rightarrow> (string, string) result \<times> history" where
  "manager_create env v req h =
     (let c = create_call v req in (wrap_error ''create container'' (en_create env h c), h @ [c]))"

definition manager_do :: "string \<Rightarrow> env \<Rightarrow> call \<Rightarrow> history \<Rightarrow> (string, unit) result \<times> history" where
  "manager_do msg env c h = (wrap_error msg (en_do env h c), h @ [c])"

definition manager_start :: "env \<Rightarrow> string \<Rightarrow> history \<Rightarrow> (string, unit) result \<times> history" where
  "manager_start env i = manager_do (''start container '' @ i) env (ContainerStart i)"

definition manager_stop :: "env \<Rightarrow> string \<Rightarrow> history \<Rightarrow> (string, unit) result \<times> history" where
  "manager_stop env i = manager_do (''stop container '' @ i) env (ContainerStop i)"

definition manager_restart :: "env \<Rightarrow> string \<Rightarrow> history \<Rightarrow> (string, unit) result \<times> history" where
  "manager_restart env i = manager_do (''restart container '' @ i) env (ContainerRestart i)"

definition manager_remove :: "env \<Rightarrow> string \<Rightarrow> bool \<Rightarrow> history \<Rightarrow> (string, unit) result \<times> history" where
  "manager_remove env i force = manager_do (''remove container '' @ i) env (ContainerRemove i force)"

definition manager_inspect :: "env \<Rightarrow> string \<Rightarrow> history \<Rightarrow> (string, inspection) result \<times> history" where
  "manager_inspect env i h =
     (wrap_error (''inspect container '' @ i) (en_inspect env h (ContainerInspect i)),
      h @ [ContainerInspect i])"

definition info_of_summary :: "summary \<Rightarrow> container_info" where
  "info_of_summary s =
     \<lparr>ci_id = sm_id s,
      ci_name = (case sm_names s of [] \<Rightarrow> [] | n # ns \<Rightarrow> trim_prefix n ''/''),
      ci_image = sm_image s, ci_state = sm_state s, ci_status = sm_status s, ci_created = sm_created s\<rparr>"

definition manager_list :: "env \<Rightarrow> history \<Rightarrow> (string, container_info list) result \<times> history" where
  "manager_list env h =
     (case en_list env h of
        Inl e \<Rightarrow> (Inl (''list containers: '' @ e), h @ [ContainerList])
      | Inr cs \<Rightarrow> (Inr (map info_of_summary cs), h @ [ContainerList]))"

definition short_id :: "string \<Rightarrow> string" where
  "short_id i = (if 12 < length i then take 12 i else i)"

section \<open>GPU access\<close>

text \<open>What a vendor's settings add, as a host configuration of their own.\<close>

definition gpu_part :: "vendor \<Rightarrow> host_config" where
  "gpu_part v = inject_gpu v empty_host"

definition host_append :: "host_config \<Rightarrow> host_config \<Rightarrow> host_config" where
  "host_append a b =
     \<lparr>hc_binds = hc_binds a @ hc_binds b, hc_mounts = hc_mounts a @ hc_mounts b,
      hc_device_requests = hc_device_requests a @ hc_device_requests b,
      hc_devices = hc_devices a @ hc_devices b,
      hc_security_opt = hc_security_opt a @ hc_security_opt b,
      hc_group_add = hc_group_add a @ hc_group_add b\<rparr>"

lemma inject_gpu_append: "inject_gpu v hc = host_append hc (gpu_part v)"
  by (simp add: inject_gpu_def gpu_part_def host_append_def inject_nvidia_def inject_amd_def
      inject_intel_def empty_host_def)

end
