(* ===== verification/Container_Run.thy ===== *)
theory Container_Run
  imports Container_Docker Go_Json
begin

text \<open>
  The paired benchmark run of \<open>internal/container/paired_run.go\<close> as a function of its environment:
  every call is appended to the history, every event the orchestrator manages to send is appended to
  the event list, and the ids of the two containers are kept for the cleanup.  Whether the event
  channel takes an event at a given moment is part of the environment.  The list holds what the
  orchestrator sends; the \<open>streamLogs\<close> goroutines send on the same channel, and \<open>carries\<close> in
  \<open>Container_Theorems\<close> says what the channel then holds.  The thirty seconds of the cleanup's context
  appear only as calls of the daemon that fail: the code makes every call of the cleanup whether or
  not the context has expired, and ignores the answers.
\<close>

section \<open>Specifications and events\<close>

record health_check =
  hk_path :: string
  hk_port :: int
  hk_timeout_seconds :: int

record engine_spec =
  es_image :: string
  es_args :: "string list"
  es_env :: "(string, string) gomap"
  es_ports :: "int list"
  es_model_path :: string
  es_health_check :: health_check

record benchmark_spec =
  bs_kind :: string
  bs_image :: string
  bs_args :: "string list"
  bs_env :: "(string, string) gomap"
  bs_config :: string
  bs_yaml_spec :: string

record paired_run_spec =
  ps_run_id :: string
  ps_timeout_seconds :: int
  ps_engine :: engine_spec
  ps_benchmark :: benchmark_spec

text \<open>An event; the time is \<open>None\<close> for the zero time that \<open>emit\<close> replaces.\<close>

record event =
  ev_type :: string
  ev_phase :: string
  ev_source :: string
  ev_line :: string
  ev_time :: "int option"
  ev_results :: string
  ev_duration_ms :: int
  ev_error :: string

definition blank_event :: event where
  "blank_event = \<lparr>ev_type = [], ev_phase = [], ev_source = [], ev_line = [], ev_time = None,
     ev_results = [], ev_duration_ms = 0, ev_error = []\<rparr>"

text \<open>The state of a run: its \<open>runState\<close> and what it has done.\<close>

record run =
  r_calls :: history
  r_sent :: "event list"
  r_engine :: string
  r_bench :: string

text \<open>
  The environment of a run: the daemon, and whether the event channel has room at once or gets room
  within the ten seconds of \<open>terminalEventTimeout\<close>.
\<close>

record run_env =
  re_env :: env
  re_room :: "run \<Rightarrow> bool"
  re_room_wait :: "run \<Rightarrow> bool"

type_synonym 'a act = "run \<Rightarrow> (string, 'a) result \<times> run"

datatype run_error =
    RunIdRequired
  | RunIdInvalid string
  | EngineImageRequired
  | BenchImageRequired
  | BadKind
  | StepFailed string string
  | BenchFailedNoResults int
  | HealthFuel

definition model_mount_path :: string where
  "model_mount_path = ''/model''"

definition results_volume_mount :: string where
  "results_volume_mount = ''/results''"

definition results_file :: string where
  "results_file = ''out.json''"

definition default_engine_health_timeout :: int where
  "default_engine_health_timeout = 300"

definition max_results_size :: nat where
  "max_results_size = 256 * 1024 * 1024"

text \<open>\<open>^[a-zA-Z0-9_-]+$\<close>; without the multi-line flag \<open>$\<close> is the end of the text.\<close>

definition run_id_char :: "char \<Rightarrow> bool" where
  "run_id_char c \<longleftrightarrow>
     (CHR ''a'' \<le> c \<and> c \<le> CHR ''z'') \<or> (CHR ''A'' \<le> c \<and> c \<le> CHR ''Z'') \<or>
     (CHR ''0'' \<le> c \<and> c \<le> CHR ''9'') \<or> c = CHR ''_'' \<or> c = CHR ''-''"

definition validate_run_id :: "string \<Rightarrow> bool" where
  "validate_run_id i \<longleftrightarrow> i \<noteq> [] \<and> list_all run_id_char i"

definition validate_spec :: "paired_run_spec \<Rightarrow> run_error option" where
  "validate_spec spec =
     (if ps_run_id spec = [] then Some RunIdRequired
      else if \<not> validate_run_id (ps_run_id spec) then Some (RunIdInvalid (ps_run_id spec))
      else if es_image (ps_engine spec) = [] then Some EngineImageRequired
      else if bs_image (ps_benchmark spec) = [] then Some BenchImageRequired
      else if bs_kind (ps_benchmark spec) \<noteq> [] \<and> bs_kind (ps_benchmark spec) \<noteq> ''yaml'' \<and>
        bs_kind (ps_benchmark spec) \<noteq> ''container'' then Some BadKind
      else None)"

definition network_name :: "paired_run_spec \<Rightarrow> string" where
  "network_name spec = ''bonnie-run-'' @ ps_run_id spec"

definition volume_name :: "paired_run_spec \<Rightarrow> string" where
  "volume_name spec = ''bonnie-results-'' @ ps_run_id spec"

definition engine_name :: "paired_run_spec \<Rightarrow> string" where
  "engine_name spec = ''bonnie-engine-'' @ ps_run_id spec"

definition bench_name :: "paired_run_spec \<Rightarrow> string" where
  "bench_name spec = ''bonnie-bench-'' @ ps_run_id spec"

section \<open>Effects\<close>

definition log_call :: "call \<Rightarrow> run \<Rightarrow> run" where
  "log_call c s = s\<lparr>r_calls := r_calls s @ [c]\<rparr>"

definition docker_do :: "run_env \<Rightarrow> call \<Rightarrow> unit act" where
  "docker_do env c s = (en_do (re_env env) (r_calls s) c, log_call c s)"

definition time_now :: "run_env \<Rightarrow> run \<Rightarrow> int \<times> run" where
  "time_now env s = (en_clock (re_env env) (r_calls s @ [TimeNow]), log_call TimeNow s)"

definition terminal :: "event \<Rightarrow> bool" where
  "terminal ev \<longleftrightarrow> ev_type ev = ''result'' \<or> ev_type ev = ''error''"

definition emit :: "run_env \<Rightarrow> event \<Rightarrow> run \<Rightarrow> run" where
  "emit env ev s =
     (case (case ev_time ev of
              Some t \<Rightarrow> (ev, s)
            | None \<Rightarrow> (case time_now env s of (t, s') \<Rightarrow> (ev\<lparr>ev_time := Some t\<rparr>, s'))) of
        (ev', s') \<Rightarrow>
          if (if terminal ev' then re_room_wait env s' else re_room env s')
          then s'\<lparr>r_sent := r_sent s' @ [ev']\<rparr> else s')"

definition status_event :: "string \<Rightarrow> event" where
  "status_event phase = blank_event\<lparr>ev_type := ''status'', ev_phase := phase, ev_source := ''orchestrator''\<rparr>"

definition error_event :: "string \<Rightarrow> string \<Rightarrow> event" where
  "error_event phase err = blank_event\<lparr>ev_type := ''error'', ev_phase := phase,
     ev_source := ''orchestrator'', ev_error := err\<rparr>"

definition emit_error :: "run_env \<Rightarrow> string \<Rightarrow> string \<Rightarrow> run \<Rightarrow> run" where
  "emit_error env phase err = emit env (error_event phase err)"

section \<open>Containers\<close>

text \<open>The order of the list is the order in which \<open>range\<close> visits the map.\<close>

definition env_slice :: "(string, string) gomap \<Rightarrow> string list" where
  "env_slice m = map (\<lambda>(k, v). k @ ''='' @ v) m"

definition engine_call :: "vendor \<Rightarrow> paired_run_spec \<Rightarrow> call" where
  "engine_call v spec =
     (let es = ps_engine spec in
      ContainerCreate
        \<lparr>cc_image = es_image es, cc_cmd = es_args es, cc_env = env_slice (es_env es)\<rparr>
        (inject_gpu v (empty_host\<lparr>hc_binds := [es_model_path es @ '':'' @ model_mount_path @ '':ro'']\<rparr>))
        [network_name spec] (engine_name spec))"

text \<open>\<open>fmt.Sprintf("http://%s:%d", engineIP, port)\<close>.\<close>

definition engine_url :: "paired_run_spec \<Rightarrow> string \<Rightarrow> string" where
  "engine_url spec ip =
     ''http://'' @ ip @ '':'' @ show_int (hk_port (es_health_check (ps_engine spec)))"

definition bench_env :: "paired_run_spec \<Rightarrow> string \<Rightarrow> (string, string) gomap" where
  "bench_env spec ip = gm_set ''ENGINE_URL'' (engine_url spec ip) (bs_env (ps_benchmark spec))"

definition bench_call :: "paired_run_spec \<Rightarrow> string \<Rightarrow> call" where
  "bench_call spec ip =
     (let bs = ps_benchmark spec in
      ContainerCreate
        \<lparr>cc_image = bs_image bs, cc_cmd = bs_args bs, cc_env = env_slice (bench_env spec ip)\<rparr>
        (empty_host\<lparr>hc_mounts := [\<lparr>mt_type = ''volume'', mt_source = volume_name spec,
                                      mt_target = results_volume_mount\<rparr>]\<rparr>)
        [network_name spec] (bench_name spec))"

definition docker_create :: "run_env \<Rightarrow> call \<Rightarrow> string act" where
  "docker_create env c s = (en_create (re_env env) (r_calls s) c, log_call c s)"

text \<open>A tar archive is the list of its entries: name, mode and contents; 420 is \<open>0o644\<close>.\<close>

definition tar_with_single_file :: "string \<Rightarrow> string \<Rightarrow> (string \<times> nat \<times> string) list" where
  "tar_with_single_file path body = [(trim_prefix path ''/'', 420, body)]"

definition copy_benchmark_config :: "run_env \<Rightarrow> string \<Rightarrow> benchmark_spec \<Rightarrow> unit act" where
  "copy_benchmark_config env i bs s =
     (if bs_kind bs = ''yaml'' \<and> bs_yaml_spec bs \<noteq> [] then
        docker_do env (CopyToContainer i ''/'' (tar_with_single_file ''/config.yaml'' (bs_yaml_spec bs))) s
      else if bs_kind bs = ''container'' \<and> bs_config bs \<noteq> [] then
        docker_do env (CopyToContainer i ''/'' (tar_with_single_file ''/config.json'' (bs_config bs))) s
      else (Inr (), s))"

section \<open>Waiting for the engine\<close>

definition endpoint_ip :: "inspection \<Rightarrow> string \<Rightarrow> string" where
  "endpoint_ip info network =
     (case info of
        None \<Rightarrow> []
      | Some nets \<Rightarrow>
          (case gm_get nets network of
             Some (Some ip) \<Rightarrow> ip
           | _ \<Rightarrow> []))"

text \<open>\<open>net.JoinHostPort\<close> puts brackets around a host that holds a colon.\<close>

definition join_host_port :: "string \<Rightarrow> string \<Rightarrow> string" where
  "join_host_port host port =
     (if CHR '':'' \<in> set host then ''['' @ host @ '']:'' @ port else host @ '':'' @ port)"

definition health_url :: "string \<Rightarrow> int \<Rightarrow> string \<Rightarrow> string" where
  "health_url ip port path =
     ''http://'' @ join_host_port ip (show_int port) @
     (if has_prefix path ''/'' then path else ''/'' @ path)"

definition check_http :: "run_env \<Rightarrow> string \<Rightarrow> int \<Rightarrow> string \<Rightarrow> run \<Rightarrow> bool \<times> run" where
  "check_http env ip port path s =
     (let url = health_url ip port path in
      ((case en_http (re_env env) (r_calls s) url of
          None \<Rightarrow> False
        | Some code \<Rightarrow> 200 \<le> code \<and> code < 300),
       log_call (HttpGet url) s))"

text \<open>\<open>time.Duration(n) * time.Second\<close> in 64-bit nanoseconds.\<close>

definition seconds :: "int \<Rightarrow> int" where
  "seconds n = sint (word_of_int (n * 1000000000) :: 64 word)"

definition health_timeout :: "health_check \<Rightarrow> int" where
  "health_timeout hk =
     (if hk_timeout_seconds hk \<le> 0 then default_engine_health_timeout else hk_timeout_seconds hk)"

definition timeout_text :: "int \<Rightarrow> string" where
  "timeout_text n = ''engine did not become healthy within '' @ show_int n @ ''s''"

definition waiting_event :: event where
  "waiting_event = blank_event\<lparr>ev_type := ''progress'', ev_phase := ''engine-starting'',
     ev_source := ''engine'', ev_line := ''waiting for engine health''\<rparr>"

text \<open>One look at the engine: its address if it is ready.\<close>

definition probe_engine ::
  "run_env \<Rightarrow> string \<Rightarrow> string \<Rightarrow> health_check \<Rightarrow> run \<Rightarrow> string option \<times> run" where
  "probe_engine env i network hk s =
     (let c = ContainerInspect i; s1 = log_call c s in
      case en_inspect (re_env env) (r_calls s) c of
        Inl e \<Rightarrow> (None, s1)
      | Inr info \<Rightarrow>
          (let ip = endpoint_ip info network in
           if ip \<noteq> [] \<and> hk_path hk \<noteq> [] \<and> hk_port hk \<noteq> 0 then
             (case check_http env ip (hk_port hk) (hk_path hk) s1 of
                (ok, s2) \<Rightarrow> (if ok then Some ip else None, s2))
           else if ip \<noteq> [] \<and> hk_path hk = [] then (Some ip, s1)
           else (None, s1)))"

text \<open>
  The loop of \<open>waitEngineHealthy\<close>, one unit of fuel per round; \<open>None\<close> is a loop that is still running
  when the fuel is used up.  A round ends in a wait of two seconds or in the cancellation.
\<close>

fun health_loop ::
  "nat \<Rightarrow> run_env \<Rightarrow> string \<Rightarrow> string \<Rightarrow> health_check \<Rightarrow> int \<Rightarrow> run \<Rightarrow>
   (string, string) result option \<times> run" where
  "health_loop 0 env i network hk deadline s = (None, s)"
| "health_loop (Suc n) env i network hk deadline s =
     (case time_now env s of (t, s1) \<Rightarrow>
        if \<not> t < deadline then (Some (Inl (timeout_text (health_timeout hk))), s1)
        else case en_ctx (re_env env) (r_calls s1) of
          Some e \<Rightarrow> (Some (Inl e), log_call CtxErr s1)
        | None \<Rightarrow>
            (case probe_engine env i network hk (log_call CtxErr s1) of
               (Some ip, s2) \<Rightarrow> (Some (Inr ip), s2)
             | (None, s2) \<Rightarrow>
                 (let s3 = emit env waiting_event s2; s4 = log_call (Sleep 2) s3 in
                  case en_ctx (re_env env) (r_calls s4) of
                    Some e \<Rightarrow> (Some (Inl e), s4)
                  | None \<Rightarrow> health_loop n env i network hk deadline s4)))"

definition wait_engine_healthy ::
  "nat \<Rightarrow> run_env \<Rightarrow> string \<Rightarrow> string \<Rightarrow> engine_spec \<Rightarrow> run \<Rightarrow> (string, string) result option \<times> run" where
  "wait_engine_healthy n env i network es s =
     (let hk = es_health_check es in
      case time_now env s of (t, s1) \<Rightarrow>
        health_loop n env i network hk (t + seconds (health_timeout hk)) s1)"

section \<open>Exit and results\<close>

definition wait_for_exit :: "run_env \<Rightarrow> string \<Rightarrow> int act" where
  "wait_for_exit env i s =
     ((case en_wait (re_env env) (r_calls s) i of
         WaitCancelled e \<Rightarrow> Inl e
       | WaitExit code msg \<Rightarrow> if msg \<noteq> [] then Inl (''wait: '' @ msg) else Inr code
       | WaitError e \<Rightarrow> Inl e),
      log_call (ContainerWait i) s)"

definition results_path :: string where
  "results_path = results_volume_mount @ ''/'' @ results_file"

definition tar_reg :: char where
  "tar_reg = CHR ''0''"

fun read_archive :: "tar_item list \<Rightarrow> (string, string) result" where
  "read_archive [] = Inl ''results archive empty''"
| "read_archive (TarError e # items) = Inl (''read tar: '' @ e)"
| "read_archive (TarDataError flag e # items) =
     (if flag \<noteq> tar_reg then read_archive items else Inl (''read results file: '' @ e))"
| "read_archive (TarEntry flag body # items) =
     (if flag \<noteq> tar_reg then read_archive items
      else let data = take (max_results_size + 1) body in
        if max_results_size < length data
        then Inl (''results file exceeds '' @ show_nat max_results_size @ '' bytes size limit'')
        else if \<not> json_valid data then Inl ''results file is not valid JSON''
        else Inr data)"

definition read_results :: "run_env \<Rightarrow> string \<Rightarrow> string act" where
  "read_results env i s =
     (let c = CopyFromContainer i results_path in
      ((case en_copy_from (re_env env) (r_calls s) c of
          Inl e \<Rightarrow> Inl (''copy from container: '' @ e)
        | Inr items \<Rightarrow> read_archive items),
       log_call c s))"

section \<open>The run\<close>

text \<open>A step that fails sends its error event and ends the run.\<close>

definition step ::
  "run_env \<Rightarrow> string \<Rightarrow> string \<Rightarrow> 'a act \<Rightarrow> run \<Rightarrow> (run_error, 'a) result \<times> run" where
  "step env phase what m s =
     (case m s of
        (Inl e, s') \<Rightarrow> (Inl (StepFailed what e), emit_error env phase e s')
      | (Inr x, s') \<Rightarrow> (Inr x, s'))"

definition status :: "run_env \<Rightarrow> string \<Rightarrow> run \<Rightarrow> (run_error, unit) result \<times> run" where
  "status env phase s = (Inr (), emit env (status_event phase) s)"

definition create_engine_container :: "run_env \<Rightarrow> vendor \<Rightarrow> paired_run_spec \<Rightarrow> string act" where
  "create_engine_container env v spec s =
     (case docker_create env (engine_call v spec) s of
        (Inl e, s') \<Rightarrow> (Inl e, s')
      | (Inr i, s') \<Rightarrow> (Inr i, s'\<lparr>r_engine := i\<rparr>))"

definition create_benchmark_container :: "run_env \<Rightarrow> paired_run_spec \<Rightarrow> string \<Rightarrow> string act" where
  "create_benchmark_container env spec ip s =
     (case docker_create env (bench_call spec ip) s of
        (Inl e, s') \<Rightarrow> (Inl e, s')
      | (Inr i, s') \<Rightarrow> (Inr i, s'\<lparr>r_bench := i\<rparr>))"

definition start_logs ::
  "string \<Rightarrow> string \<Rightarrow> run \<Rightarrow> (run_error, unit) result \<times> run" where
  "start_logs i source s = (Inr (), log_call (StartLogs i source) s)"

definition health_step ::
  "nat \<Rightarrow> run_env \<Rightarrow> paired_run_spec \<Rightarrow> string \<Rightarrow> run \<Rightarrow> (run_error, string) result \<times> run" where
  "health_step n env spec i s =
     (case wait_engine_healthy n env i (network_name spec) (ps_engine spec) s of
        (None, s') \<Rightarrow> (Inl HealthFuel, s')
      | (Some (Inl e), s') \<Rightarrow>
          (Inl (StepFailed ''engine health'' e), emit_error env ''engine-starting'' e s')
      | (Some (Inr ip), s') \<Rightarrow> (Inr ip, s'))"

definition healthy_event :: "paired_run_spec \<Rightarrow> string \<Rightarrow> event" where
  "healthy_event spec ip = (status_event ''engine-healthy'')\<lparr>ev_line :=
     ''engine reachable at '' @ ip @ '':'' @ show_int (hk_port (es_health_check (ps_engine spec)))\<rparr>"

definition exit_event :: "int \<Rightarrow> event" where
  "exit_event code = blank_event\<lparr>ev_type := ''error'', ev_phase := ''benchmark-exit'',
     ev_source := ''benchmark'', ev_error := ''benchmark exited with code '' @ show_int code\<rparr>"

definition result_event :: "string \<Rightarrow> int \<Rightarrow> event" where
  "result_event results ms = blank_event\<lparr>ev_type := ''result'', ev_phase := ''done'',
     ev_source := ''orchestrator'', ev_results := results, ev_duration_ms := ms\<rparr>"

text \<open>Step 8: a missing result is reported as the benchmark's failure if it failed.\<close>

definition collect_results ::
  "run_env \<Rightarrow> int \<Rightarrow> string \<Rightarrow> int \<Rightarrow> run \<Rightarrow> (run_error, unit) result \<times> run" where
  "collect_results env start i code s =
     (let s1 = (if code \<noteq> 0 then emit env (exit_event code) s else s);
          s2 = emit env (status_event ''collecting-results'') s1
      in case read_results env i s2 of
        (Inl e, s3) \<Rightarrow>
          (Inl (if code \<noteq> 0 then BenchFailedNoResults code else StepFailed ''read results'' e),
           emit_error env ''collecting-results'' e s3)
      | (Inr results, s3) \<Rightarrow>
          (case time_now env s3 of (t, s4) \<Rightarrow>
             (Inr (), emit env (result_event results ((t - start) div 1000000)) s4)))"

definition benchmark_phase ::
  "run_env \<Rightarrow> paired_run_spec \<Rightarrow> int \<Rightarrow> string \<Rightarrow> run \<Rightarrow> (run_error, unit) result \<times> run" where
  "benchmark_phase env spec start ip =
     and_then (status env ''starting-benchmark'') (\<lambda>_.
     and_then (step env ''starting-benchmark'' ''create benchmark''
                 (create_benchmark_container env spec ip)) (\<lambda>i.
     and_then (step env ''starting-benchmark'' ''copy benchmark config''
                 (copy_benchmark_config env i (ps_benchmark spec))) (\<lambda>_.
     and_then (step env ''starting-benchmark'' ''start benchmark''
                 (docker_do env (ContainerStart i))) (\<lambda>_.
     and_then (start_logs i ''benchmark'') (\<lambda>_.
     and_then (status env ''benchmark-running'') (\<lambda>_.
     and_then (step env ''benchmark-running'' ''wait benchmark'' (wait_for_exit env i))
       (collect_results env start i)))))))"

definition engine_phase ::
  "nat \<Rightarrow> run_env \<Rightarrow> vendor \<Rightarrow> paired_run_spec \<Rightarrow> run \<Rightarrow> (run_error, string) result \<times> run" where
  "engine_phase n env v spec =
     and_then (status env ''creating-network'') (\<lambda>_.
     and_then (step env ''creating-network'' ''create network''
                 (docker_do env (NetworkCreate (network_name spec)))) (\<lambda>_.
     and_then (status env ''creating-volume'') (\<lambda>_.
     and_then (step env ''creating-volume'' ''create volume''
                 (docker_do env (VolumeCreate (volume_name spec)))) (\<lambda>_.
     and_then (status env ''starting-engine'') (\<lambda>_.
     and_then (step env ''starting-engine'' ''create engine''
                 (create_engine_container env v spec)) (\<lambda>i.
     and_then (step env ''starting-engine'' ''start engine''
                 (docker_do env (ContainerStart i))) (\<lambda>_.
     and_then (start_logs i ''engine'') (\<lambda>_.
     and_then (status env ''engine-starting'') (\<lambda>_.
     and_then (health_step n env spec i) (\<lambda>ip s.
       (Inr ip, emit env (healthy_event spec ip) s)))))))))))"

text \<open>The calls of \<open>cleanupRun\<close>, whose errors are ignored.\<close>

definition cleanup_calls :: "paired_run_spec \<Rightarrow> string \<Rightarrow> string \<Rightarrow> history" where
  "cleanup_calls spec engine bench =
     concat (map (\<lambda>i. if i = [] then [] else [ContainerStop i, ContainerRemove i True]) [bench, engine]) @
     [NetworkRemove (network_name spec), VolumeRemove (volume_name spec) True]"

text \<open>The deferred cancellations of the log streams, last started first; they run before the cleanup.\<close>

fun log_sources :: "history \<Rightarrow> string list" where
  "log_sources [] = []"
| "log_sources (StartLogs i source # h) = source # log_sources h"
| "log_sources (c # h) = log_sources h"

definition cancel_calls :: "history \<Rightarrow> history" where
  "cancel_calls h = map CancelLogs (rev (log_sources h))"

definition cleanup_run :: "paired_run_spec \<Rightarrow> run \<Rightarrow> run" where
  "cleanup_run spec s =
     s\<lparr>r_calls := r_calls s @ cancel_calls (r_calls s) @ cleanup_calls spec (r_engine s) (r_bench s)\<rparr>"

definition fresh_run :: run where
  "fresh_run = \<lparr>r_calls = [], r_sent = [], r_engine = [], r_bench = []\<rparr>"

definition paired_body ::
  "nat \<Rightarrow> run_env \<Rightarrow> vendor \<Rightarrow> paired_run_spec \<Rightarrow> run \<Rightarrow> (run_error, unit) result \<times> run" where
  "paired_body n env v spec s =
     (case time_now env s of (start, s1) \<Rightarrow>
        and_then (engine_phase n env v spec) (benchmark_phase env spec start) s1)"

definition paired_run ::
  "nat \<Rightarrow> run_env \<Rightarrow> vendor \<Rightarrow> paired_run_spec \<Rightarrow> (run_error, unit) result \<times> run" where
  "paired_run n env v spec =
     (case validate_spec spec of
        Some e \<Rightarrow> (Inl e, fresh_run)
      | None \<Rightarrow>
          (case paired_body n env v spec fresh_run of (r, s) \<Rightarrow> (r, cleanup_run spec s)))"

end
