(* ===== verification/Container_Correct.thy ===== *)
theory Container_Correct
  imports Container_Run
begin

text \<open>
  The steps of the paired run: which create nothing, how a history records what was created, and
  what every stage keeps.  All lemmas hold for every environment.
\<close>

section \<open>Steps that create nothing\<close>

fun creates :: "call \<Rightarrow> bool" where
  "creates (ContainerCreate a b c d) = True"
| "creates _ = False"

text \<open>The ids that the creations in a history returned.\<close>

definition created :: "env \<Rightarrow> history \<Rightarrow> string set" where
  "created env h = {i. \<exists>k < length h. creates (h ! k) \<and> en_create env (take k h) (h ! k) = Inr i}"

lemma created_Nil [simp]: "created env [] = {}"
  by (simp add: created_def)

lemma created_snoc:
  "created env (h @ [c]) =
     created env h \<union> (if creates c then {i. en_create env h c = Inr i} else {})"
proof (rule set_eqI)
  fix i
  let ?P = "\<lambda>h' k. creates (h' ! k) \<and> en_create env (take k h') (h' ! k) = Inr i"
  have "i \<in> created env (h @ [c]) \<longleftrightarrow> (\<exists>k < Suc (length h). ?P (h @ [c]) k)"
    by (simp add: created_def)
  also have "\<dots> \<longleftrightarrow> (\<exists>k < length h. ?P (h @ [c]) k) \<or> ?P (h @ [c]) (length h)"
    by (metis less_Suc_eq)
  also have "(\<exists>k < length h. ?P (h @ [c]) k) \<longleftrightarrow> i \<in> created env h"
    unfolding created_def by (rule iffI) (force simp: nth_append)+
  also have "?P (h @ [c]) (length h) \<longleftrightarrow> creates c \<and> en_create env h c = Inr i"
    by simp
  finally show "i \<in> created env (h @ [c]) \<longleftrightarrow>
      i \<in> created env h \<union> (if creates c then {i. en_create env h c = Inr i} else {})"
    by auto
qed

lemma created_append:
  "list_all (\<lambda>c. \<not> creates c) h' \<Longrightarrow> created env (h @ h') = created env h"
proof (induction h' rule: rev_induct)
  case (snoc c h')
  then show ?case
    using created_snoc [of env "h @ h'" c] by simp
qed simp

text \<open>A step that adds calls which create nothing, adds events but no result, and keeps the ids.\<close>

abbreviation no_result :: "event \<Rightarrow> bool" where
  "no_result ev \<equiv> ev_type ev \<noteq> ''result''"

definition quiet :: "run \<Rightarrow> run \<Rightarrow> bool" where
  "quiet s s' \<longleftrightarrow>
     (\<exists>h. r_calls s' = r_calls s @ h \<and> list_all (\<lambda>c. \<not> creates c) h) \<and>
     (\<exists>evs. r_sent s' = r_sent s @ evs \<and> list_all no_result evs) \<and>
     r_engine s' = r_engine s \<and> r_bench s' = r_bench s"

named_theorems quiets \<open>steps that create nothing\<close>

lemma quiet_refl [simp, quiets]: "quiet s s"
  by (simp add: quiet_def)

lemma quiet_trans: "quiet s t \<Longrightarrow> quiet t u \<Longrightarrow> quiet s u"
  unfolding quiet_def by (elim conjE exE) (simp add: list_all_append)

lemma quiet_log [quiets]: "\<not> creates c \<Longrightarrow> quiet s (log_call c s)"
  by (simp add: quiet_def log_call_def)

lemma quiet_time [quiets]: "time_now env s = (t, s') \<Longrightarrow> quiet s s'"
  by (auto simp: time_now_def quiet_log)

lemma quiet_emit [quiets]: "no_result ev \<Longrightarrow> quiet s (emit env ev s)"
proof -
  assume ev: "no_result ev"
  obtain ev' s1 where *: "(case ev_time ev of Some t \<Rightarrow> (ev, s)
      | None \<Rightarrow> (case time_now env s of (t, s') \<Rightarrow> (ev\<lparr>ev_time := Some t\<rparr>, s'))) = (ev', s1)"
    by force
  then have s1: "quiet s s1" and ev': "no_result ev'"
    using ev by (auto split: option.splits prod.splits dest: quiet_time)
  have "quiet s1 (s1\<lparr>r_sent := r_sent s1 @ [ev']\<rparr>)"
    using ev' by (simp add: quiet_def)
  then show ?thesis
    using s1 * quiet_trans by (auto simp: emit_def)
qed

lemma own_events [simp]:
  "ev_type (error_event phase err) = ''error''"
  "ev_type (status_event phase) = ''status''"
  "ev_type (exit_event code) = ''error''"
  "ev_type (healthy_event spec ip) = ''status''"
  "ev_type waiting_event = ''progress''"
  "ev_type (result_event results ms) = ''result''"
  by (simp_all add: error_event_def status_event_def exit_event_def healthy_event_def
      waiting_event_def result_event_def)

lemma quiet_emit_error [quiets]: "quiet s (emit_error env phase err s)"
  by (simp add: emit_error_def quiet_emit)

lemma quiet_do: "docker_do env c s = (r, s') \<Longrightarrow> \<not> creates c \<Longrightarrow> quiet s s'"
  by (auto simp: docker_do_def quiet_log)

lemma quiet_check: "check_http env ip port path s = (b, s') \<Longrightarrow> quiet s s'"
  by (auto simp: check_http_def Let_def intro: quiet_log)

lemma quiet_probe: "probe_engine env i net hk s = (r, s') \<Longrightarrow> quiet s s'"
proof -
  assume p: "probe_engine env i net hk s = (r, s')"
  let ?s1 = "log_call (ContainerInspect i) s"
  have "quiet s ?s1"
    by (rule quiet_log) simp
  moreover have "s' = ?s1 \<or> (\<exists>b ip. check_http env ip (hk_port hk) (hk_path hk) ?s1 = (b, s'))"
  proof (cases "en_inspect (re_env env) (r_calls s) (ContainerInspect i)")
    case (Inl e)
    then show ?thesis
      using p by (simp add: probe_engine_def)
  next
    case (Inr info)
    obtain ok s2 where c: "check_http env (endpoint_ip info net) (hk_port hk) (hk_path hk) ?s1 = (ok, s2)"
      by (metis surj_pair)
    show ?thesis
      using p Inr c by (simp add: probe_engine_def Let_def split: if_splits) blast+
  qed
  ultimately show ?thesis
    using quiet_check quiet_trans by blast
qed

text \<open>The states of one round of the health loop and the ways it ends.\<close>

definition round_start :: "run \<Rightarrow> run" where
  "round_start s = log_call CtxErr (log_call TimeNow s)"

definition round_end :: "run_env \<Rightarrow> run \<Rightarrow> run" where
  "round_end env s = log_call (Sleep 2) (emit env waiting_event s)"

lemma health_loop_cases [consumes 1, case_names late cancelled healthy interrupted again]:
  assumes "health_loop (Suc n) env i net hk dl s = (r, s')"
  obtains "\<not> en_clock (re_env env) (r_calls s @ [TimeNow]) < dl"
      "r = Some (Inl (timeout_text (health_timeout hk)))" "s' = log_call TimeNow s"
  | e where "r = Some (Inl e)" "s' = round_start s"
  | ip where "probe_engine env i net hk (round_start s) = (Some ip, s')" "r = Some (Inr ip)"
  | e s2 where "probe_engine env i net hk (round_start s) = (None, s2)" "r = Some (Inl e)"
      "s' = round_end env s2"
  | s2 where "en_clock (re_env env) (r_calls s @ [TimeNow]) < dl"
      "probe_engine env i net hk (round_start s) = (None, s2)"
      "health_loop n env i net hk dl (round_end env s2) = (r, s')"
proof -
  obtain o2 s2 where p: "probe_engine env i net hk (round_start s) = (o2, s2)"
    by (metis surj_pair)
  let ?s1 = "log_call TimeNow s"
  have p': "probe_engine env i net hk (log_call CtxErr ?s1) = (o2, s2)"
    using p by (simp only: round_start_def)
  show ?thesis
  proof (cases "en_clock (re_env env) (r_calls s @ [TimeNow]) < dl")
    case False
    then show ?thesis
      using assms that(1) by (simp add: time_now_def)
  next
    case early: True
    show ?thesis
    proof (cases "en_ctx (re_env env) (r_calls ?s1)")
      case (Some e)
      then show ?thesis
        using assms early that(2) [of e] by (simp add: time_now_def round_start_def)
    next
      case go: None
      show ?thesis
      proof (cases o2)
        case (Some ip)
        then show ?thesis
          using assms early go p p' that(3) by (simp add: time_now_def)
      next
        case None
        then show ?thesis
          using assms early go p p' that(4) [of s2] that(5) [of s2]
          by (cases "en_ctx (re_env env) (r_calls (round_end env s2))")
            (auto simp: time_now_def Let_def round_end_def)
      qed
    qed
  qed
qed

lemma quiet_round_start [quiets]: "quiet s (round_start s)"
  unfolding round_start_def by (rule quiet_trans [OF quiet_log quiet_log]) simp_all

lemma quiet_round_end [quiets]: "quiet s (round_end env s)"
  unfolding round_end_def by (rule quiet_trans [OF quiet_emit quiet_log]) simp_all

lemma quiet_round:
  assumes "probe_engine env i net hk (round_start s) = (o2, s2)"
  shows "quiet s s2"
  using quiet_round_start quiet_probe [OF assms] by (rule quiet_trans)

lemma quiet_health_loop: "health_loop n env i net hk dl s = (r, s') \<Longrightarrow> quiet s s'"
proof (induction n arbitrary: s)
  case (Suc n)
  from Suc.prems show ?case
  proof (cases rule: health_loop_cases)
    case late
    then show ?thesis by (simp add: quiet_log)
  next
    case (cancelled e)
    then show ?thesis by (simp add: quiet_round_start)
  next
    case (healthy ip)
    then show ?thesis using quiet_round by blast
  next
    case (interrupted e s2)
    then show ?thesis using quiet_round quiet_round_end quiet_trans by blast
  next
    case (again s2)
    then show ?thesis
      using quiet_trans [OF quiet_trans [OF quiet_round quiet_round_end]] Suc.IH by blast
  qed
qed simp

lemma quiet_wait: "wait_engine_healthy n env i net es s = (r, s') \<Longrightarrow> quiet s s'"
  using quiet_time quiet_health_loop quiet_trans
  by (fastforce simp: wait_engine_healthy_def Let_def split: prod.splits)

lemma quiet_read: "read_results env i s = (r, s') \<Longrightarrow> quiet s s'"
  by (auto simp: read_results_def Let_def intro: quiet_log)

lemma quiet_exit: "wait_for_exit env i s = (r, s') \<Longrightarrow> quiet s s'"
  by (auto simp: wait_for_exit_def intro: quiet_log)

lemma quiet_copy: "copy_benchmark_config env i bs s = (r, s') \<Longrightarrow> quiet s s'"
  by (auto simp: copy_benchmark_config_def intro: quiet_do split: if_splits)

section \<open>Stages\<close>

text \<open>A property of states that quiet steps keep.\<close>

definition lasting :: "(run \<Rightarrow> bool) \<Rightarrow> bool" where
  "lasting P \<longleftrightarrow> (\<forall>s s'. P s \<longrightarrow> quiet s s' \<longrightarrow> P s')"

lemma lastingD: "lasting P \<Longrightarrow> P s \<Longrightarrow> quiet s s' \<Longrightarrow> P s'"
  by (auto simp: lasting_def)

lemma triple_status: "lasting P \<Longrightarrow> triple P (status env phase) (\<lambda>_. P) E"
  by (rule tripleI) (use lastingD quiet_emit in \<open>fastforce simp: status_def\<close>)+

lemma triple_start_logs: "lasting P \<Longrightarrow> triple P (start_logs i source) (\<lambda>_. P) E"
  by (rule tripleI) (use lastingD quiet_log in \<open>fastforce simp: start_logs_def\<close>)+

lemma triple_step:
  assumes "triple P m Q (\<lambda>_. F)" and "lasting F"
  shows "triple P (step env phase what m) Q (\<lambda>_. F)"
proof (rule tripleI)
  fix s e s'
  assume "P s" and *: "step env phase what m s = (Inl e, s')"
  then obtain e1 s1 where "m s = (Inl e1, s1)" "s' = emit_error env phase e1 s1"
    by (auto simp: step_def split: prod.splits sum.splits)
  with \<open>P s\<close> show "F s'"
    using triple_Inl [OF assms(1)] lastingD [OF assms(2)] quiet_emit_error by blast
next
  fix s x s'
  assume "P s" and "step env phase what m s = (Inr x, s')"
  then show "Q x s'"
    using triple_Inr [OF assms(1)] by (auto simp: step_def split: prod.splits sum.splits)
qed

lemma triple_quiet:
  assumes "lasting P" and "\<And>s r s'. m s = (r, s') \<Longrightarrow> quiet s s'"
  shows "triple P m (\<lambda>_. P) (\<lambda>_. P)"
  by (rule tripleI) (use lastingD [OF assms(1)] assms(2) in blast)+

lemma quiet_health_step: "health_step n env spec i s = (r, s') \<Longrightarrow> quiet s s'"
proof -
  assume h: "health_step n env spec i s = (r, s')"
  obtain o1 s1 where w: "wait_engine_healthy n env i (network_name spec) (ps_engine spec) s = (o1, s1)"
    by force
  have "s' = s1 \<or> (\<exists>e. s' = emit_error env ''engine-starting'' e s1)"
    using h w by (auto simp: health_step_def split: option.splits sum.splits)
  then show ?thesis
    using quiet_wait [OF w] quiet_emit_error quiet_trans by blast
qed

end
