(* ===== verification/Container_Health.thy ===== *)
theory Container_Health
  imports Container_Correct
begin

text \<open>
  The wait for the engine of \<open>waitEngineHealthy\<close>: it ends within a number of rounds that the time
  limit fixes, and it reports an address only after an inspection gave that address and, where a
  path is configured, a request to it was answered with a success code.
\<close>

section \<open>The wait ends\<close>

fun slept :: "history \<Rightarrow> int" where
  "slept [] = 0"
| "slept (Sleep n # h) = int n * 1000000000 + slept h"
| "slept (c # h) = slept h"

text \<open>Time never runs backwards, and at least as much of it passes as the program waits.\<close>

definition clock_advances :: "env \<Rightarrow> bool" where
  "clock_advances env \<longleftrightarrow> (\<forall>h h'. en_clock env h + slept h' \<le> en_clock env (h @ h'))"

lemma slept_append [simp]: "slept (h @ h') = slept h + slept h'"
  by (induction h rule: slept.induct) simp_all

lemma slept_nonneg [simp]: "0 \<le> slept h"
  by (induction h rule: slept.induct) simp_all

lemma clock_step: "clock_advances env \<Longrightarrow> en_clock env h + slept h' \<le> en_clock env (h @ h')"
  by (simp add: clock_advances_def)

lemma clock_mono: "clock_advances env \<Longrightarrow> en_clock env h \<le> en_clock env (h @ h')"
  using clock_step [of env h h'] slept_nonneg [of h'] by linarith

lemma clock_quiet:
  assumes "clock_advances (re_env env)" and "quiet s s'"
  shows "en_clock (re_env env) (r_calls s) \<le> en_clock (re_env env) (r_calls s')"
  using assms(2) clock_mono [OF assms(1)] by (auto simp: quiet_def)

lemma clock_round_end:
  assumes "clock_advances (re_env env)"
  shows "en_clock (re_env env) (r_calls s) + 2000000000 \<le> en_clock (re_env env) (r_calls (round_end env s))"
proof -
  let ?s1 = "emit env waiting_event s"
  have "en_clock (re_env env) (r_calls s) \<le> en_clock (re_env env) (r_calls ?s1)"
    by (rule clock_quiet [OF assms quiet_emit]) simp
  also have "en_clock (re_env env) (r_calls ?s1) + 2000000000 \<le>
      en_clock (re_env env) (r_calls ?s1 @ [Sleep 2])"
    using clock_step [OF assms, of "r_calls ?s1" "[Sleep 2]"] by simp
  finally show ?thesis
    by (simp add: round_end_def log_call_def)
qed

lemma health_loop_ends:
  assumes "clock_advances (re_env env)"
    and "dl \<le> en_clock (re_env env) (r_calls s) + 2000000000 * int m"
  shows "fst (health_loop (Suc m) env i net hk dl s) \<noteq> None"
  using assms(2)
proof (induction m arbitrary: s)
  case 0
  obtain r s' where h: "health_loop (Suc 0) env i net hk dl s = (r, s')"
    by force
  then show ?case
  proof (cases rule: health_loop_cases)
    case (again s2)
    then show ?thesis
      using 0 clock_mono [OF assms(1), of "r_calls s" "[TimeNow]"] by simp
  qed (use h in simp_all)
next
  case (Suc m)
  obtain r s' where h: "health_loop (Suc (Suc m)) env i net hk dl s = (r, s')"
    by force
  then show ?case
  proof (cases rule: health_loop_cases)
    case (again s2)
    have "en_clock (re_env env) (r_calls s) \<le> en_clock (re_env env) (r_calls s2)"
      using clock_quiet [OF assms(1) quiet_trans [OF quiet_round_start quiet_probe [OF again(2)]]] .
    then have "dl \<le> en_clock (re_env env) (r_calls (round_end env s2)) + 2000000000 * int m"
      using Suc.prems clock_round_end [OF assms(1), of s2] by simp
    from Suc.IH [OF this] show ?thesis
      using h again(3) by simp
  qed (use h in simp_all)
qed

definition health_rounds :: "health_check \<Rightarrow> nat" where
  "health_rounds hk = nat (seconds (health_timeout hk) div 2000000000 + 1)"

lemma wait_ends:
  assumes "clock_advances (re_env env)" and "health_rounds (es_health_check es) < n"
  shows "fst (wait_engine_healthy n env i net es s) \<noteq> None"
proof -
  obtain m where n: "n = Suc m"
    using assms(2) by (cases n) auto
  let ?d = "seconds (health_timeout (es_health_check es))"
  have d: "?d \<le> 2000000000 * int m"
    using assms(2) unfolding n health_rounds_def by simp
  let ?s1 = "log_call TimeNow s"
  have "wait_engine_healthy n env i net es s =
      health_loop (Suc m) env i net (es_health_check es) (en_clock (re_env env) (r_calls ?s1) + ?d) ?s1"
    unfolding n wait_engine_healthy_def Let_def time_now_def log_call_def prod.case by simp
  moreover have "fst (health_loop (Suc m) env i net (es_health_check es)
      (en_clock (re_env env) (r_calls ?s1) + ?d) ?s1) \<noteq> None"
    by (rule health_loop_ends [OF assms(1)]) (use d in simp)
  ultimately show ?thesis
    by simp
qed

section \<open>What a reported address means\<close>

text \<open>
  After the history \<open>h\<close> the engine \<open>i\<close> has been seen at \<open>ip\<close> on the network, and answered its
  configured check there.
\<close>

definition engine_seen :: "run_env \<Rightarrow> paired_run_spec \<Rightarrow> history \<Rightarrow> string \<Rightarrow> string \<Rightarrow> bool" where
  "engine_seen env spec h i ip \<longleftrightarrow>
     (let hk = es_health_check (ps_engine spec) in
      ip \<noteq> [] \<and>
      (\<exists>h1 info. en_inspect (re_env env) h1 (ContainerInspect i) = Inr info \<and>
         endpoint_ip info (network_name spec) = ip \<and>
         (if hk_path hk = [] then prefix (h1 @ [ContainerInspect i]) h
          else hk_port hk \<noteq> 0 \<and>
            (\<exists>code. en_http (re_env env) (h1 @ [ContainerInspect i]) (health_url ip (hk_port hk) (hk_path hk)) = Some code \<and>
               200 \<le> code \<and> code < 300) \<and>
            prefix (h1 @ [ContainerInspect i, HttpGet (health_url ip (hk_port hk) (hk_path hk))]) h)))"

lemma engine_seen_append: "engine_seen env spec h i ip \<Longrightarrow> engine_seen env spec (h @ h') i ip"
  unfolding engine_seen_def Let_def
  by (elim conjE exE, intro conjI, assumption, intro exI conjI, assumption+)
    (auto split: if_splits)

lemma probe_seen:
  assumes "probe_engine env i (network_name spec) (es_health_check (ps_engine spec)) s = (Some ip, s')"
  shows "engine_seen env spec (r_calls s') i ip"
proof -
  let ?hk = "es_health_check (ps_engine spec)"
  obtain info where info: "en_inspect (re_env env) (r_calls s) (ContainerInspect i) = Inr info"
    using assms by (cases "en_inspect (re_env env) (r_calls s) (ContainerInspect i)")
      (simp_all add: probe_engine_def)
  let ?ip = "endpoint_ip info (network_name spec)"
  show ?thesis
  proof (cases "hk_path ?hk = []")
    case True
    then have "?ip = ip \<and> ip \<noteq> [] \<and> s' = log_call (ContainerInspect i) s"
      using assms info by (auto simp: probe_engine_def Let_def split: if_splits)
    then show ?thesis
      using info True by (auto simp: engine_seen_def log_call_def)
  next
    case False
    then have "?ip = ip \<and> ip \<noteq> [] \<and> hk_port ?hk \<noteq> 0 \<and>
        (\<exists>code. en_http (re_env env) (r_calls s @ [ContainerInspect i])
             (health_url ip (hk_port ?hk) (hk_path ?hk)) = Some code \<and> 200 \<le> code \<and> code < 300) \<and>
        s' = log_call (HttpGet (health_url ip (hk_port ?hk) (hk_path ?hk))) (log_call (ContainerInspect i) s)"
      using assms info
      by (auto simp: probe_engine_def check_http_def Let_def log_call_def split: if_splits option.splits)
    then show ?thesis
      using info False by (auto simp: engine_seen_def Let_def log_call_def)
  qed
qed

lemma loop_seen:
  "health_loop n env i (network_name spec) (es_health_check (ps_engine spec)) dl s = (Some (Inr ip), s') \<Longrightarrow>
     engine_seen env spec (r_calls s') i ip"
proof (induction n arbitrary: s)
  case (Suc n)
  from Suc.prems show ?case
    by (cases rule: health_loop_cases) (simp_all add: probe_seen Suc.IH)
qed simp

lemma wait_seen:
  "wait_engine_healthy n env i (network_name spec) (ps_engine spec) s = (Some (Inr ip), s') \<Longrightarrow>
     engine_seen env spec (r_calls s') i ip"
  by (auto simp: wait_engine_healthy_def Let_def time_now_def dest: loop_seen)

section \<open>The limit in nanoseconds\<close>

lemma seconds_signed: "seconds n = signed_take_bit 63 (n * 1000000000)"
  unfolding seconds_def by transfer simp

lemma seconds_exact:
  assumes "\<bar>n\<bar> \<le> 9223372036"
  shows "seconds n = n * 1000000000"
  using assms by (simp only: seconds_signed) (rule signed_take_bit_int_eq_self, simp_all)

lemma seconds_wraps:
  assumes "9223372037 \<le> n" and "n \<le> 18446744073"
  shows "seconds n = n * 1000000000 - 2 ^ 64" and "seconds n < 0"
proof -
  have "seconds n = signed_take_bit 63 (n * 1000000000 - 2 ^ 64)"
    unfolding seconds_signed signed_take_bit_eq_iff_take_bit_eq take_bit_eq_mod
    using minus_mod_self2 [of "n * 1000000000" "2 ^ 64"] by simp
  also have "\<dots> = n * 1000000000 - 2 ^ 64"
    by (rule signed_take_bit_int_eq_self) (use assms in simp_all)
  finally show "seconds n = n * 1000000000 - 2 ^ 64" .
  then show "seconds n < 0"
    using assms by simp
qed

lemma wait_without_time:
  assumes "clock_advances (re_env env)" and "seconds (health_timeout (es_health_check es)) \<le> 0"
  shows "wait_engine_healthy (Suc n) env i net es s =
     (Some (Inl (timeout_text (health_timeout (es_health_check es)))), log_call TimeNow (log_call TimeNow s))"
proof -
  have "en_clock (re_env env) (r_calls s @ [TimeNow]) \<le> en_clock (re_env env) (r_calls s @ [TimeNow, TimeNow])"
    using clock_mono [OF assms(1), of "r_calls s @ [TimeNow]" "[TimeNow]"] by simp
  then show ?thesis
    using assms(2) by (simp add: wait_engine_healthy_def Let_def time_now_def log_call_def)
qed

section \<open>A path without a port\<close>

lemma probe_no_port:
  "hk_path hk \<noteq> [] \<Longrightarrow> hk_port hk = 0 \<Longrightarrow> fst (probe_engine env i net hk s) = None"
  by (simp add: probe_engine_def Let_def split: sum.split)

lemma loop_no_port:
  "health_loop n env i net hk dl s = (r, s') \<Longrightarrow> hk_path hk \<noteq> [] \<Longrightarrow> hk_port hk = 0 \<Longrightarrow>
     r \<noteq> Some (Inr ip)"
proof (induction n arbitrary: s)
  case (Suc n)
  from Suc.prems(1) show ?case
  proof (cases rule: health_loop_cases)
    case (healthy ip')
    then show ?thesis
      using probe_no_port [OF Suc.prems(2,3), of env i net "round_start s"] by simp
  qed (use Suc in auto)
qed simp

lemma wait_no_port:
  assumes "hk_path (es_health_check es) \<noteq> []" and "hk_port (es_health_check es) = 0"
  shows "fst (wait_engine_healthy n env i net es s) \<noteq> Some (Inr ip)"
proof -
  obtain r s' where w: "wait_engine_healthy n env i net es s = (r, s')"
    by force
  then show ?thesis
    using loop_no_port [OF _ assms] by (auto simp: wait_engine_healthy_def Let_def time_now_def)
qed

end
