(* ===== verification/Container_Logs.thy ===== *)
theory Container_Logs
  imports Container_Run
begin

text \<open>
  The log streams: \<open>streamLogs\<close> of \<open>paired_run.go\<close>, which cuts a container's output into lines, and
  \<open>LogStream\<close> of \<open>logs.go\<close>, which copies it.  A reader is the list of its reads, each with the bytes
  it gave and the error it came with; a list that ends without an error is a stream still open.  The
  end of the theory is the channel that the log streams share with the orchestrator, as a step
  relation.
\<close>

section \<open>Readers\<close>

datatype read_error = Eof | Canceled | ReadFailed string

type_synonym reads = "(string \<times> read_error option) list"

definition trim_cr :: "string \<Rightarrow> string" where
  "trim_cr s = trim_right_byte (CHR 0x0D) s"

text \<open>The inner loop: every complete line of the buffer, and what is left of it.\<close>

function drain :: "string \<Rightarrow> string list \<times> string" where
  "drain buf =
     (case cut [CHR 0x0A] buf of
        None \<Rightarrow> ([], buf)
      | Some (a, r) \<Rightarrow>
          (case drain r of (ls, rest) \<Rightarrow>
             (if trim_cr a \<noteq> [] then trim_cr a # ls else ls, rest)))"
  by pat_completeness auto
termination
  by (relation "measure length") (auto dest: cut_shorter)

declare drain.simps [simp del]

definition line_event :: "string \<Rightarrow> string \<Rightarrow> event" where
  "line_event source line = blank_event\<lparr>ev_type := ''progress'', ev_source := source, ev_line := line\<rparr>"

definition logs_error :: "string \<Rightarrow> string \<Rightarrow> event" where
  "logs_error source err = blank_event\<lparr>ev_type := ''error'', ev_phase := ''logs'', ev_source := source,
     ev_error := err\<rparr>"

text \<open>The events \<open>streamLogs\<close> hands to \<open>emit\<close>.\<close>

fun stream_loop :: "string \<Rightarrow> string \<Rightarrow> reads \<Rightarrow> event list" where
  "stream_loop source buf [] = []"
| "stream_loop source buf ((tmp, rerr) # rs) =
     (let (ls, buf') = (if tmp \<noteq> [] then drain (buf @ tmp) else ([], buf)) in
      map (line_event source) ls @
      (case rerr of
         None \<Rightarrow> stream_loop source buf' rs
       | Some (ReadFailed e) \<Rightarrow> [logs_error source e]
       | Some _ \<Rightarrow> []))"

definition stream_logs :: "string \<Rightarrow> (string, reads) result \<Rightarrow> event list" where
  "stream_logs source logs =
     (case logs of Inl e \<Rightarrow> [logs_error source e] | Inr rs \<Rightarrow> stream_loop source [] rs)"

text \<open>\<open>io.Copy\<close> writes what each read gave before it looks at the read's error.\<close>

fun copy_reads :: "('w \<Rightarrow> string \<Rightarrow> (string, unit) result \<times> 'w) \<Rightarrow> reads \<Rightarrow> 'w \<Rightarrow>
    (string, unit) result option \<times> 'w" where
  "copy_reads write [] w = (None, w)"
| "copy_reads write ((tmp, rerr) # rs) w =
     (case (if tmp \<noteq> [] then write w tmp else (Inr (), w)) of
        (Inl e, w') \<Rightarrow> (Some (Inl e), w')
      | (Inr _, w') \<Rightarrow>
          (case rerr of
             None \<Rightarrow> copy_reads write rs w'
           | Some Eof \<Rightarrow> (Some (Inr ()), w')
           | Some Canceled \<Rightarrow> (Some (Inl ''context canceled''), w')
           | Some (ReadFailed e) \<Rightarrow> (Some (Inl e), w')))"

definition log_stream :: "(string, reads) result \<Rightarrow> ('w \<Rightarrow> string \<Rightarrow> (string, unit) result \<times> 'w) \<Rightarrow> 'w \<Rightarrow>
    (string, unit) result option \<times> 'w" where
  "log_stream logs write w =
     (case logs of Inl e \<Rightarrow> (Some (Inl e), w) | Inr rs \<Rightarrow> copy_reads write rs w)"

section \<open>Lines\<close>

text \<open>The complete lines of a text: what lies between its line feeds, without the last piece.\<close>

definition complete_lines :: "string \<Rightarrow> string list" where
  "complete_lines s = filter (\<lambda>l. l \<noteq> []) (map trim_cr (butlast (go_split [CHR 0x0A] s)))"

lemma drain_lines: "drain s = (complete_lines s, last (go_split [CHR 0x0A] s))"
proof (induction s rule: drain.induct)
  case (1 s)
  show ?case
  proof (cases "cut [CHR 0x0A] s")
    case None
    then have "CHR 0x0A \<notin> set s"
      by (rule iffD1 [OF cut_byte_None_iff])
    then have "go_split [CHR 0x0A] s = [s]"
      by (rule go_split_byte_None)
    moreover have "drain s = ([], s)"
      by (subst drain.simps) (simp only: None option.case)
    ultimately show ?thesis
      by (simp add: complete_lines_def)
  next
    case (Some p)
    obtain a r where p: "p = (a, r)" by force
    have "s = a @ CHR 0x0A # r" and "CHR 0x0A \<notin> set a"
      using Some cut_Some cut_byte_fresh by (fastforce simp: p)+
    then have "go_split [CHR 0x0A] s = a # go_split [CHR 0x0A] r"
      by (simp add: go_split_byte_Some)
    then show ?thesis
      using "1.IH" [OF Some p [symmetric]] Some by (simp add: drain.simps [of s] p complete_lines_def)
  qed
qed

lemma go_split_append:
  "go_split [c] (s @ t) = butlast (go_split [c] s) @ go_split [c] (last (go_split [c] s) @ t)"
proof (induction "length s" arbitrary: s rule: less_induct)
  case less
  show ?case
  proof (cases "cut [c] s")
    case None
    then show ?thesis
      by (simp add: cut_byte_None_iff go_split_byte_None)
  next
    case (Some p)
    obtain a r where p: "p = (a, r)" by force
    have s: "s = a @ c # r" and a: "c \<notin> set a"
      using Some cut_Some cut_byte_fresh by (fastforce simp: p)+
    show ?thesis
      using less.hyps [of r] by (simp add: s go_split_byte_Some [OF a])
  qed
qed

lemma last_go_split: "c \<notin> set (last (go_split [c] s))"
  using go_split_byte_pieces [of "last (go_split [c] s)" c s] by simp

lemma complete_lines_append:
  "complete_lines (s @ t) = complete_lines s @ complete_lines (last (go_split [CHR 0x0A] s) @ t)"
  "last (go_split [CHR 0x0A] (s @ t)) = last (go_split [CHR 0x0A] (last (go_split [CHR 0x0A] s) @ t))"
  by (simp_all add: complete_lines_def go_split_append [of _ s] butlast_append)

lemma complete_lines_rest [simp]: "complete_lines (last (go_split [CHR 0x0A] s)) = []"
  by (simp add: complete_lines_def go_split_byte_None last_go_split)

lemma stream_loop_lines:
  "CHR 0x0A \<notin> set buf \<Longrightarrow> stream_loop source buf (map (\<lambda>c. (c, None)) cs @ [(c, Some Eof)]) =
     map (line_event source) (complete_lines (buf @ concat cs @ c))"
proof (induction cs arbitrary: buf)
  case Nil
  then show ?case
    by (simp add: drain_lines) (simp add: complete_lines_def go_split_byte_None)
next
  case (Cons d cs)
  show ?case
  proof (cases "d = []")
    case False
    then show ?thesis
      using Cons.IH [OF last_go_split, of "buf @ d"] complete_lines_append(1) [of "buf @ d" "concat cs @ c"]
      by (simp add: drain_lines)
  qed (use Cons in simp)
qed

text \<open>C22. Cutting the output of a container into lines does not depend on how the bytes arrive: a
  stream that ends normally gives one event per line, without carriage returns at its end, empty
  lines left out, and the text after the last line feed is dropped.\<close>

theorem log_lines_exact:
  "stream_logs source (Inr (map (\<lambda>c. (c, None)) cs @ [(c, Some Eof)])) =
     map (line_event source)
       (filter (\<lambda>l. l \<noteq> []) (map trim_cr (butlast (go_split [CHR 0x0A] (concat cs @ c)))))"
  by (simp add: stream_logs_def stream_loop_lines complete_lines_def)

section \<open>The shared channel\<close>

text \<open>
  An abstraction of the orchestrator and one log stream to what decides who closes and who sends; the
  events themselves, full channels and errors of the reader are left out.  The orchestrator cancels the stream when it returns and then
  closes the channel; it does not wait for the stream, which may be between a read and the send of
  the lines it gave.  A send on a closed channel panics.
\<close>

datatype orchestrator = Working | Returning | Closed

record sharing =
  sh_orchestrator :: orchestrator
  sh_buf :: string
  sh_lines :: "string list"
  sh_ended :: bool
  sh_panic :: bool

definition sharing_start :: sharing where
  "sharing_start = \<lparr>sh_orchestrator = Working, sh_buf = [], sh_lines = [], sh_ended = False, sh_panic = False\<rparr>"

inductive share_step :: "sharing \<Rightarrow> sharing \<Rightarrow> bool" where
  stream_reads:
    "\<not> sh_ended s \<Longrightarrow> \<not> sh_panic s \<Longrightarrow> sh_lines s = [] \<Longrightarrow> drain (sh_buf s @ tmp) = (ls, rest) \<Longrightarrow>
       share_step s (s\<lparr>sh_buf := rest, sh_lines := ls\<rparr>)"
| stream_sends:
    "\<not> sh_panic s \<Longrightarrow> sh_lines s = l # ls \<Longrightarrow> sh_orchestrator s \<noteq> Closed \<Longrightarrow>
       share_step s (s\<lparr>sh_lines := ls\<rparr>)"
| stream_panics:
    "\<not> sh_panic s \<Longrightarrow> sh_lines s = l # ls \<Longrightarrow> sh_orchestrator s = Closed \<Longrightarrow>
       share_step s (s\<lparr>sh_panic := True\<rparr>)"
| stream_ends:
    "\<not> sh_panic s \<Longrightarrow> sh_lines s = [] \<Longrightarrow> share_step s (s\<lparr>sh_ended := True\<rparr>)"
| run_returns:
    "\<not> sh_panic s \<Longrightarrow> sh_orchestrator s = Working \<Longrightarrow> share_step s (s\<lparr>sh_orchestrator := Returning\<rparr>)"
| run_closes:
    "\<not> sh_panic s \<Longrightarrow> sh_orchestrator s = Returning \<Longrightarrow> share_step s (s\<lparr>sh_orchestrator := Closed\<rparr>)"

lemma panic_after_close:
  "share_step\<^sup>*\<^sup>* sharing_start s \<Longrightarrow>
     (sh_panic s \<longrightarrow> sh_orchestrator s = Closed) \<and> list_all (\<lambda>l. l \<noteq> []) (sh_lines s)"
proof (induction rule: rtranclp_induct)
  case base
  then show ?case by (simp add: sharing_start_def)
next
  case (step s t)
  from step.hyps(2) show ?case
  proof (cases rule: share_step.cases)
    case (stream_reads tmp ls rest)
    have "ls = complete_lines (sh_buf s @ tmp)"
      using stream_reads(5) by (simp add: drain_lines)
    then have "list_all (\<lambda>l. l \<noteq> []) ls"
      by (simp add: complete_lines_def list_all_iff)
    then show ?thesis
      using step.IH by (simp add: stream_reads(1))
  next
    case (stream_sends l ls)
    then show ?thesis using step.IH by simp
  next
    case (stream_panics l ls)
    then show ?thesis using step.IH by simp
  next
    case stream_ends
    then show ?thesis using step.IH by simp
  next
    case run_returns
    then show ?thesis using step.IH by simp
  next
    case run_closes
    then show ?thesis using step.IH by simp
  qed
qed

lemma panic_reachable:
  "\<exists>s. share_step\<^sup>*\<^sup>* sharing_start s \<and> sh_panic s"
proof -
  let ?s1 = "sharing_start\<lparr>sh_buf := [], sh_lines := [''x'']\<rparr>"
  let ?s2 = "?s1\<lparr>sh_orchestrator := Returning\<rparr>" and ?s3 = "?s1\<lparr>sh_orchestrator := Closed\<rparr>"
  let ?s4 = "?s3\<lparr>sh_panic := True\<rparr>"
  have "drain (''x'' @ [CHR 0x0A]) = ([''x''], [])"
    by code_simp
  then have "share_step sharing_start ?s1"
    by (intro stream_reads) (simp_all add: sharing_start_def)
  moreover have "share_step ?s1 ?s2"
    by (rule run_returns) (simp_all add: sharing_start_def)
  moreover have "share_step ?s2 ?s3"
    using run_closes [of ?s2] by (simp add: sharing_start_def)
  moreover have "share_step ?s3 ?s4"
    by (rule stream_panics) (simp_all add: sharing_start_def)
  ultimately have "share_step\<^sup>*\<^sup>* sharing_start ?s4"
    by (meson rtranclp.rtrancl_into_rtrancl rtranclp.rtrancl_refl)
  then show ?thesis
    by (intro exI [of _ ?s4]) simp
qed

text \<open>The steps of the automaton reach the panic: a stream that has read a line when the run returns sends
  it on the closed channel.  No panic is reached before the channel is closed.\<close>

theorem closed_channel_panic:
  "(\<exists>s. share_step\<^sup>*\<^sup>* sharing_start s \<and> sh_panic s) \<and>
   \<not> (\<exists>s. share_step\<^sup>*\<^sup>* sharing_start s \<and> sh_panic s \<and> sh_orchestrator s \<noteq> Closed)"
  using panic_reachable panic_after_close by blast

end
