(* ===== verification/Container_Theorems.thy ===== *)
theory Container_Theorems
  imports Container_Health Container_Logs "HOL-Library.Sublist"
begin

text \<open>
  The properties of the paired run, each for every environment: what the cleanup removes, which
  event tells the outcome on the channel shared with the log streams, and what has been seen of the
  engine before the benchmark is created.
\<close>

section \<open>What was created\<close>

definition nothing_made :: "run_env \<Rightarrow> run \<Rightarrow> bool" where
  "nothing_made env s \<longleftrightarrow>
     created (re_env env) (r_calls s) = {} \<and> r_engine s = [] \<and> r_bench s = []"

definition engine_made :: "run_env \<Rightarrow> run \<Rightarrow> bool" where
  "engine_made env s \<longleftrightarrow> created (re_env env) (r_calls s) = {r_engine s} \<and> r_bench s = []"

definition made :: "run_env \<Rightarrow> run \<Rightarrow> bool" where
  "made env s \<longleftrightarrow>
     insert [] (created (re_env env) (r_calls s)) = insert [] {r_engine s, r_bench s}"

lemma created_quiet: "quiet s s' \<Longrightarrow> created env (r_calls s') = created env (r_calls s)"
  by (auto simp: quiet_def created_append)

lemma quiet_ids: "quiet s s' \<Longrightarrow> r_engine s' = r_engine s \<and> r_bench s' = r_bench s"
  by (simp add: quiet_def)

lemma lasting_made [simp]:
  "lasting (nothing_made env)" "lasting (engine_made env)" "lasting (made env)"
  unfolding lasting_def nothing_made_def engine_made_def made_def
  by (simp_all add: created_quiet quiet_ids)

lemma nothing_is_made: "nothing_made env s \<Longrightarrow> made env s"
  by (simp add: nothing_made_def made_def)

lemma engine_is_made: "engine_made env s \<Longrightarrow> made env s"
  by (auto simp: engine_made_def made_def)

lemma creates_calls [simp]: "creates (engine_call v spec)" "creates (bench_call spec ip)"
  by (simp_all add: engine_call_def bench_call_def Let_def)

lemma triple_create_engine:
  "triple (nothing_made env) (create_engine_container env v spec)
     (\<lambda>_. engine_made env) (\<lambda>_. made env)"
proof (rule tripleI)
  fix s e s'
  assume "nothing_made env s" and "create_engine_container env v spec s = (Inl e, s')"
  then show "made env s'"
    by (auto simp: create_engine_container_def docker_create_def nothing_made_def made_def
        log_call_def created_snoc split: sum.splits)
next
  fix s i s'
  assume "nothing_made env s" and "create_engine_container env v spec s = (Inr i, s')"
  then show "engine_made env s'"
    by (auto simp: create_engine_container_def docker_create_def nothing_made_def engine_made_def
        log_call_def created_snoc split: sum.splits)
qed

lemma triple_create_bench:
  "triple (engine_made env) (create_benchmark_container env spec ip)
     (\<lambda>_. made env) (\<lambda>_. made env)"
proof (rule tripleI)
  fix s e s'
  assume s: "engine_made env s" and "create_benchmark_container env spec ip s = (Inl e, s')"
  then have "s' = log_call (bench_call spec ip) s"
    and "en_create (re_env env) (r_calls s) (bench_call spec ip) = Inl e"
    by (simp_all add: create_benchmark_container_def docker_create_def split: sum.splits)
  then show "made env s'"
    using engine_is_made [OF s] by (simp add: made_def log_call_def created_snoc)
next
  fix s i s'
  assume s: "engine_made env s" and "create_benchmark_container env spec ip s = (Inr i, s')"
  then have "s' = (log_call (bench_call spec ip) s)\<lparr>r_bench := i\<rparr>"
    and "en_create (re_env env) (r_calls s) (bench_call spec ip) = Inr i"
    by (simp_all add: create_benchmark_container_def docker_create_def split: sum.splits)
  then show "made env s'"
    using s by (simp add: engine_made_def made_def log_call_def created_snoc insert_commute)
qed

lemma triple_do:
  assumes "lasting P" and "\<not> creates c" and "\<And>s. P s \<Longrightarrow> E s"
  shows "triple P (docker_do env c) (\<lambda>_. P) (\<lambda>_. E)"
  by (rule triple_weaken [OF triple_quiet [OF assms(1)]]) (use quiet_do assms in blast)+

lemma triple_made_quiet:
  assumes "lasting P" and "\<And>s. P s \<Longrightarrow> E s" and "\<And>s r s'. m s = (r, s') \<Longrightarrow> quiet s s'"
  shows "triple P m (\<lambda>_. P) (\<lambda>_. E)"
  by (rule triple_weaken [OF triple_quiet [OF assms(1)]]) (use assms in blast)+

lemma triple_emit:
  assumes "lasting (Q x)" and "no_result ev"
  shows "triple (Q x) (\<lambda>s. (Inr x, emit env ev s)) Q E"
  by (rule tripleI) (use lastingD [OF assms(1)] quiet_emit assms(2) in fastforce)+

lemmas stages = triple_bind triple_status triple_step triple_start_logs triple_do triple_emit

lemma triple_made_health:
  "lasting P \<Longrightarrow> (\<And>s. P s \<Longrightarrow> E s) \<Longrightarrow>
    triple P (health_step n env spec i) (\<lambda>_. P) (\<lambda>_. E)"
  by (rule triple_made_quiet) (use quiet_health_step in blast)+

lemma engine_phase_made:
  "triple (nothing_made env) (engine_phase n env v spec) (\<lambda>_. engine_made env) (\<lambda>_. made env)"
  unfolding engine_phase_def
  by (rule stages triple_create_engine lasting_made triple_made_health
    | simp add: nothing_is_made engine_is_made | assumption)+

text \<open>Properties of the calls and the ids alone also last while the results are collected.\<close>

definition calm :: "run \<Rightarrow> run \<Rightarrow> bool" where
  "calm s s' \<longleftrightarrow>
     (\<exists>h. r_calls s' = r_calls s @ h \<and> list_all (\<lambda>c. \<not> creates c) h) \<and>
     r_engine s' = r_engine s \<and> r_bench s' = r_bench s"

definition steady :: "(run \<Rightarrow> bool) \<Rightarrow> bool" where
  "steady P \<longleftrightarrow> (\<forall>s s'. P s \<longrightarrow> calm s s' \<longrightarrow> P s')"

lemma calm_trans: "calm s t \<Longrightarrow> calm t u \<Longrightarrow> calm s u"
  unfolding calm_def by (elim conjE exE) (simp add: list_all_append)

lemma quiet_calm: "quiet s s' \<Longrightarrow> calm s s'"
  by (simp add: quiet_def calm_def)

lemma steadyD: "steady P \<Longrightarrow> P s \<Longrightarrow> calm s s' \<Longrightarrow> P s'"
  by (auto simp: steady_def)

lemma steady_lasting: "steady P \<Longrightarrow> lasting P"
  unfolding steady_def lasting_def using quiet_calm by blast

lemma calm_emit: "calm s (emit env ev s)"
  by (auto simp: emit_def time_now_def calm_def log_call_def split: option.splits prod.splits)

lemma calm_collect: "collect_results env start i code s = (r, s') \<Longrightarrow> calm s s'"
proof -
  assume c: "collect_results env start i code s = (r, s')"
  let ?s1 = "if code \<noteq> 0 then emit env (exit_event code) s else s"
  let ?s2 = "emit env (status_event ''collecting-results'') ?s1"
  obtain o3 s3 where r: "read_results env i ?s2 = (o3, s3)"
    by force
  have "calm s ?s1"
    using calm_emit [of s] by (simp add: quiet_calm)
  then have s3: "calm s s3"
    using calm_emit [of ?s1] quiet_calm [OF quiet_read [OF r]] calm_trans by blast
  have "calm s3 s'"
  proof (cases o3)
    case (Inl e)
    then show ?thesis
      using c r calm_emit by (auto simp: collect_results_def emit_error_def)
  next
    case (Inr results)
    obtain t s4 where t: "time_now env s3 = (t, s4)"
      by force
    have "s' = emit env (result_event results ((t - start) div 1000000)) s4"
      using c r Inr t by (simp add: collect_results_def)
    then show ?thesis
      using quiet_calm [OF quiet_time [OF t]] calm_emit calm_trans by blast
  qed
  then show ?thesis
    using s3 calm_trans by blast
qed

lemma triple_collect:
  "steady P \<Longrightarrow> triple P (collect_results env start i code) (\<lambda>_. P) (\<lambda>_. P)"
  by (rule tripleI) (use steadyD calm_collect in blast)+

lemma created_calm: "calm s s' \<Longrightarrow> created env (r_calls s') = created env (r_calls s)"
  by (auto simp: calm_def created_append)

lemma calm_ids: "calm s s' \<Longrightarrow> r_engine s' = r_engine s \<and> r_bench s' = r_bench s"
  by (simp add: calm_def)

lemma steady_made [simp]: "steady (made env)"
  unfolding steady_def made_def by (simp add: created_calm calm_ids)

lemma triple_made_copy:
  "lasting P \<Longrightarrow> (\<And>s. P s \<Longrightarrow> E s) \<Longrightarrow>
    triple P (copy_benchmark_config env i bs) (\<lambda>_. P) (\<lambda>_. E)"
  by (rule triple_made_quiet) (use quiet_copy in blast)+

lemma triple_made_exit:
  "lasting P \<Longrightarrow> (\<And>s. P s \<Longrightarrow> E s) \<Longrightarrow> triple P (wait_for_exit env i) (\<lambda>_. P) (\<lambda>_. E)"
  by (rule triple_made_quiet) (use quiet_exit in blast)+

lemma benchmark_phase_made:
  "triple (engine_made env) (benchmark_phase env spec start ip) (\<lambda>_. made env) (\<lambda>_. made env)"
  unfolding benchmark_phase_def
  by (rule stages triple_create_bench lasting_made triple_made_copy triple_made_exit
      triple_collect steady_made
    | simp add: nothing_is_made engine_is_made | assumption)+

section \<open>When the benchmark is created\<close>

fun makes :: "string \<Rightarrow> call \<Rightarrow> bool" where
  "makes name (ContainerCreate cfg host nets n) \<longleftrightarrow> n = name"
| "makes name _ \<longleftrightarrow> False"

definition engine_from :: "run_env \<Rightarrow> vendor \<Rightarrow> paired_run_spec \<Rightarrow> history \<Rightarrow> string \<Rightarrow> bool" where
  "engine_from env v spec h i \<longleftrightarrow>
     (\<exists>h1. prefix (h1 @ [engine_call v spec]) h \<and> en_create (re_env env) h1 (engine_call v spec) = Inr i)"

definition ready :: "run_env \<Rightarrow> vendor \<Rightarrow> paired_run_spec \<Rightarrow> history \<Rightarrow> string \<Rightarrow> bool" where
  "ready env v spec h ip \<longleftrightarrow> (\<exists>i. engine_from env v spec h i \<and> engine_seen env spec h i ip)"

definition grounded :: "run_env \<Rightarrow> vendor \<Rightarrow> paired_run_spec \<Rightarrow> history \<Rightarrow> bool" where
  "grounded env v spec h \<longleftrightarrow>
     (\<forall>k < length h. makes (bench_name spec) (h ! k) \<longrightarrow>
        (\<exists>ip. h ! k = bench_call spec ip \<and> ready env v spec (take k h) ip))"

definition unbenched :: "paired_run_spec \<Rightarrow> run \<Rightarrow> bool" where
  "unbenched spec s \<longleftrightarrow> list_all (\<lambda>c. \<not> makes (bench_name spec) c) (r_calls s)"

lemma makes_creates: "makes name c \<Longrightarrow> creates c"
  by (cases c) simp_all

lemma makes_engine [simp]: "\<not> makes (bench_name spec) (engine_call v spec)"
  by (simp add: engine_call_def Let_def engine_name_def bench_name_def)

lemma no_creates_no_bench:
  "list_all (\<lambda>c. \<not> creates c) h \<Longrightarrow> list_all (\<lambda>c. \<not> makes name c) h"
  using makes_creates by (auto simp: list_all_iff)

lemma grounded_snoc:
  "grounded env v spec (h @ [c]) \<longleftrightarrow> grounded env v spec h \<and>
     (makes (bench_name spec) c \<longrightarrow> (\<exists>ip. c = bench_call spec ip \<and> ready env v spec h ip))"
proof -
  let ?P = "\<lambda>h' k. makes (bench_name spec) (h' ! k) \<longrightarrow>
    (\<exists>ip. h' ! k = bench_call spec ip \<and> ready env v spec (take k h') ip)"
  have "grounded env v spec (h @ [c]) \<longleftrightarrow>
      (\<forall>k < length h. ?P (h @ [c]) k) \<and> ?P (h @ [c]) (length h)"
    unfolding grounded_def by (auto simp only: length_append_singleton less_Suc_eq)
  also have "(\<forall>k < length h. ?P (h @ [c]) k) \<longleftrightarrow> grounded env v spec h"
    unfolding grounded_def by (rule all_cong) (simp add: nth_append)
  finally show ?thesis
    by simp
qed

lemma grounded_append:
  "grounded env v spec h \<Longrightarrow> list_all (\<lambda>c. \<not> makes (bench_name spec) c) h' \<Longrightarrow>
     grounded env v spec (h @ h')"
proof (induction h' rule: rev_induct)
  case (snoc c h')
  then show ?case
    using grounded_snoc [of env v spec "h @ h'" c] by simp
qed simp

lemma unbenched_grounded: "unbenched spec s \<Longrightarrow> grounded env v spec (r_calls s)"
  using grounded_append [of env v spec "[]" "r_calls s"]
  by (simp add: unbenched_def) (simp add: grounded_def)

lemma engine_from_append: "engine_from env v spec h i \<Longrightarrow> engine_from env v spec (h @ h') i"
  unfolding engine_from_def using prefix_prefix by blast

lemma ready_append: "ready env v spec h ip \<Longrightarrow> ready env v spec (h @ h') ip"
  unfolding ready_def using engine_from_append engine_seen_append by blast

lemma steady_bench [simp]:
  "steady (unbenched spec)"
  "steady (\<lambda>s. unbenched spec s \<and> engine_from env v spec (r_calls s) i)"
  "steady (\<lambda>s. unbenched spec s \<and> ready env v spec (r_calls s) ip)"
  "steady (\<lambda>s. grounded env v spec (r_calls s))"
  by (auto simp: steady_def calm_def unbenched_def no_creates_no_bench engine_from_append
      ready_append grounded_append)

lemmas lasting_bench [simp] = steady_bench [THEN steady_lasting]

lemma triple_engine_from:
  "triple (unbenched spec) (create_engine_container env v spec)
     (\<lambda>i s. unbenched spec s \<and> engine_from env v spec (r_calls s) i)
     (\<lambda>_ s. grounded env v spec (r_calls s))"
proof -
  have "unbenched spec s' \<and> (case r of Inl _ \<Rightarrow> True | Inr i \<Rightarrow> engine_from env v spec (r_calls s') i)"
    if "unbenched spec s" and "create_engine_container env v spec s = (r, s')" for s r s'
    using that by (auto simp: create_engine_container_def docker_create_def log_call_def
        unbenched_def engine_from_def split: sum.splits)
  then show ?thesis
    by (intro tripleI) (fastforce intro: unbenched_grounded)+
qed

lemma triple_bench_grounded:
  "triple (\<lambda>s. unbenched spec s \<and> ready env v spec (r_calls s) ip)
     (create_benchmark_container env spec ip)
     (\<lambda>_ s. grounded env v spec (r_calls s)) (\<lambda>_ s. grounded env v spec (r_calls s))"
proof -
  have "grounded env v spec (r_calls s')"
    if "unbenched spec s" and "ready env v spec (r_calls s) ip"
      and c: "create_benchmark_container env spec ip s = (r, s')" for s r s'
  proof -
    have "r_calls s' = r_calls s @ [bench_call spec ip]"
      using c by (auto simp: create_benchmark_container_def docker_create_def log_call_def split: sum.splits)
    then show ?thesis
      using that(2) unbenched_grounded [OF that(1), of env v] by (auto simp: grounded_snoc)
  qed
  then show ?thesis
    by (intro tripleI) blast+
qed

lemma triple_health_ready:
  "triple (\<lambda>s. unbenched spec s \<and> engine_from env v spec (r_calls s) i) (health_step n env spec i)
     (\<lambda>ip s. unbenched spec s \<and> ready env v spec (r_calls s) ip)
     (\<lambda>_ s. grounded env v spec (r_calls s))"
proof -
  have "unbenched spec s' \<and> (case r of Inl _ \<Rightarrow> True | Inr ip \<Rightarrow> ready env v spec (r_calls s') ip)"
    if P: "unbenched spec s \<and> engine_from env v spec (r_calls s) i"
      and h: "health_step n env spec i s = (r, s')" for s r s'
  proof -
    have "unbenched spec s' \<and> engine_from env v spec (r_calls s') i"
      using lastingD [OF lasting_bench(2) P quiet_health_step [OF h]] .
    moreover have "engine_seen env spec (r_calls s') i ip" if "r = Inr ip" for ip
      using h that wait_seen by (auto simp: health_step_def split: prod.splits option.splits sum.splits)
    ultimately show ?thesis
      by (cases r) (auto simp: ready_def)
  qed
  then show ?thesis
    by (intro tripleI) (fastforce intro: unbenched_grounded)+
qed

lemma body_grounded:
  "triple (unbenched spec) (paired_body n env v spec)
     (\<lambda>_ s. grounded env v spec (r_calls s)) (\<lambda>_ s. grounded env v spec (r_calls s))"
proof -
  have engine: "triple (unbenched spec) (engine_phase n env v spec)
      (\<lambda>ip s. unbenched spec s \<and> ready env v spec (r_calls s) ip)
      (\<lambda>_ s. grounded env v spec (r_calls s))"
    unfolding engine_phase_def
    by (rule stages lasting_bench triple_engine_from triple_health_ready
      | simp add: unbenched_grounded | assumption)+
  have "triple (\<lambda>s. unbenched spec s \<and> ready env v spec (r_calls s) ip) (benchmark_phase env spec start ip)
      (\<lambda>_ s. grounded env v spec (r_calls s)) (\<lambda>_ s. grounded env v spec (r_calls s))" for start ip
    unfolding benchmark_phase_def
    by (rule stages lasting_bench triple_bench_grounded triple_made_copy triple_made_exit
        triple_collect steady_bench | simp add: unbenched_grounded | assumption)+
  with engine have both: "triple (unbenched spec)
      (and_then (engine_phase n env v spec) (benchmark_phase env spec start))
      (\<lambda>_ s. grounded env v spec (r_calls s)) (\<lambda>_ s. grounded env v spec (r_calls s))" for start
    by (rule triple_bind)
  show ?thesis
    by (rule tripleI; simp add: paired_body_def time_now_def)
      (use both lastingD [OF lasting_bench(1)] quiet_log [of TimeNow] in
        \<open>fastforce dest: triple_Inl triple_Inr\<close>)+
qed

section \<open>How a run ends\<close>

definition clean :: "run \<Rightarrow> bool" where
  "clean s \<longleftrightarrow> list_all no_result (r_sent s)"

text \<open>The orchestrator's last event tells the outcome of a failed run.\<close>

definition told :: "run_error \<Rightarrow> run \<Rightarrow> bool" where
  "told e s \<longleftrightarrow> clean s \<and> (e \<noteq> HealthFuel \<longrightarrow> r_sent s \<noteq> [] \<and> ev_type (last (r_sent s)) = ''error'' \<and>
     ev_source (last (r_sent s)) = ''orchestrator'')"

definition has_result :: "run \<Rightarrow> bool" where
  "has_result s \<longleftrightarrow>
     (\<exists>evs ev. r_sent s = evs @ [ev] \<and> list_all no_result evs \<and> ev_type ev = ''result'' \<and>
        ev_source ev = ''orchestrator'' \<and> json_valid (ev_results ev) \<and> length (ev_results ev) \<le> max_results_size)"

definition delivers :: "run_env \<Rightarrow> bool" where
  "delivers env \<longleftrightarrow> (\<forall>s. re_room_wait env s)"

lemma lasting_clean [simp]: "lasting clean"
  by (auto simp: lasting_def clean_def quiet_def)

lemma clean_quiet: "clean s \<Longrightarrow> quiet s s' \<Longrightarrow> clean s'"
  using lastingD [OF lasting_clean] .

lemma clean_emit [simp]: "clean s \<Longrightarrow> no_result ev \<Longrightarrow> clean (emit env ev s)"
  using clean_quiet quiet_emit by blast

lemma emit_terminal:
  assumes "delivers env" and "terminal ev" and "ev_time ev = None"
  shows "\<exists>t. r_sent (emit env ev s) = r_sent s @ [ev\<lparr>ev_time := Some t\<rparr>]"
  using assms by (auto simp: emit_def delivers_def time_now_def log_call_def terminal_def)

lemma emit_error_told:
  assumes "delivers env" and "clean s"
  shows "told e (emit_error env phase err s)"
proof -
  obtain t where "r_sent (emit_error env phase err s) = r_sent s @ [(error_event phase err)\<lparr>ev_time := Some t\<rparr>]"
    using emit_terminal [OF assms(1), of "error_event phase err" s]
    by (auto simp: emit_error_def error_event_def blank_event_def terminal_def)
  then show ?thesis
    using assms(2) by (simp add: told_def clean_def error_event_def)
qed

lemma triple_step_told:
  assumes "triple P m Q (\<lambda>_. clean)" and "delivers env"
  shows "triple P (step env phase what m) Q told"
proof (rule tripleI)
  fix s e s'
  assume "P s" and *: "step env phase what m s = (Inl e, s')"
  then obtain e1 s1 where "m s = (Inl e1, s1)" "s' = emit_error env phase e1 s1"
    by (auto simp: step_def split: prod.splits sum.splits)
  with \<open>P s\<close> show "told e s'"
    using triple_Inl [OF assms(1)] emit_error_told [OF assms(2)] by blast
next
  fix s x s'
  assume "P s" and "step env phase what m s = (Inr x, s')"
  then show "Q x s'"
    using triple_Inr [OF assms(1)] by (auto simp: step_def split: prod.splits sum.splits)
qed

lemma triple_create_clean:
  "triple clean (create_engine_container env v spec) (\<lambda>_. clean) (\<lambda>_. clean)"
  "triple clean (create_benchmark_container env spec ip) (\<lambda>_. clean) (\<lambda>_. clean)"
  by (auto intro!: tripleI simp: create_engine_container_def create_benchmark_container_def
      docker_create_def log_call_def clean_def split: sum.splits)

lemma triple_health_told:
  assumes "delivers env"
  shows "triple clean (health_step n env spec i) (\<lambda>_. clean) told"
proof -
  have "clean s' \<and> (case r of Inl e \<Rightarrow> told e s' | Inr _ \<Rightarrow> True)"
    if s: "clean s" and h: "health_step n env spec i s = (r, s')" for s r s'
  proof -
    obtain o1 s1 where w: "wait_engine_healthy n env i (network_name spec) (ps_engine spec) s = (o1, s1)"
      by force
    have s1: "clean s1"
      using s quiet_wait [OF w] by (rule clean_quiet)
    have "clean s'"
      using s quiet_health_step [OF h] by (rule clean_quiet)
    moreover have "case r of Inl e \<Rightarrow> told e s' | Inr _ \<Rightarrow> True"
      using h w s1 emit_error_told [OF assms s1]
      by (auto simp: health_step_def told_def split: option.splits sum.splits)
    ultimately show ?thesis ..
  qed
  then show ?thesis
    by (intro tripleI) (fastforce split: sum.splits)+
qed

lemma read_archive_ok:
  "read_archive items = Inr data \<Longrightarrow> json_valid data \<and> length data \<le> max_results_size"
  by (induction items rule: read_archive.induct) (auto simp: Let_def split: if_splits)

lemma collect_told:
  assumes "delivers env"
  shows "triple clean (collect_results env start i code) (\<lambda>_. has_result) told"
proof -
  have "case r of Inl e \<Rightarrow> told e s' | Inr _ \<Rightarrow> has_result s'"
    if s: "clean s" and c: "collect_results env start i code s = (r, s')" for s r s'
  proof -
    let ?s2 = "emit env (status_event ''collecting-results'')
      (if code \<noteq> 0 then emit env (exit_event code) s else s)"
    obtain o3 s3 where r: "read_results env i ?s2 = (o3, s3)"
      by force
    have "clean ?s2"
      using s by simp
    then have s3: "clean s3"
      using quiet_read [OF r] by (rule clean_quiet)
    show ?thesis
    proof (cases o3)
      case (Inl e)
      then show ?thesis
        using c r emit_error_told [OF assms s3] by (auto simp: collect_results_def)
    next
      case (Inr results)
      then have data: "json_valid results" "length results \<le> max_results_size"
        using r read_archive_ok by (auto simp: read_results_def Let_def split: sum.splits)
      obtain t s4 where t: "time_now env s3 = (t, s4)"
        by force
      have s4: "clean s4"
        using s3 quiet_time [OF t] by (rule clean_quiet)
      let ?ev = "result_event results ((t - start) div 1000000)"
      have "r = Inr () \<and> s' = emit env ?ev s4"
        using c r Inr t by (auto simp: collect_results_def)
      moreover obtain u where "r_sent (emit env ?ev s4) = r_sent s4 @ [?ev\<lparr>ev_time := Some u\<rparr>]"
        using emit_terminal [OF assms, of ?ev s4]
        by (auto simp: result_event_def blank_event_def terminal_def)
      ultimately show ?thesis
        using s4 data by (simp add: has_result_def clean_def) (simp add: result_event_def)
    qed
  qed
  then show ?thesis
    by (intro tripleI) (fastforce split: sum.splits)+
qed

lemma run_told:
  assumes "delivers env"
  shows "triple clean (paired_body n env v spec) (\<lambda>_. has_result) told"
proof -
  note quiet_parts = triple_made_copy triple_made_exit triple_create_clean lasting_clean
  have engine: "triple clean (engine_phase n env v spec) (\<lambda>_. clean) told"
    unfolding engine_phase_def
    by (rule triple_bind triple_status triple_step_told triple_start_logs triple_do triple_emit
        quiet_parts triple_health_told | simp add: assms)+
  have "triple clean (benchmark_phase env spec start ip) (\<lambda>_. has_result) told" for start ip
    unfolding benchmark_phase_def
    by (rule triple_bind triple_status triple_step_told triple_start_logs triple_do triple_emit
        quiet_parts collect_told | simp add: assms)+
  then have both: "triple clean (and_then (engine_phase n env v spec) (benchmark_phase env spec start))
      (\<lambda>_. has_result) told" for start
    using engine by (rule triple_bind [rotated])
  show ?thesis
    by (rule tripleI; simp add: paired_body_def time_now_def)
      (use both clean_quiet quiet_log [of TimeNow] in \<open>fastforce dest: triple_Inl triple_Inr\<close>)+
qed

lemma health_step_result:
  "fst (health_step n env spec i s) =
     (case fst (wait_engine_healthy n env i (network_name spec) (ps_engine spec) s) of
        None \<Rightarrow> Inl HealthFuel
      | Some (Inl e) \<Rightarrow> Inl (StepFailed ''engine health'' e)
      | Some (Inr ip) \<Rightarrow> Inr ip)"
  by (simp add: health_step_def split: prod.split option.split sum.split)

lemma body_fuelled:
  assumes "clock_advances (re_env env)" and "health_rounds (es_health_check (ps_engine spec)) < n"
  shows "triple (\<lambda>_. True) (paired_body n env v spec) (\<lambda>_ _. True) (\<lambda>e _. e \<noteq> HealthFuel)"
proof -
  have step: "triple (\<lambda>_. True) (step env phase what m) (\<lambda>_ _. True) (\<lambda>e _. e \<noteq> HealthFuel)"
    for phase what and m :: "'x act"
    by (rule tripleI) (auto simp: step_def split: prod.splits sum.splits)
  have simple: "triple (\<lambda>_. True) (status env phase) (\<lambda>_ _. True) (\<lambda>e _. e \<noteq> HealthFuel)"
    "triple (\<lambda>_. True) (start_logs i source) (\<lambda>_ _. True) (\<lambda>e _. e \<noteq> HealthFuel)"
    "triple (\<lambda>_. True) (\<lambda>s. (Inr ip, emit env ev s)) (\<lambda>_ _. True) (\<lambda>e _. e \<noteq> HealthFuel)"
    for phase i source ip ev
    by (auto intro!: tripleI simp: status_def start_logs_def)
  have health: "triple (\<lambda>_. True) (health_step n env spec i) (\<lambda>_ _. True) (\<lambda>e _. e \<noteq> HealthFuel)" for i
  proof (rule tripleI)
    fix s e s'
    assume "health_step n env spec i s = (Inl e, s')"
    then show "e \<noteq> HealthFuel"
      using wait_ends [OF assms, of i "network_name spec" s] health_step_result [of n env spec i s]
      by (auto split: option.splits sum.splits)
  qed simp
  have collect: "triple (\<lambda>_. True) (collect_results env start i code) (\<lambda>_ _. True) (\<lambda>e _. e \<noteq> HealthFuel)"
    for start i code
    by (intro tripleI) (auto simp: collect_results_def Let_def split: prod.splits sum.splits if_splits)
  have "triple (\<lambda>_. True) (engine_phase n env v spec) (\<lambda>_ _. True) (\<lambda>e _. e \<noteq> HealthFuel)"
    unfolding engine_phase_def by (rule triple_bind step simple health)+
  moreover have "triple (\<lambda>_. True) (benchmark_phase env spec start ip) (\<lambda>_ _. True) (\<lambda>e _. e \<noteq> HealthFuel)"
    for start ip
    unfolding benchmark_phase_def by (rule triple_bind step simple collect)+
  ultimately have both: "triple (\<lambda>_. True) (and_then (engine_phase n env v spec) (benchmark_phase env spec start))
      (\<lambda>_ _. True) (\<lambda>e _. e \<noteq> HealthFuel)" for start
    by (rule triple_bind)
  show ?thesis
    by (rule tripleI; simp add: paired_body_def time_now_def)
      (use both in \<open>fastforce dest: triple_Inl\<close>)
qed

lemma body_no_port:
  assumes "hk_path (es_health_check (ps_engine spec)) \<noteq> []"
    and "hk_port (es_health_check (ps_engine spec)) = 0"
  shows "fst (paired_body n env v spec s) \<noteq> Inr ()"
proof -
  have any: "triple (\<lambda>_. True) m (\<lambda>_ _. True) (\<lambda>_ _. True)" for m :: "run \<Rightarrow> (run_error, 'x) result \<times> run"
    by (rule tripleI) simp_all
  have health: "triple (\<lambda>_. True) (health_step n env spec i) (\<lambda>_ _. False) (\<lambda>_ _. True)" for i
  proof (rule tripleI)
    fix s ip s'
    assume "health_step n env spec i s = (Inr ip, s')"
    then show False
      using wait_no_port [OF assms, of n env i "network_name spec" s] health_step_result [of n env spec i s]
      by (auto split: option.splits sum.splits)
  qed simp
  have last: "triple (\<lambda>_. False) m (\<lambda>_ _. False) (\<lambda>_ _. True)" for m :: "run \<Rightarrow> (run_error, 'y) result \<times> run"
    by (rule tripleI) simp_all
  have "triple (\<lambda>_. True) (engine_phase n env v spec) (\<lambda>_ _. False) (\<lambda>_ _. True)"
    unfolding engine_phase_def
    by (rule triple_bind [OF any], intro triple_bind [OF any] triple_bind [OF health] last)
  then have both: "triple (\<lambda>_. True) (and_then (engine_phase n env v spec) (benchmark_phase env spec start))
      (\<lambda>_ _. False) (\<lambda>_ _. True)" for start
    by (rule triple_bind) (rule last)
  show ?thesis
  proof
    assume fin: "fst (paired_body n env v spec s) = Inr ()"
    obtain start s1 where t: "time_now env s = (start, s1)"
      by force
    obtain s' where "and_then (engine_phase n env v spec) (benchmark_phase env spec start) s1 = (Inr (), s')"
      using fin t by (simp add: paired_body_def) (metis prod.collapse)
    then show False
      using triple_Inr [OF both] by blast
  qed
qed

lemma emit_effects [simp]:
  "ev_time ev = None \<Longrightarrow> r_calls (emit env ev s) = r_calls s @ [TimeNow]"
  "r_engine (emit env ev s) = r_engine s" "r_bench (emit env ev s) = r_bench s"
  by (auto simp: emit_def time_now_def log_call_def split: option.split)

lemma own_times [simp]:
  "ev_time (status_event phase) = None" "ev_time (error_event phase err) = None"
  "ev_time (exit_event code) = None" "ev_time (result_event results ms) = None"
  "ev_time (healthy_event spec ip) = None"
  by (simp_all add: status_event_def error_event_def exit_event_def result_event_def
      healthy_event_def blank_event_def)

lemma log_effects [simp]:
  "r_calls (log_call c s) = r_calls s @ [c]"
  "r_engine (log_call c s) = r_engine s" "r_bench (log_call c s) = r_bench s"
  by (simp_all add: log_call_def)

named_theorems runs \<open>evaluation of a run, stage by stage\<close>

lemma then_status [runs]: "and_then (status env phase) k s = k () (emit env (status_event phase) s)"
  by (simp add: and_then_def status_def)

lemma then_logs [runs]: "and_then (start_logs i source) k s = k () (log_call (StartLogs i source) s)"
  by (simp add: and_then_def start_logs_def)

lemma then_ok: "m s = (Inr x, s') \<Longrightarrow> and_then (step env phase what m) k s = k x s'"
  by (simp add: and_then_def step_def)

lemma then_fails:
  "m s = (Inl e, s') \<Longrightarrow>
     and_then (step env phase what m) k s = (Inl (StepFailed what e), emit_error env phase e s')"
  by (simp add: and_then_def step_def)

lemma then_do [runs]:
  "en_do (re_env env) (r_calls s) c = Inr () \<Longrightarrow>
     and_then (step env phase what (docker_do env c)) k s = k () (log_call c s)"
  "en_do (re_env env) (r_calls s) c = Inl e \<Longrightarrow>
     and_then (step env phase what (docker_do env c)) k s =
       (Inl (StepFailed what e), emit_error env phase e (log_call c s))"
  by (simp_all add: then_ok then_fails docker_do_def)

lemma then_and_then [runs]: "and_then (and_then m k) k' s = and_then m (\<lambda>x. and_then (k x) k') s"
  by (simp add: and_then_def split: prod.split sum.split)

section \<open>A run on which nothing fails\<close>

text \<open>The calls to the daemon and the engine, without the readings of clock and context.\<close>

definition shown :: "history \<Rightarrow> history" where
  "shown h = filter (\<lambda>c. c \<noteq> TimeNow \<and> c \<noteq> CtxErr) h"

definition config_calls :: "string \<Rightarrow> benchmark_spec \<Rightarrow> history" where
  "config_calls i bs =
     (if bs_kind bs = ''yaml'' \<and> bs_yaml_spec bs \<noteq> [] then
        [CopyToContainer i ''/'' [(''config.yaml'', 420, bs_yaml_spec bs)]]
      else if bs_kind bs = ''container'' \<and> bs_config bs \<noteq> [] then
        [CopyToContainer i ''/'' [(''config.json'', 420, bs_config bs)]]
      else [])"

definition health_calls :: "string \<Rightarrow> string \<Rightarrow> health_check \<Rightarrow> history" where
  "health_calls i ip hk =
     ContainerInspect i # (if hk_path hk = [] then [] else [HttpGet (health_url ip (hk_port hk) (hk_path hk))])"

text \<open>An environment on which every step of a run with the two ids and the address succeeds.\<close>

definition smooth :: "run_env \<Rightarrow> vendor \<Rightarrow> paired_run_spec \<Rightarrow> string \<Rightarrow> string \<Rightarrow> string \<Rightarrow> string \<Rightarrow> bool" where
  "smooth env v spec e b ip data \<longleftrightarrow>
     (let d = re_env env; hk = es_health_check (ps_engine spec) in
      (\<forall>h c. en_do d h c = Inr ()) \<and>
      (\<forall>h. en_create d h (engine_call v spec) = Inr e) \<and>
      (\<forall>h. en_create d h (bench_call spec ip) = Inr b) \<and>
      (\<forall>h. \<exists>info. en_inspect d h (ContainerInspect e) = Inr info \<and> endpoint_ip info (network_name spec) = ip) \<and>
      ip \<noteq> [] \<and>
      (hk_path hk \<noteq> [] \<longrightarrow> hk_port hk \<noteq> 0 \<and>
         (\<forall>h. \<exists>code. en_http d h (health_url ip (hk_port hk) (hk_path hk)) = Some code \<and> 200 \<le> code \<and> code < 300)) \<and>
      (\<forall>h. en_ctx d h = None) \<and>
      (\<forall>h. en_clock d (h @ [TimeNow, TimeNow]) < en_clock d (h @ [TimeNow]) + seconds (health_timeout hk)) \<and>
      (\<forall>h. en_wait d h b = WaitExit 0 []) \<and>
      (\<forall>h. en_copy_from d h (CopyFromContainer b results_path) = Inr [TarEntry tar_reg data]) \<and>
      json_valid data \<and> length data \<le> max_results_size)"

lemma shown_simps [simp]:
  "shown [] = []" "shown (h @ h') = shown h @ shown h'"
  "shown (c # h) = (if c = TimeNow \<or> c = CtxErr then shown h else c # shown h)"
  by (simp_all add: shown_def)

lemma log_sources_append [simp]: "log_sources (h @ h') = log_sources h @ log_sources h'"
  by (induction h rule: log_sources.induct) simp_all

lemma log_sources_shown [simp]: "log_sources (shown h) = log_sources h"
  by (induction h rule: log_sources.induct) simp_all

lemma smooth_probe:
  assumes "smooth env v spec e b ip data"
  shows "\<exists>s'. probe_engine env e (network_name spec) (es_health_check (ps_engine spec)) s = (Some ip, s') \<and>
    r_calls s' = r_calls s @ health_calls e ip (es_health_check (ps_engine spec)) \<and>
    r_engine s' = r_engine s \<and> r_bench s' = r_bench s"
proof -
  let ?hk = "es_health_check (ps_engine spec)"
  have "\<exists>info. en_inspect (re_env env) (r_calls s) (ContainerInspect e) = Inr info \<and>
      endpoint_ip info (network_name spec) = ip" and ip: "ip \<noteq> []"
    and http: "hk_path ?hk \<noteq> [] \<longrightarrow> hk_port ?hk \<noteq> 0 \<and>
      (\<forall>h. \<exists>code. en_http (re_env env) h (health_url ip (hk_port ?hk) (hk_path ?hk)) = Some code \<and>
         200 \<le> code \<and> code < 300)"
    using assms unfolding smooth_def Let_def by blast+
  then obtain info where info: "en_inspect (re_env env) (r_calls s) (ContainerInspect e) = Inr info"
      "endpoint_ip info (network_name spec) = ip"
    by blast
  show ?thesis
  proof (cases "hk_path ?hk = []")
    case True
    then show ?thesis
      using info ip by (simp add: probe_engine_def Let_def health_calls_def)
  next
    case False
    then obtain code where "hk_port ?hk \<noteq> 0"
        "en_http (re_env env) (r_calls s @ [ContainerInspect e])
           (health_url ip (hk_port ?hk) (hk_path ?hk)) = Some code" "200 \<le> code" "code < 300"
      using http by blast
    then show ?thesis
      using info ip False by (simp add: probe_engine_def Let_def health_calls_def check_http_def)
  qed
qed

lemma smooth_health:
  assumes "smooth env v spec e b ip data"
  shows "\<exists>s'. health_step (Suc n) env spec e s = (Inr ip, s') \<and>
    shown (r_calls s') = shown (r_calls s) @ health_calls e ip (es_health_check (ps_engine spec)) \<and>
    r_engine s' = r_engine s \<and> r_bench s' = r_bench s"
proof -
  let ?s1 = "log_call TimeNow s" and ?hk = "es_health_check (ps_engine spec)"
  obtain s' where p: "probe_engine env e (network_name spec) ?hk (round_start ?s1) = (Some ip, s')"
      and s': "r_calls s' = r_calls (round_start ?s1) @ health_calls e ip ?hk"
        "r_engine s' = r_engine (round_start ?s1)" "r_bench s' = r_bench (round_start ?s1)"
    using smooth_probe [OF assms] by blast
  have clock: "en_clock (re_env env) (r_calls s @ [TimeNow, TimeNow]) <
      en_clock (re_env env) (r_calls s @ [TimeNow]) + seconds (health_timeout ?hk)"
    and ctx: "\<And>h. en_ctx (re_env env) h = None"
    using assms by (simp_all add: smooth_def Let_def)
  have "wait_engine_healthy (Suc n) env e (network_name spec) (ps_engine spec) s = (Some (Inr ip), s')"
    using clock ctx p by (simp add: wait_engine_healthy_def Let_def time_now_def round_start_def)
  then show ?thesis
    using s' by (simp add: health_step_def round_start_def health_calls_def)
qed

lemma smooth_engine_phase:
  assumes "smooth env v spec e b ip data"
  shows "\<exists>s'. engine_phase (Suc n) env v spec s = (Inr ip, s') \<and>
    shown (r_calls s') = shown (r_calls s) @
      [NetworkCreate (network_name spec), VolumeCreate (volume_name spec), engine_call v spec,
       ContainerStart e, StartLogs e ''engine''] @ health_calls e ip (es_health_check (ps_engine spec)) \<and>
    r_engine s' = e \<and> r_bench s' = r_bench s"
proof -
  have d: "\<And>h c. en_do (re_env env) h c = Inr ()" and c: "\<And>h. en_create (re_env env) h (engine_call v spec) = Inr e"
    using assms by (simp_all add: smooth_def Let_def)
  have create: "and_then (step env phase what (create_engine_container env v spec)) k s1 =
      k e ((log_call (engine_call v spec) s1)\<lparr>r_engine := e\<rparr>)" for phase what s1
    and k :: "string \<Rightarrow> run \<Rightarrow> (run_error, string) result \<times> run"
    by (rule then_ok) (simp add: create_engine_container_def docker_create_def c)
  have health: "\<exists>s'. and_then (health_step (Suc n) env spec e) (\<lambda>ip s. (Inr ip, emit env (healthy_event spec ip) s)) s1 =
      (Inr ip, s') \<and>
    shown (r_calls s') = shown (r_calls s1) @ health_calls e ip (es_health_check (ps_engine spec)) \<and>
    r_engine s' = r_engine s1 \<and> r_bench s' = r_bench s1" for s1
    using smooth_health [OF assms, of n s1]
    by (auto simp: and_then_def healthy_event_def)
  have "\<exists>t. engine_phase (Suc n) env v spec s =
        and_then (health_step (Suc n) env spec e) (\<lambda>ip s. (Inr ip, emit env (healthy_event spec ip) s)) t \<and>
      shown (r_calls t) = shown (r_calls s) @
        [NetworkCreate (network_name spec), VolumeCreate (volume_name spec), engine_call v spec,
         ContainerStart e, StartLogs e ''engine''] \<and>
      r_engine t = e \<and> r_bench t = r_bench s"
    unfolding engine_phase_def runs then_do(1) [OF d] create
    by (intro exI conjI, rule refl) (simp_all add: engine_call_def Let_def)
  then obtain t where t: "engine_phase (Suc n) env v spec s =
        and_then (health_step (Suc n) env spec e) (\<lambda>ip s. (Inr ip, emit env (healthy_event spec ip) s)) t"
      "shown (r_calls t) = shown (r_calls s) @
        [NetworkCreate (network_name spec), VolumeCreate (volume_name spec), engine_call v spec,
         ContainerStart e, StartLogs e ''engine'']" "r_engine t = e" "r_bench t = r_bench s"
    by blast
  show ?thesis
    using health [of t] unfolding t by simp
qed

lemma smooth_benchmark_phase:
  assumes "smooth env v spec e b ip data"
  shows "\<exists>s'. benchmark_phase env spec start ip s = (Inr (), s') \<and>
    shown (r_calls s') = shown (r_calls s) @ [bench_call spec ip] @ config_calls b (ps_benchmark spec) @
      [ContainerStart b, StartLogs b ''benchmark'', ContainerWait b, CopyFromContainer b results_path] \<and>
    r_engine s' = r_engine s \<and> r_bench s' = b"
proof -
  have d: "\<And>h c. en_do (re_env env) h c = Inr ()" and c: "\<And>h. en_create (re_env env) h (bench_call spec ip) = Inr b"
    and w: "\<And>h. en_wait (re_env env) h b = WaitExit 0 []"
    and f: "\<And>h. en_copy_from (re_env env) h (CopyFromContainer b results_path) = Inr [TarEntry tar_reg data]"
    and ok: "json_valid data" "length data \<le> max_results_size"
    using assms by (simp_all add: smooth_def Let_def)
  have create: "and_then (step env phase what (create_benchmark_container env spec ip)) k s1 =
      k b ((log_call (bench_call spec ip) s1)\<lparr>r_bench := b\<rparr>)" for phase what s1
    and k :: "string \<Rightarrow> run \<Rightarrow> (run_error, unit) result \<times> run"
    by (rule then_ok) (simp add: create_benchmark_container_def docker_create_def c)
  have copy: "and_then (step env phase what (copy_benchmark_config env b (ps_benchmark spec))) k s1 =
      k () (s1\<lparr>r_calls := r_calls s1 @ config_calls b (ps_benchmark spec)\<rparr>)" for phase what s1
    and k :: "unit \<Rightarrow> run \<Rightarrow> (run_error, unit) result \<times> run"
    by (rule then_ok) (simp add: copy_benchmark_config_def config_calls_def docker_do_def d log_call_def
        tar_with_single_file_def trim_prefix_def has_prefix_def)
  have wait: "and_then (step env phase what (wait_for_exit env b)) k s1 = k 0 (log_call (ContainerWait b) s1)"
    for phase what s1 and k :: "int \<Rightarrow> run \<Rightarrow> (run_error, unit) result \<times> run"
    by (rule then_ok) (simp add: wait_for_exit_def w)
  have "read_archive [TarEntry tar_reg data] = Inr data"
    using ok by (simp add: Let_def)
  then have collect: "\<exists>s'. collect_results env start b 0 s1 = (Inr (), s') \<and>
      shown (r_calls s') = shown (r_calls s1) @ [CopyFromContainer b results_path] \<and>
      r_engine s' = r_engine s1 \<and> r_bench s' = r_bench s1" for s1
    by (simp add: collect_results_def read_results_def Let_def f time_now_def)
  have "\<exists>t. benchmark_phase env spec start ip s = collect_results env start b 0 t \<and>
      shown (r_calls t) = shown (r_calls s) @ [bench_call spec ip] @ config_calls b (ps_benchmark spec) @
        [ContainerStart b, StartLogs b ''benchmark'', ContainerWait b] \<and>
      r_engine t = r_engine s \<and> r_bench t = b"
    unfolding benchmark_phase_def runs then_do(1) [OF d] create copy wait
    by (intro exI conjI, rule refl) (simp_all add: bench_call_def config_calls_def Let_def)
  then obtain t where t: "benchmark_phase env spec start ip s = collect_results env start b 0 t"
      "shown (r_calls t) = shown (r_calls s) @ [bench_call spec ip] @ config_calls b (ps_benchmark spec) @
        [ContainerStart b, StartLogs b ''benchmark'', ContainerWait b]" "r_engine t = r_engine s" "r_bench t = b"
    by blast
  show ?thesis
    using collect [of t] unfolding t by simp
qed

section \<open>A run to evaluate\<close>

text \<open>A daemon on which every call succeeds, and a run with a health check on port 8000.\<close>

definition good_docker :: env where
  "good_docker =
     \<lparr>en_do = (\<lambda>h c. Inr ()),
      en_create = (\<lambda>h c. case c of ContainerCreate cfg host nets name \<Rightarrow> Inr (''id-'' @ name) | _ \<Rightarrow> Inl ''bad call''),
      en_inspect = (\<lambda>h c. Inr (Some [(''bonnie-run-r1'', Some ''10.0.0.2'')])),
      en_list = (\<lambda>h. Inr []),
      en_wait = (\<lambda>h i. WaitExit 0 []),
      en_copy_from = (\<lambda>h c. Inr [TarEntry CHR ''0'' ''{}'']),
      en_http = (\<lambda>h url. Some 200),
      en_clock = slept,
      en_ctx = (\<lambda>h. None)\<rparr>"

definition good_env :: run_env where
  "good_env = \<lparr>re_env = good_docker, re_room = (\<lambda>s. True), re_room_wait = (\<lambda>s. True)\<rparr>"

definition good_spec :: paired_run_spec where
  "good_spec =
     \<lparr>ps_run_id = ''r1'', ps_timeout_seconds = 0,
      ps_engine = \<lparr>es_image = ''vllm'', es_args = [''serve''], es_env = [(''A'', ''b'')], es_ports = [8000],
        es_model_path = ''/models/m'', es_health_check = \<lparr>hk_path = ''health'', hk_port = 8000, hk_timeout_seconds = 2\<rparr>\<rparr>,
      ps_benchmark = \<lparr>bs_kind = ''yaml'', bs_image = ''bench'', bs_args = [], bs_env = [],
        bs_config = [], bs_yaml_spec = ''{}''\<rparr>\<rparr>"

lemma good_valid: "validate_spec good_spec = None"
  by code_simp

lemma good_clock: "clock_advances (re_env good_env)"
  by (simp add: clock_advances_def good_env_def good_docker_def)

lemma good_delivers: "delivers good_env"
  by (simp add: delivers_def good_env_def)

lemma good_rounds: "health_rounds (es_health_check (ps_engine good_spec)) < 3"
  by code_simp

section \<open>The properties\<close>

lemma cancel_calls_kind: "c \<in> set (cancel_calls h) \<Longrightarrow> \<exists>source. c = CancelLogs source"
  by (auto simp: cancel_calls_def)

lemma cancel_calls_only [simp]:
  "ContainerRemove i f \<notin> set (cancel_calls h)" "ContainerStop i \<notin> set (cancel_calls h)"
  by (auto dest: cancel_calls_kind)

lemma cleanup_calls_mem:
  "ContainerRemove i True \<in> set (cleanup_calls spec e b) \<longleftrightarrow> i \<noteq> [] \<and> i \<in> {e, b}"
  "ContainerStop i \<in> set (cleanup_calls spec e b) \<longleftrightarrow> i \<noteq> [] \<and> i \<in> {e, b}"
  by (cases "e = []"; cases "b = []"; simp add: cleanup_calls_def; blast)+

lemma created_cleanup:
  "created env (h @ cancel_calls h' @ cleanup_calls spec e b) = created env h"
  by (rule created_append) (auto simp: list_all_iff cleanup_calls_def dest: cancel_calls_kind)

lemma paired_run_valid:
  "validate_spec spec = None \<Longrightarrow> paired_run n env v spec =
     (case paired_body n env v spec fresh_run of (r, s) \<Rightarrow> (r, cleanup_run spec s))"
  by (simp add: paired_run_def)

lemma body_made:
  assumes "paired_body n env v spec fresh_run = (r, s)"
  shows "made env s"
proof -
  have both: "triple (nothing_made env) (and_then (engine_phase n env v spec) (benchmark_phase env spec start))
      (\<lambda>_. made env) (\<lambda>_. made env)" for start
    by (rule triple_bind [OF engine_phase_made benchmark_phase_made])
  obtain start s1 where t: "time_now env fresh_run = (start, s1)"
    by force
  have "nothing_made env s1"
    using lastingD [OF lasting_made(1) _ quiet_time [OF t]]
    by (simp add: nothing_made_def fresh_run_def)
  moreover have "and_then (engine_phase n env v spec) (benchmark_phase env spec start) s1 = (r, s)"
    using assms t by (simp add: paired_body_def)
  ultimately show ?thesis
    using triple_Inl [OF both] triple_Inr [OF both] by (cases r) blast+
qed

lemma smooth_run:
  assumes "validate_spec spec = None" and "smooth env v spec e b ip data" and "e \<noteq> []" and "b \<noteq> []"
  shows "fst (paired_run (Suc n) env v spec) = Inr () \<and>
    shown (r_calls (snd (paired_run (Suc n) env v spec))) =
      [NetworkCreate (network_name spec), VolumeCreate (volume_name spec), engine_call v spec,
       ContainerStart e, StartLogs e ''engine''] @
      health_calls e ip (es_health_check (ps_engine spec)) @
      [bench_call spec ip] @ config_calls b (ps_benchmark spec) @
      [ContainerStart b, StartLogs b ''benchmark'', ContainerWait b, CopyFromContainer b results_path,
       CancelLogs ''benchmark'', CancelLogs ''engine'',
       ContainerStop b, ContainerRemove b True, ContainerStop e, ContainerRemove e True,
       NetworkRemove (network_name spec), VolumeRemove (volume_name spec) True]"
proof -
  obtain start s0 where t: "time_now env fresh_run = (start, s0)" and s0: "r_calls s0 = [TimeNow]" "r_bench s0 = []"
    by (simp add: time_now_def fresh_run_def)
  obtain s1 where s1: "engine_phase (Suc n) env v spec s0 = (Inr ip, s1)"
    "shown (r_calls s1) = shown (r_calls s0) @
      [NetworkCreate (network_name spec), VolumeCreate (volume_name spec), engine_call v spec,
       ContainerStart e, StartLogs e ''engine''] @ health_calls e ip (es_health_check (ps_engine spec))"
    "r_engine s1 = e"
    using smooth_engine_phase [OF assms(2)] by blast
  obtain s2 where s2: "benchmark_phase env spec start ip s1 = (Inr (), s2)"
    "shown (r_calls s2) = shown (r_calls s1) @ [bench_call spec ip] @ config_calls b (ps_benchmark spec) @
      [ContainerStart b, StartLogs b ''benchmark'', ContainerWait b, CopyFromContainer b results_path]"
    "r_engine s2 = r_engine s1" "r_bench s2 = b"
    using smooth_benchmark_phase [OF assms(2)] by blast
  have body: "paired_body (Suc n) env v spec fresh_run = (Inr (), s2)"
    using t s1(1) s2(1) by (simp add: paired_body_def and_then_def)
  have "log_sources (shown (r_calls s2)) = [''engine'', ''benchmark'']"
    unfolding s2(2) s1(2) s0
    by (simp add: engine_call_def bench_call_def config_calls_def health_calls_def Let_def)
  then have cancel: "cancel_calls (r_calls s2) = [CancelLogs ''benchmark'', CancelLogs ''engine'']"
    by (simp add: cancel_calls_def)
  show ?thesis
    unfolding paired_run_valid [OF assms(1)] body
    by (simp add: cleanup_run_def cancel cleanup_calls_def s2(3,4) s1(3) assms(3,4))
      (simp add: s2(2) s1(2) s0)
qed

lemma good_smooth:
  "smooth good_env vendor_amd good_spec ''id-bonnie-engine-r1'' ''id-bonnie-bench-r1'' ''10.0.0.2'' ''{}''"
proof -
  have "json_valid ''{}''"
    by code_simp
  then show ?thesis
    by (simp add: smooth_def Let_def good_env_def good_docker_def engine_call_def bench_call_def
        good_spec_def engine_name_def bench_name_def network_name_def endpoint_ip_def
        health_timeout_def seconds_exact tar_reg_def max_results_size_def)
qed

lemmas good_run =
  smooth_run [OF good_valid good_smooth, of 2, simplified numeral_2_eq_2 numeral_3_eq_3 [symmetric]]

text \<open>C6. The cleanup is complete: after the last call of a run that can create anything, every
  container the daemon gave the run an id for is stopped and removed, and nothing else is, and the
  network and the results volume of the run are removed, on every outcome of every call.\<close>

theorem cleanup_complete:
  assumes "validate_spec spec = None"
  shows "\<exists>h c. r_calls (snd (paired_run n env v spec)) = h @ c \<and>
    created (re_env env) (h @ c) = created (re_env env) h \<and>
    (\<forall>i. ContainerRemove i True \<in> set c \<longleftrightarrow> i \<noteq> [] \<and> i \<in> created (re_env env) h) \<and>
    (\<forall>i. ContainerStop i \<in> set c \<longleftrightarrow> i \<noteq> [] \<and> i \<in> created (re_env env) h) \<and>
    NetworkRemove (network_name spec) \<in> set c \<and> VolumeRemove (volume_name spec) True \<in> set c"
proof -
  obtain r s where b: "paired_body n env v spec fresh_run = (r, s)"
    by force
  let ?c = "cancel_calls (r_calls s) @ cleanup_calls spec (r_engine s) (r_bench s)"
  have calls: "r_calls (snd (paired_run n env v spec)) = r_calls s @ ?c"
    using b by (simp add: paired_run_valid [OF assms] cleanup_run_def)
  have "i \<noteq> [] \<and> i \<in> created (re_env env) (r_calls s) \<longleftrightarrow> i \<noteq> [] \<and> i \<in> {r_engine s, r_bench s}" for i
    using body_made [OF b] unfolding made_def by blast
  then have removed: "ContainerRemove i True \<in> set ?c \<longleftrightarrow> i \<noteq> [] \<and> i \<in> created (re_env env) (r_calls s)"
    and stopped: "ContainerStop i \<in> set ?c \<longleftrightarrow> i \<noteq> [] \<and> i \<in> created (re_env env) (r_calls s)" for i
    by (simp_all only: set_append Un_iff cancel_calls_only cleanup_calls_mem simp_thms)
  have rest: "NetworkRemove (network_name spec) \<in> set ?c" "VolumeRemove (volume_name spec) True \<in> set ?c"
    by (simp_all add: cleanup_calls_def)
  show ?thesis
    by (intro exI [of _ "r_calls s"] exI [of _ ?c] conjI allI)
      (fact calls created_cleanup removed stopped rest)+
qed

theorem cleanup_complete_witness:
  "\<exists>h c. r_calls (snd (paired_run 3 good_env vendor_amd good_spec)) = h @ c \<and>
    created (re_env good_env) (h @ c) = created (re_env good_env) h \<and>
    (\<forall>i. ContainerRemove i True \<in> set c \<longleftrightarrow> i \<noteq> [] \<and> i \<in> created (re_env good_env) h) \<and>
    (\<forall>i. ContainerStop i \<in> set c \<longleftrightarrow> i \<noteq> [] \<and> i \<in> created (re_env good_env) h) \<and>
    NetworkRemove (network_name good_spec) \<in> set c \<and> VolumeRemove (volume_name good_spec) True \<in> set c"
  by (rule cleanup_complete [OF good_valid])

section \<open>What the channel carries\<close>

text \<open>
  The channel of a run carries the orchestrator's events and those of the two \<open>streamLogs\<close>
  goroutines, each sender's in its own order, interleaved in any way.  A stream's event may have been
  dropped for want of room, and \<open>emit\<close> set its time.  This allows every content a run can give the
  channel up to its close, those in which lines arrive during the cleanup included.
\<close>

definition streamed :: "string \<Rightarrow> (string, reads) result \<Rightarrow> event list \<Rightarrow> bool" where
  "streamed source logs evs \<longleftrightarrow> subseq (map (\<lambda>e. e\<lparr>ev_time := None\<rparr>) evs) (stream_logs source logs)"

definition carries :: "run \<Rightarrow> (string, reads) result \<Rightarrow> (string, reads) result \<Rightarrow> event list \<Rightarrow> bool" where
  "carries s el bl chan \<longleftrightarrow>
     (\<exists>es bs logs. streamed ''engine'' el es \<and> streamed ''benchmark'' bl bs \<and> logs \<in> shuffles es bs \<and>
        chan \<in> shuffles (r_sent s) logs)"

lemma stream_loop_source:
  "list_all (\<lambda>e. ev_source e = source \<and> ev_type e \<noteq> ''result'') (stream_loop source buf rs)"
  by (induction source buf rs rule: stream_loop.induct)
    (auto simp: line_event_def logs_error_def Let_def list_all_iff
      split: prod.splits option.splits read_error.splits)

lemma stream_logs_source:
  "e \<in> set (stream_logs source logs) \<Longrightarrow> ev_source e = source \<and> ev_type e \<noteq> ''result''"
  using stream_loop_source [of source "[]"]
  by (auto simp: stream_logs_def logs_error_def list_all_iff split: sum.splits)

lemma subseq_member: "subseq xs ys \<Longrightarrow> x \<in> set xs \<Longrightarrow> x \<in> set ys"
  by (induction rule: list_emb.induct) auto

lemma streamed_source:
  assumes "streamed source logs evs" and "e \<in> set evs"
  shows "ev_source e = source \<and> ev_type e \<noteq> ''result''"
proof -
  have "e\<lparr>ev_time := None\<rparr> \<in> set (map (\<lambda>e. e\<lparr>ev_time := None\<rparr>) evs)"
    using assms(2) by auto
  then have "e\<lparr>ev_time := None\<rparr> \<in> set (stream_logs source logs)"
    using assms(1) subseq_member unfolding streamed_def by fast
  then show ?thesis
    using stream_logs_source by fastforce
qed

text \<open>The last element of one sender divides every interleaving with another.\<close>

lemma shuffles_snoc:
  "zs \<in> shuffles (xs @ [x]) ys \<Longrightarrow>
     \<exists>us ws. zs = us @ x # ws \<and> set us \<subseteq> set xs \<union> set ys \<and> set ws \<subseteq> set ys"
proof (induction zs arbitrary: xs ys)
  case (Cons z zs)
  from Cons.prems consider
    (final) "xs = []" "z = x" "zs \<in> shuffles [] ys"
    | (left) xs' where "xs = z # xs'" "zs \<in> shuffles (xs' @ [x]) ys"
    | (right) ys' where "ys = z # ys'" "zs \<in> shuffles (xs @ [x]) ys'"
    by (cases xs; cases ys) (auto simp: Cons_in_shuffles_iff)
  then show ?case
  proof cases
    case final
    then show ?thesis
      by (intro exI [of _ "[]"] exI [of _ zs]) auto
  next
    case left
    obtain us ws where "zs = us @ x # ws" "set us \<subseteq> set xs' \<union> set ys" "set ws \<subseteq> set ys"
      using Cons.IH [OF left(2)] by blast
    then show ?thesis
      using left(1) by (intro exI [of _ "z # us"] exI [of _ ws]) auto
  next
    case right
    obtain us ws where "zs = us @ x # ws" "set us \<subseteq> set xs \<union> set ys'" "set ws \<subseteq> set ys'"
      using Cons.IH [OF right(2)] by blast
    then show ?thesis
      using right(1) by (intro exI [of _ "z # us"] exI [of _ ws]) auto
  qed
qed simp

text \<open>The event that ends what the orchestrator sends, on a channel with the streams' events.\<close>

definition told_by :: "event \<Rightarrow> event list \<Rightarrow> bool" where
  "told_by ev chan \<longleftrightarrow> ev_source ev = ''orchestrator'' \<and>
     (\<exists>us ws. chan = us @ ev # ws \<and> list_all no_result us \<and>
        list_all (\<lambda>e. ev_source e \<in> {''engine'', ''benchmark''} \<and> no_result e) ws)"

lemma carries_last:
  assumes "carries s el bl chan" and "r_sent s = evs @ [ev]" and "list_all no_result evs"
    and "ev_source ev = ''orchestrator''"
  shows "told_by ev chan"
proof -
  obtain es bs logs where l: "streamed ''engine'' el es" "streamed ''benchmark'' bl bs"
    "logs \<in> shuffles es bs" "chan \<in> shuffles (evs @ [ev]) logs"
    using assms(1,2) by (auto simp: carries_def)
  have logs: "ev_source e \<in> {''engine'', ''benchmark''} \<and> no_result e" if "e \<in> set logs" for e
    using that streamed_source [OF l(1)] streamed_source [OF l(2)] set_shuffles [OF l(3)]
    by auto
  obtain us ws where "chan = us @ ev # ws" "set us \<subseteq> set evs \<union> set logs" "set ws \<subseteq> set logs"
    using shuffles_snoc [OF l(4)] by blast
  then show ?thesis
    using logs assms(3,4) unfolding told_by_def list_all_iff by blast
qed

text \<open>C8. The outcome reaches the client's channel.  For a valid request, if terminal events find
  room within their ten seconds, the clock advances with the sleeps and the rounds are enough for the
  time limit, the run ends, and on every content the channel can have, with the lines of both log
  streams interleaved in any way, the orchestrator's last event is the outcome: after a success a
  result, valid JSON within the size limit, and after a failure an error.  It is the only result
  there, and only events of the log streams can follow it.\<close>

theorem outcome_delivered:
  assumes "validate_spec spec = None" and "delivers env"
    and "clock_advances (re_env env)" and "health_rounds (es_health_check (ps_engine spec)) < n"
    and "carries (snd (paired_run n env v spec)) el bl chan"
  shows "case fst (paired_run n env v spec) of
      Inr _ \<Rightarrow> (\<exists>ev. told_by ev chan \<and> ev_type ev = ''result'' \<and> json_valid (ev_results ev) \<and>
         length (ev_results ev) \<le> max_results_size)
    | Inl e \<Rightarrow> e \<noteq> HealthFuel \<and> (\<exists>ev. told_by ev chan \<and> ev_type ev = ''error'')"
proof -
  obtain r s where b: "paired_body n env v spec fresh_run = (r, s)"
    by force
  have clean: "clean fresh_run"
    by (simp add: clean_def fresh_run_def)
  have run: "paired_run n env v spec = (r, cleanup_run spec s)"
    using b by (simp add: paired_run_valid [OF assms(1)])
  have sent: "r_sent (cleanup_run spec s) = r_sent s"
    by (simp add: cleanup_run_def)
  note last = carries_last [OF assms(5) [unfolded run snd_conv], unfolded sent]
  show ?thesis
  proof (cases r)
    case (Inl e)
    then have e: "e \<noteq> HealthFuel" "told e s"
      using triple_Inl [OF run_told [OF assms(2)] clean] triple_Inl [OF body_fuelled [OF assms(3,4)]] b
      by auto
    then obtain evs ev where "r_sent s = evs @ [ev]"
      by (cases "r_sent s" rule: rev_cases) (auto simp: told_def)
    then show ?thesis
      using e last [of evs ev] by (auto simp: run Inl told_def clean_def)
  next
    case (Inr x)
    then obtain evs ev where "r_sent s = evs @ [ev]" "list_all no_result evs" "ev_type ev = ''result''"
      "ev_source ev = ''orchestrator''" "json_valid (ev_results ev)" "length (ev_results ev) \<le> max_results_size"
      using triple_Inr [OF run_told [OF assms(2)] clean, unfolded has_result_def] b by blast
    then show ?thesis
      using last [of evs ev] by (auto simp: run Inr)
  qed
qed

text \<open>A run whose engine logs one line.\<close>

definition one_line :: "(string, reads) result" where
  "one_line = Inr [(''up'' @ [CHR 0x0A], Some Eof)]"

lemma append_shuffles: "xs @ ys \<in> shuffles xs ys"
  by (induction xs) (simp_all add: Cons_in_shuffles_iff)

lemma good_carries:
  "carries (snd (paired_run 3 good_env vendor_amd good_spec)) one_line (Inr [])
     (r_sent (snd (paired_run 3 good_env vendor_amd good_spec)) @ [line_event ''engine'' ''up''])"
proof -
  have "streamed ''engine'' one_line [line_event ''engine'' ''up'']"
    by (simp add: streamed_def one_line_def stream_logs_def line_event_def blank_event_def
        drain.simps cut.simps trim_cr_def trim_right_byte_def)
  moreover have "streamed ''benchmark'' (Inr []) []"
    by (simp add: streamed_def)
  moreover have "[line_event ''engine'' ''up''] \<in> shuffles [line_event ''engine'' ''up''] []"
    by simp
  ultimately show ?thesis
    unfolding carries_def using append_shuffles by blast
qed

theorem outcome_delivered_witness:
  "case fst (paired_run 3 good_env vendor_amd good_spec) of
      Inr _ \<Rightarrow> (\<exists>ev. told_by ev (r_sent (snd (paired_run 3 good_env vendor_amd good_spec)) @
           [line_event ''engine'' ''up'']) \<and> ev_type ev = ''result'' \<and> json_valid (ev_results ev) \<and>
         length (ev_results ev) \<le> max_results_size)
    | Inl e \<Rightarrow> e \<noteq> HealthFuel \<and> (\<exists>ev. told_by ev (r_sent (snd (paired_run 3 good_env vendor_amd good_spec)) @
           [line_event ''engine'' ''up'']) \<and> ev_type ev = ''error'')"
  by (rule outcome_delivered [OF good_valid good_delivers good_clock good_rounds good_carries])

text \<open>C34. A run on which nothing fails succeeds with exactly the calls of the paired protocol, in
  this order: network, volume, engine created and started, one health check, benchmark created,
  configured, started and awaited, results read, log streams cancelled, and both containers, the
  network and the volume removed.\<close>

theorem smooth_run_protocol:
  assumes "validate_spec spec = None" and "smooth env v spec e b ip data" and "e \<noteq> []" and "b \<noteq> []"
  shows "fst (paired_run (Suc n) env v spec) = Inr () \<and>
    shown (r_calls (snd (paired_run (Suc n) env v spec))) =
      [NetworkCreate (network_name spec), VolumeCreate (volume_name spec), engine_call v spec,
       ContainerStart e, StartLogs e ''engine''] @
      health_calls e ip (es_health_check (ps_engine spec)) @
      [bench_call spec ip] @ config_calls b (ps_benchmark spec) @
      [ContainerStart b, StartLogs b ''benchmark'', ContainerWait b, CopyFromContainer b results_path,
       CancelLogs ''benchmark'', CancelLogs ''engine'',
       ContainerStop b, ContainerRemove b True, ContainerStop e, ContainerRemove e True,
       NetworkRemove (network_name spec), VolumeRemove (volume_name spec) True]"
  using assms by (rule smooth_run)

theorem smooth_run_protocol_witness:
  "fst (paired_run 3 good_env vendor_amd good_spec) = Inr () \<and>
   length (shown (r_calls (snd (paired_run 3 good_env vendor_amd good_spec)))) = 21"
  using smooth_run_protocol [OF good_valid good_smooth, of 2]
  by (simp add: numeral_3_eq_3 health_calls_def config_calls_def good_spec_def)

text \<open>C9. The benchmark container is created only for an engine that was seen: whenever the run
  asks for it, the engine container had been created, an inspection of that container gave the
  address the benchmark is told, and the configured health check was answered there with a success
  code.\<close>

theorem benchmark_after_health:
  assumes "k < length (r_calls (snd (paired_run n env v spec)))"
    and "r_calls (snd (paired_run n env v spec)) ! k = ContainerCreate cfg host nets (bench_name spec)"
  shows "\<exists>ip. ContainerCreate cfg host nets (bench_name spec) = bench_call spec ip \<and>
    (\<exists>i. engine_from env v spec (take k (r_calls (snd (paired_run n env v spec)))) i \<and>
         engine_seen env spec (take k (r_calls (snd (paired_run n env v spec)))) i ip)"
proof (cases "validate_spec spec")
  case (Some e)
  then show ?thesis
    using assms by (simp add: paired_run_def fresh_run_def)
next
  case None
  obtain r s where b: "paired_body n env v spec fresh_run = (r, s)"
    by force
  have un: "unbenched spec fresh_run"
    by (simp add: unbenched_def fresh_run_def)
  have "grounded env v spec (r_calls s)"
    using triple_Inl [OF body_grounded un] triple_Inr [OF body_grounded un] b by (cases r) blast+
  then have "grounded env v spec (r_calls s @ cancel_calls (r_calls s) @ cleanup_calls spec (r_engine s) (r_bench s))"
    by (rule grounded_append) (auto simp: list_all_iff cleanup_calls_def dest: cancel_calls_kind)
  then have "grounded env v spec (r_calls (snd (paired_run n env v spec)))"
    using b by (simp add: paired_run_valid [OF None] cleanup_run_def)
  then show ?thesis
    unfolding grounded_def ready_def using assms by (metis makes.simps(1))
qed

theorem benchmark_after_health_witness:
  "\<exists>k cfg host nets ip i.
     r_calls (snd (paired_run 3 good_env vendor_amd good_spec)) ! k =
       ContainerCreate cfg host nets (bench_name good_spec) \<and>
     engine_seen good_env good_spec (take k (r_calls (snd (paired_run 3 good_env vendor_amd good_spec)))) i ip"
proof -
  let ?calls = "r_calls (snd (paired_run 3 good_env vendor_amd good_spec))"
  let ?c = "bench_call good_spec ''10.0.0.2''"
  have "?c \<in> set (shown ?calls)"
    using good_run by simp
  then obtain k where k: "k < length ?calls" "?calls ! k = ?c"
    by (auto simp: shown_def in_set_conv_nth)
  obtain cfg host nets where c: "?c = ContainerCreate cfg host nets (bench_name good_spec)"
    by (simp add: bench_call_def Let_def)
  obtain ip i where "engine_seen good_env good_spec (take k ?calls) i ip"
    using benchmark_after_health [OF k(1) trans [OF k(2) c]] by blast
  then show ?thesis
    using trans [OF k(2) c] by blast
qed

text \<open>C35. A run that is refused the network removes a network and a volume of that name all the
  same, although it created neither: they are those of another run with the same id.\<close>

theorem refused_network_removed:
  assumes "validate_spec spec = None"
    and "\<forall>h. en_do (re_env env) h (NetworkCreate (network_name spec)) = Inl e"
  shows "fst (paired_run n env v spec) = Inl (StepFailed ''create network'' e) \<and>
    r_calls (snd (paired_run n env v spec)) =
      [TimeNow, TimeNow, NetworkCreate (network_name spec), TimeNow,
       NetworkRemove (network_name spec), VolumeRemove (volume_name spec) True]"
proof -
  have "paired_body n env v spec fresh_run =
      (Inl (StepFailed ''create network'' e), emit_error env ''creating-network'' e
        (log_call (NetworkCreate (network_name spec))
          (emit env (status_event ''creating-network'') (log_call TimeNow fresh_run))))"
    using assms(2) by (simp add: paired_body_def time_now_def engine_phase_def runs)
  then show ?thesis
    by (simp add: paired_run_valid [OF assms(1)] emit_error_def fresh_run_def cleanup_run_def
        cancel_calls_def cleanup_calls_def)
qed

definition refusing_env :: run_env where
  "refusing_env = \<lparr>re_env = good_docker\<lparr>en_do := (\<lambda>h c. Inl ''network exists'')\<rparr>,
     re_room = (\<lambda>s. True), re_room_wait = (\<lambda>s. True)\<rparr>"

theorem refused_network_removed_witness:
  "r_calls (snd (paired_run 3 refusing_env vendor_amd good_spec)) =
     [TimeNow, TimeNow, NetworkCreate ''bonnie-run-r1'', TimeNow,
      NetworkRemove ''bonnie-run-r1'', VolumeRemove ''bonnie-results-r1'' True]"
  using refused_network_removed [OF good_valid, of refusing_env "''network exists''" 3 vendor_amd]
  by (simp add: refusing_env_def network_name_def volume_name_def good_spec_def)

text \<open>A health check with a path and no port is never passed: no run with such an engine
  completes, however the engine and the daemon behave.\<close>

theorem path_without_port_fails:
  assumes "hk_path (es_health_check (ps_engine spec)) \<noteq> []"
    and "hk_port (es_health_check (ps_engine spec)) = 0"
  shows "fst (paired_run n env v spec) \<noteq> Inr ()"
proof (cases "validate_spec spec")
  case None
  then show ?thesis
    using body_no_port [OF assms, of n env v fresh_run]
    by (cases "paired_body n env v spec fresh_run") (simp add: paired_run_valid)
qed (simp add: paired_run_def)

definition portless_spec :: paired_run_spec where
  "portless_spec = good_spec\<lparr>ps_engine := (ps_engine good_spec)\<lparr>es_health_check :=
     \<lparr>hk_path = ''/health'', hk_port = 0, hk_timeout_seconds = 2\<rparr>\<rparr>\<rparr>"

theorem path_without_port_fails_witness:
  "validate_spec portless_spec = None \<and> fst (paired_run 3 good_env vendor_amd portless_spec) \<noteq> Inr ()"
  using path_without_port_fails [of portless_spec 3 good_env vendor_amd]
  by (simp add: portless_spec_def validate_spec_def good_spec_def validate_run_id_def run_id_char_def)

text \<open>The time limit of the health check is counted in 64-bit nanoseconds: a limit of more than
  9223372036 seconds becomes negative, and the wait gives up at once without a single look at the
  engine; every smaller limit is taken as it is given.\<close>

theorem huge_time_limit_expires:
  assumes "clock_advances (re_env env)"
    and "9223372036 < hk_timeout_seconds (es_health_check es)"
    and "hk_timeout_seconds (es_health_check es) \<le> 18446744073"
  shows "wait_engine_healthy (Suc n) env i net es s =
      (Some (Inl (timeout_text (hk_timeout_seconds (es_health_check es)))), log_call TimeNow (log_call TimeNow s))
    \<and> (\<forall>t. 0 < t \<and> t \<le> 9223372036 \<longrightarrow> seconds t = t * 1000000000)"
proof -
  have t: "health_timeout (es_health_check es) = hk_timeout_seconds (es_health_check es)"
    using assms(2) by (simp add: health_timeout_def)
  have "seconds (health_timeout (es_health_check es)) \<le> 0"
    using seconds_wraps(2) [of "hk_timeout_seconds (es_health_check es)"] assms(2,3) by (simp add: t)
  from wait_without_time [OF assms(1) this] show ?thesis
    using seconds_exact by (simp add: t)
qed

definition patient_spec :: engine_spec where
  "patient_spec = (ps_engine good_spec)\<lparr>es_health_check :=
     \<lparr>hk_path = [], hk_port = 8000, hk_timeout_seconds = 10000000000\<rparr>\<rparr>"

theorem huge_time_limit_expires_witness:
  "fst (wait_engine_healthy 1 good_env ''id'' ''bonnie-run-r1'' patient_spec fresh_run) =
     Some (Inl (timeout_text 10000000000))"
  using huge_time_limit_expires [OF good_clock, of patient_spec 0 "''id''" "''bonnie-run-r1''" fresh_run]
  by (simp add: patient_spec_def)

lemma prefix_until:
  assumes "c \<notin> set k"
  shows "c \<notin> set p \<Longrightarrow> has_prefix (k @ [c] @ v) (p @ [c]) \<longleftrightarrow> k = p"
  using assms
proof (induction p arbitrary: k)
  case Nil
  then show ?case by (cases k) (auto simp: has_prefix_def)
next
  case (Cons x p)
  then show ?case by (cases k) (auto simp: has_prefix_def)
qed

text \<open>The benchmark is told one engine address: its environment holds exactly one assignment to
  ENGINE_URL, the one computed for the engine, whatever the request set, and every other
  assignment of the request is passed on.\<close>

theorem benchmark_environment:
  assumes "gomap_ok (bs_env (ps_benchmark spec))"
    and "\<forall>(k, v) \<in> set (bs_env (ps_benchmark spec)). CHR ''='' \<notin> set k"
  shows "filter (\<lambda>a. has_prefix a ''ENGINE_URL='') (env_slice (bench_env spec ip)) =
      [''ENGINE_URL='' @ engine_url spec ip] \<and>
    (\<forall>(k, v) \<in> set (bs_env (ps_benchmark spec)). k \<noteq> ''ENGINE_URL'' \<longrightarrow>
       k @ ''='' @ v \<in> set (env_slice (bench_env spec ip)))"
proof -
  let ?m = "bs_env (ps_benchmark spec)" and ?u = "engine_url spec ip"
  let ?f = "\<lambda>a. has_prefix a ''ENGINE_URL=''"
  have key: "?f (k @ ''='' @ v) \<longleftrightarrow> k = ''ENGINE_URL''" if "CHR ''='' \<notin> set k" for k v
    using prefix_until [OF that, of "''ENGINE_URL''" v] by simp
  have "filter ?f (env_slice (gm_set ''ENGINE_URL'' u m)) = [''ENGINE_URL='' @ u]"
    if "gomap_ok m" and "\<forall>(k, v) \<in> set m. CHR ''='' \<notin> set k" for u m
    using that
  proof (induction m)
    case Nil
    then show ?case by (simp add: env_slice_def has_prefix_def)
  next
    case (Cons p m)
    obtain k v where p: "p = (k, v)" by force
    show ?case
    proof (cases "k = ''ENGINE_URL''")
      case True
      have "\<not> ?f (k' @ ''='' @ v')" if "(k', v') \<in> set m" for k' v'
        using Cons.prems that key [of k' v'] by (force simp: p True gomap_ok_def)
      then have "filter ?f (env_slice m) = []"
        by (auto simp: env_slice_def filter_empty_conv)
      then show ?thesis
        by (simp add: p True env_slice_def has_prefix_def)
    next
      case False
      then have "\<not> ?f (k @ ''='' @ v)"
        using Cons.prems key [of k v] by (simp add: p)
      then show ?thesis
        using False Cons by (simp add: p env_slice_def gomap_ok_def)
    qed
  qed
  from this [OF assms] have one: "filter ?f (env_slice (bench_env spec ip)) = [''ENGINE_URL='' @ ?u]"
    by (simp only: bench_env_def)
  have "k @ ''='' @ v \<in> set (env_slice (bench_env spec ip))"
    if "(k, v) \<in> set ?m" and "k \<noteq> ''ENGINE_URL''" for k v
  proof -
    have "gm_get (bench_env spec ip) k = Some v"
      using that assms(1) by (simp add: bench_env_def gm_get_set gm_get_iff del: map_of_eq_Some_iff)
    then show ?thesis
      using gm_get_in by (force simp: env_slice_def)
  qed
  with one show ?thesis
    by blast
qed

theorem benchmark_environment_witness:
  "filter (\<lambda>a. has_prefix a ''ENGINE_URL='') (env_slice (bench_env (good_spec\<lparr>ps_benchmark :=
      (ps_benchmark good_spec)\<lparr>bs_env := [(''A'', ''1''), (''ENGINE_URL'', ''x'')]\<rparr>\<rparr>) ''10.0.0.2'')) =
    [''ENGINE_URL=http://10.0.0.2:8000'']"
proof -
  let ?s = "good_spec\<lparr>ps_benchmark := (ps_benchmark good_spec)\<lparr>bs_env := [(''A'', ''1''), (''ENGINE_URL'', ''x'')]\<rparr>\<rparr>"
  have "engine_url ?s ''10.0.0.2'' = ''http://10.0.0.2:8000''"
    by (simp add: engine_url_def good_spec_def show_int_def num_eval)
  then show ?thesis
    using benchmark_environment [of ?s "''10.0.0.2''"] by (simp add: gomap_ok_def)
qed

end
