(* ===== verification/Go_Float.thy ===== *)
theory Go_Float
  imports Go_Json
begin

text \<open>
  What the program needs of \<open>strconv.ParseFloat(s, 64)\<close> followed by a conversion to \<open>int\<close>: the
  grammar of Go's floating point numbers, and the integer part of the value rounded to the 53 bits
  of a \<open>float64\<close>.  The conversion of an infinity, a NaN or a value out of range is not fixed by the
  language, so a caller says what it gives.
\<close>

section \<open>The grammar\<close>

record mantissa =
  mn_value :: nat
  mn_frac :: nat
  mn_dot :: bool
  mn_digits :: bool
  mn_underscore :: bool

definition float_digit :: "nat \<Rightarrow> char \<Rightarrow> nat option" where
  "float_digit base c = (if base = 16 then hex_val c else digit_val c)"

fun scan_mantissa :: "nat \<Rightarrow> string \<Rightarrow> mantissa \<Rightarrow> mantissa \<times> string" where
  "scan_mantissa base [] m = (m, [])"
| "scan_mantissa base (c # cs) m =
     (if c = CHR ''_'' then scan_mantissa base cs (m\<lparr>mn_underscore := True\<rparr>)
      else if c = CHR ''.'' then
        (if mn_dot m then (m, c # cs) else scan_mantissa base cs (m\<lparr>mn_dot := True\<rparr>))
      else case float_digit base c of
        None \<Rightarrow> (m, c # cs)
      | Some d \<Rightarrow>
          scan_mantissa base cs (m\<lparr>mn_value := base * mn_value m + d,
            mn_frac := (if mn_dot m then mn_frac m + 1 else mn_frac m), mn_digits := True\<rparr>))"

definition no_mantissa :: mantissa where
  "no_mantissa = \<lparr>mn_value = 0, mn_frac = 0, mn_dot = False, mn_digits = False, mn_underscore = False\<rparr>"

text \<open>The digits of the exponent; past 10000 they no longer count.\<close>

fun scan_exponent :: "string \<Rightarrow> nat \<Rightarrow> bool \<Rightarrow> nat \<times> bool \<times> string" where
  "scan_exponent [] e u = (e, u, [])"
| "scan_exponent (c # cs) e u =
     (if c = CHR ''_'' then scan_exponent cs e True
      else case digit_val c of
        None \<Rightarrow> (e, u, c # cs)
      | Some d \<Rightarrow> scan_exponent cs (if e < 10000 then 10 * e + d else e) u)"

definition split_sign :: "string \<Rightarrow> bool \<times> string" where
  "split_sign s =
     (case s of
        c # cs \<Rightarrow> (if c = CHR ''+'' then (False, cs) else if c = CHR ''-'' then (True, cs) else (False, s))
      | [] \<Rightarrow> (False, s))"

text \<open>\<open>underscoreOK\<close>: an underscore stands between two digits, or after a base prefix.\<close>

datatype seen = Start | Digit | Underscore | Other

fun underscore_scan :: "bool \<Rightarrow> seen \<Rightarrow> string \<Rightarrow> bool" where
  "underscore_scan hex saw [] \<longleftrightarrow> saw \<noteq> Underscore"
| "underscore_scan hex saw (c # cs) \<longleftrightarrow>
     (if digit_val c \<noteq> None \<or> hex \<and> hex_val c \<noteq> None then underscore_scan hex Digit cs
      else if c = CHR ''_'' then saw = Digit \<and> underscore_scan hex Underscore cs
      else saw \<noteq> Underscore \<and> underscore_scan hex Other cs)"

definition underscore_ok :: "string \<Rightarrow> bool" where
  "underscore_ok s =
     (let t = snd (split_sign s) in
      if 2 \<le> length t \<and> t ! 0 = CHR ''0'' \<and> to_lower (t ! 1) \<in> set ''box''
      then underscore_scan (to_lower (t ! 1) = CHR ''x'') Digit (drop 2 t)
      else underscore_scan False Start t)"

text \<open>
  A well-formed number: its sign, its digits as a natural number, and the exponents of ten and two
  to scale it by.
\<close>

definition read_float :: "string \<Rightarrow> (bool \<times> nat \<times> int \<times> int) option" where
  "read_float s =
     (let (neg, t) = split_sign s;
          hex = (2 < length t \<and> t ! 0 = CHR ''0'' \<and> to_lower (t ! 1) = CHR ''x'');
          (m, r) = scan_mantissa (if hex then 16 else 10) (if hex then drop 2 t else t) no_mantissa;
          exponent = (case r of
              [] \<Rightarrow> (if hex then None else Some (0, False, []))
            | c # cs \<Rightarrow>
                if to_lower c = (if hex then CHR ''p'' else CHR ''e'') then
                  (let (eneg, ds) = split_sign cs in
                   if ds \<noteq> [] \<and> digit_val (hd ds) \<noteq> None then
                     (let (e, u, r') = scan_exponent ds 0 False in
                      Some (if eneg then - int e else int e, u, r'))
                   else None)
                else None)
      in
      if \<not> mn_digits m then None
      else case exponent of
        None \<Rightarrow> None
      | Some (e, u, r') \<Rightarrow>
          if r' \<noteq> [] \<or> ((mn_underscore m \<or> u) \<and> \<not> underscore_ok s) then None
          else if hex then Some (neg, mn_value m, 0, e - 4 * int (mn_frac m))
          else Some (neg, mn_value m, e - int (mn_frac m), 0))"

definition special_float :: "string \<Rightarrow> bool" where
  "special_float s \<longleftrightarrow>
     map to_lower (snd (split_sign s)) \<in> {''inf'', ''infinity''} \<or> map to_lower s = ''nan''"

section \<open>The value\<close>

definition half_even :: "nat \<Rightarrow> nat \<Rightarrow> nat" where
  "half_even a b =
     (let q = a div b; r = a mod b in if 2 * r < b \<or> 2 * r = b \<and> even q then q else q + 1)"

fun ilog2 :: "nat \<Rightarrow> nat" where
  "ilog2 n = (if n < 2 then 0 else Suc (ilog2 (n div 2)))"

declare ilog2.simps [simp del]

text \<open>
  A \<open>float64\<close>: a sign, a natural number and the exponent of two it is scaled by.  The nearest one to
  \<open>a / b\<close> has 53 bits, fewer where the exponent would pass -1074.
\<close>

datatype go_float = Finite bool nat int | Infinite bool | NotANumber

definition float_exp :: "nat \<Rightarrow> nat \<Rightarrow> int" where
  "float_exp a b =
     max ((if b \<le> a then int (ilog2 (a div b)) else - int (ilog2 ((b - 1) div a)) - 1) - 52) (- 1074)"

definition float_mant :: "nat \<Rightarrow> nat \<Rightarrow> int \<Rightarrow> nat" where
  "float_mant a b e = (if 0 \<le> e then half_even a (b * 2 ^ nat e) else half_even (a * 2 ^ nat (- e)) b)"

definition float_of :: "bool \<Rightarrow> nat \<Rightarrow> nat \<Rightarrow> go_float" where
  "float_of neg a b =
     (if a = 0 then Finite neg 0 0
      else let e = float_exp a b; m = float_mant a b e in
        if 0 \<le> e \<and> 2 ^ 1024 \<le> m * 2 ^ nat e then Infinite neg else Finite neg m e)"

definition scaled :: "nat \<Rightarrow> int \<Rightarrow> int \<Rightarrow> nat \<times> nat" where
  "scaled m e10 e2 = (m * 10 ^ nat e10 * 2 ^ nat e2, 10 ^ nat (- e10) * 2 ^ nat (- e2))"

text \<open>\<open>ParseFloat\<close> gives an infinity beside its range error, and zero beside a syntax error.\<close>

definition parse_float :: "string \<Rightarrow> num_error option \<times> go_float" where
  "parse_float s =
     (if map to_lower s = ''nan'' then (None, NotANumber)
      else if special_float s then (None, Infinite (fst (split_sign s)))
      else case read_float s of
        None \<Rightarrow> (Some ErrSyntax, Finite False 0 0)
      | Some (neg, m, e10, e2) \<Rightarrow>
          (case scaled m e10 e2 of (a, b) \<Rightarrow>
             (case float_of neg a b of
                Infinite s \<Rightarrow> (Some ErrRange, Infinite s)
              | f \<Rightarrow> (None, f))))"

definition float_floor :: "nat \<Rightarrow> int \<Rightarrow> nat" where
  "float_floor m e = (if 0 \<le> e then m * 2 ^ nat e else m div 2 ^ nat (- e))"

text \<open>The conversion to \<open>int\<close>: \<open>other\<close> is what it gives where it is not fixed.\<close>

definition float_to_int :: "int \<Rightarrow> go_float \<Rightarrow> int" where
  "float_to_int other f =
     (case f of
        Finite neg m e \<Rightarrow>
          (let v = (if neg then - int (float_floor m e) else int (float_floor m e)) in
           if int64_range v then v else other)
      | _ \<Rightarrow> other)"

definition parse_float_int :: "int \<Rightarrow> string \<Rightarrow> num_error + int" where
  "parse_float_int other s =
     (case parse_float s of (Some e, _) \<Rightarrow> Inl e | (None, f) \<Rightarrow> Inr (float_to_int other f))"

section \<open>Values that are not disturbed by the rounding\<close>

lemma half_even_bounds:
  assumes "0 < b"
  shows "a div b \<le> half_even a b" and "2 * b * half_even a b \<le> 2 * a + b"
proof -
  have a: "a = b * (a div b) + a mod b"
    by simp
  show "a div b \<le> half_even a b"
    by (simp add: half_even_def Let_def)
  show "2 * b * half_even a b \<le> 2 * a + b"
  proof (cases "2 * (a mod b) < b \<or> 2 * (a mod b) = b \<and> even (a div b)")
    case True
    then have "half_even a b = a div b"
      by (simp add: half_even_def Let_def)
    then show ?thesis
      using a by (metis add_leD1 le_add1 mult.assoc mult_le_mono2 order_trans trans_le_add1)
  next
    case False
    then have "half_even a b = a div b + 1" and "b \<le> 2 * (a mod b)"
      by (auto simp: half_even_def Let_def)
    then have "2 * b * half_even a b = 2 * (b * (a div b)) + 2 * b"
      by simp
    also have "\<dots> \<le> 2 * (b * (a div b) + a mod b) + b"
    proof -
      have "2 * x + 2 * b \<le> 2 * (x + r) + b" if "b \<le> 2 * r" for x r :: nat
        using that by simp
      then show ?thesis
        using \<open>b \<le> 2 * (a mod b)\<close> by blast
    qed
    finally show ?thesis
      using a by simp
  qed
qed

lemma half_even_trunc:
  assumes "0 < b" and "b < 2 * k"
  shows "half_even (a * k) b div k = a div b"
proof (rule div_nat_eqI)
  have k: "0 < k" using assms(2) by (cases k) auto
  have "a div b * k * b \<le> a * k"
    by (metis div_times_less_eq_dividend mult.assoc mult.commute mult_le_mono1)
  then have "a div b * k \<le> a * k div b"
    using assms(1) by (simp add: less_eq_div_iff_mult_less_eq)
  then show "k * (a div b) \<le> half_even (a * k) b"
    using half_even_bounds(1) [OF assms(1), of "a * k"] by (simp add: mult.commute)
  have "a < b * Suc (a div b)"
    using assms(1) by (simp add: dividend_less_times_div)
  then have "Suc a \<le> b * Suc (a div b)"
    by simp
  then have "Suc a * k \<le> b * Suc (a div b) * k"
    by (rule mult_le_mono1)
  then have "2 * (a * k) + b < 2 * b * (Suc (a div b) * k)"
    using assms(2) by (simp add: algebra_simps)
  with half_even_bounds(2) [OF assms(1)] have "2 * b * half_even (a * k) b < 2 * b * (Suc (a div b) * k)"
    by (rule le_less_trans)
  then have "half_even (a * k) b < Suc (a div b) * k"
    by (metis mult_less_cancel1)
  then show "half_even (a * k) b < k * Suc (a div b)"
    by (simp only: mult.commute)
qed

lemma ilog2_bound: "n < 2 ^ Suc (ilog2 n)"
proof (induction n rule: ilog2.induct)
  case (1 n)
  show ?case
  proof (cases "n < 2")
    case False
    then have "n div 2 < 2 ^ Suc (ilog2 (n div 2))"
      using 1 by simp
    then show ?thesis
      using False by (simp add: ilog2.simps [of n])
  qed (simp add: ilog2.simps [of n])
qed

lemma ilog2_upper: "n < 2 ^ k \<Longrightarrow> 0 < k \<Longrightarrow> ilog2 n < k"
proof (induction n arbitrary: k rule: ilog2.induct)
  case (1 n)
  show ?case
  proof (cases "n < 2")
    case False
    then obtain j where k: "k = Suc j" "0 < j"
      using "1.prems" by (cases k; cases "k - 1") auto
    then have "ilog2 (n div 2) < j"
      using 1 False by (intro "1.IH") auto
    then show ?thesis
      using False k by (simp add: ilog2.simps [of n])
  qed (use 1 in \<open>simp add: ilog2.simps [of n]\<close>)
qed

text \<open>
  A value below \<open>2 ^ p\<close> whose denominator is below \<open>2 ^ (54 - p)\<close> keeps its integer part.
\<close>

lemma float_of_exact:
  assumes "0 < b" and "a div b < 2 ^ p" and "b < 2 ^ (54 - p)" and "0 < p" and "p \<le> 52"
  shows "\<exists>m e. float_of neg a b = Finite neg m e \<and> float_floor m e = a div b \<and> (b = 1 \<longrightarrow> 0 \<le> e \<or> 2 ^ nat (- e) dvd m)"
proof (cases "a = 0")
  case True
  then show ?thesis by (simp add: float_of_def float_floor_def)
next
  case False
  let ?e = "float_exp a b"
  have e: "?e < int p - 52"
  proof (cases "b \<le> a")
    case True
    then show ?thesis
      using ilog2_upper [OF assms(2,4)] assms(4,5) by (simp add: float_exp_def)
  qed (use assms(4,5) in \<open>simp add: float_exp_def\<close>)
  then have neg: "?e < 0"
    using assms(5) by simp
  have "53 - p \<le> nat (- ?e)"
    using e assms(5) by linarith
  then have "(2::nat) ^ (54 - p) \<le> 2 ^ Suc (nat (- ?e))"
    using assms(5) by (intro power_increasing) simp_all
  then have "b < 2 * 2 ^ nat (- ?e)"
    using assms(3) by simp
  then have "half_even (a * 2 ^ nat (- ?e)) b div 2 ^ nat (- ?e) = a div b"
    by (rule half_even_trunc [OF assms(1)])
  moreover have "b = 1 \<longrightarrow> 2 ^ nat (- ?e) dvd half_even (a * 2 ^ nat (- ?e)) b"
    by (simp add: half_even_def)
  ultimately show ?thesis
    using False neg by (simp add: float_of_def float_mant_def float_floor_def Let_def)
qed

section \<open>Decimal texts\<close>

lemma digit_in: "48 \<le> (of_char c :: nat) \<Longrightarrow> (of_char c :: nat) \<le> 57 \<Longrightarrow> c \<in> set ''0123456789''"
proof -
  assume "48 \<le> (of_char c :: nat)" and "(of_char c :: nat) \<le> 57"
  then have "of_char c \<in> {48..57 :: nat}"
    by simp
  moreover have "{48..57 :: nat} = {48, 49, 50, 51, 52, 53, 54, 55, 56, 57}"
    by (rule set_eqI) (simp, presburger)
  ultimately have "c \<in> char_of ` {48, 49, 50, 51, 52, 53, 54, 55, 56, 57 :: nat}"
    by (metis char_of_char image_eqI)
  moreover have "char_of ` {48, 49, 50, 51, 52, 53, 54, 55, 56, 57 :: nat} = set ''0123456789''"
    by code_simp
  ultimately show ?thesis
    by blast
qed

fun dec_value :: "nat \<Rightarrow> string \<Rightarrow> nat" where
  "dec_value n [] = n"
| "dec_value n (c # cs) = dec_value (10 * n + the (digit_val c)) cs"

abbreviation digits :: "string \<Rightarrow> bool" where
  "digits s \<equiv> list_all (\<lambda>c. digit_val c \<noteq> None) s"

lemma digit_chars: "digit_val c \<noteq> None \<Longrightarrow> c \<in> set ''0123456789''"
  by (rule digit_in) (auto simp: digit_val_def Let_def split: if_splits)

lemma digit_not:
  assumes "digit_val c \<noteq> None"
  shows "c \<noteq> CHR ''_''" "c \<noteq> CHR ''.''" "c \<noteq> CHR ''+''" "c \<noteq> CHR ''-''" "to_lower c \<noteq> CHR ''x''"
    "to_lower c \<noteq> CHR ''i''" "to_lower c \<noteq> CHR ''n''"
proof -
  have "list_all (\<lambda>c. c \<noteq> CHR ''_'' \<and> c \<noteq> CHR ''.'' \<and> c \<noteq> CHR ''+'' \<and> c \<noteq> CHR ''-'' \<and>
      to_lower c \<noteq> CHR ''x'' \<and> to_lower c \<noteq> CHR ''i'' \<and> to_lower c \<noteq> CHR ''n'') ''0123456789''"
    by code_simp
  with digit_chars [OF assms] show "c \<noteq> CHR ''_''" "c \<noteq> CHR ''.''" "c \<noteq> CHR ''+''" "c \<noteq> CHR ''-''"
      "to_lower c \<noteq> CHR ''x''" "to_lower c \<noteq> CHR ''i''" "to_lower c \<noteq> CHR ''n''"
    unfolding list_all_iff by blast+
qed

lemma dec_value_shift: "dec_value n ds = n * 10 ^ length ds + dec_value 0 ds"
proof (induction ds arbitrary: n)
  case (Cons c cs)
  show ?case
    using Cons [of "10 * n + the (digit_val c)"] Cons [of "the (digit_val c)"]
    by (simp add: algebra_simps)
qed simp

lemma dec_value_bound: "digits ds \<Longrightarrow> dec_value 0 ds < 10 ^ length ds"
proof (induction ds)
  case (Cons c cs)
  then have "the (digit_val c) \<le> 9"
    by (auto simp: digit_val_def Let_def split: if_splits)
  then have "the (digit_val c) * 10 ^ length cs \<le> 9 * 10 ^ length cs"
    by (rule mult_le_mono1)
  moreover have "dec_value 0 cs < 10 ^ length cs"
    using Cons by simp
  ultimately have "the (digit_val c) * 10 ^ length cs + dec_value 0 cs < 9 * 10 ^ length cs + 10 ^ length cs"
    by (rule add_le_less_mono)
  then show ?case
    by (simp add: dec_value_shift [of "the (digit_val c)" cs])
qed simp

lemma parse_digits_dec: "parse_digits n s = Inr m \<Longrightarrow> digits s \<and> dec_value n s = m"
  by (induction n s rule: parse_digits.induct) (auto split: option.splits if_splits)

lemma scan_digits:
  "digits ds \<Longrightarrow> scan_mantissa 10 (ds @ r) m =
     scan_mantissa 10 r (m\<lparr>mn_value := dec_value (mn_value m) ds,
       mn_frac := mn_frac m + (if mn_dot m then length ds else 0), mn_digits := mn_digits m \<or> ds \<noteq> []\<rparr>)"
proof (induction ds arbitrary: m)
  case (Cons c ds)
  then obtain d where d: "digit_val c = Some d" by auto
  then show ?case
    using Cons digit_not [of c] by (simp add: float_digit_def)
qed simp

lemma show_nat_read: "n \<le> max_uint64 \<Longrightarrow> digits (show_nat n) \<and> dec_value 0 (show_nat n) = n"
  using parse_digits_show_nat parse_digits_dec by blast

text \<open>A text of digits and at most one point is read by the decimal branch.\<close>

lemma plain_number:
  assumes "digit_val (hd s) \<noteq> None" and "s \<noteq> []" and "list_all (\<lambda>c. digit_val c \<noteq> None \<or> c = CHR ''.'') s"
  shows "split_sign s = (False, s)" and "\<not> special_float s" and "map to_lower s \<noteq> ''nan''"
    and "\<not> (2 < length s \<and> s ! 0 = CHR ''0'' \<and> to_lower (s ! 1) = CHR ''x'')"
proof -
  obtain c cs where c: "s = c # cs"
    using assms(2) by (cases s) simp_all
  have dc: "digit_val c \<noteq> None"
    using assms(1) by (simp add: c)
  show sign: "split_sign s = (False, s)"
    using digit_not [OF dc] by (simp add: split_sign_def c)
  have no: "map to_lower s \<notin> {''inf'', ''infinity'', ''nan''}"
  proof
    assume "map to_lower s \<in> {''inf'', ''infinity'', ''nan''}"
    then have "hd (map to_lower s) \<in> {CHR ''i'', CHR ''n''}"
      by (elim insertE emptyE) (simp_all only: list.sel insert_iff simp_thms)
    then show False
      using digit_not(6,7) [OF dc] by (simp add: c)
  qed
  then show "\<not> special_float s" and "map to_lower s \<noteq> ''nan''"
    by (auto simp only: special_float_def sign snd_conv)
  have "to_lower (CHR ''.'') \<noteq> CHR ''x''"
    by code_simp
  then have "to_lower x \<noteq> CHR ''x''" if "x \<in> set s" for x
    using that assms(3) digit_not(5) by (auto simp only: list_all_iff)
  then show "\<not> (2 < length s \<and> s ! 0 = CHR ''0'' \<and> to_lower (s ! 1) = CHR ''x'')"
    using nth_mem [of 1 s] by auto
qed

lemma read_plain:
  assumes "digit_val (hd s) \<noteq> None" and "s \<noteq> []" and "list_all (\<lambda>c. digit_val c \<noteq> None \<or> c = CHR ''.'') s"
    and "scan_mantissa 10 s no_mantissa = (m, [])" and "mn_digits m" and "\<not> mn_underscore m"
  shows "read_float s = Some (False, mn_value m, - int (mn_frac m), 0)"
proof -
  have "(2 < length s \<and> s ! 0 = CHR ''0'' \<and> to_lower (s ! 1) = CHR ''x'') = False"
    using plain_number(4) [OF assms(1-3)] by blast
  then show ?thesis
    unfolding read_float_def plain_number(1) [OF assms(1-3)] Let_def prod.case
    by (simp only: if_False assms(4) prod.case) (simp add: assms)
qed

lemma parse_plain:
  assumes "digit_val (hd s) \<noteq> None" and "s \<noteq> []" and "list_all (\<lambda>c. digit_val c \<noteq> None \<or> c = CHR ''.'') s"
    and "read_float s = Some (False, v, - int k, 0)" and "v div 10 ^ k < 2 ^ p" and "10 ^ k < (2::nat) ^ (54 - p)"
    and "0 < p" and "p \<le> 52"
  shows "\<exists>m e. parse_float s = (None, Finite False m e) \<and> float_floor m e = v div 10 ^ k \<and>
    (k = 0 \<longrightarrow> 0 \<le> e \<or> 2 ^ nat (- e) dvd m)"
proof -
  obtain m e where fl: "float_of False v (10 ^ k) = Finite False m e" "float_floor m e = v div 10 ^ k"
      "k = 0 \<longrightarrow> 0 \<le> e \<or> 2 ^ nat (- e) dvd m"
    using float_of_exact [of "10 ^ k" v p False] assms(5-8) by auto
  have "parse_float s = (None, Finite False m e)"
    unfolding parse_float_def if_not_P [OF plain_number(3) [OF assms(1-3)]]
      if_not_P [OF plain_number(2) [OF assms(1-3)]] assms(4) option.case prod.case scaled_def
    by (simp add: fl(1))
  then show ?thesis
    using fl by blast
qed

text \<open>The natural number a float is, if it is one.\<close>

definition float_nat :: "go_float \<Rightarrow> nat option" where
  "float_nat f =
     (case f of
        Finite False m e \<Rightarrow>
          (if 0 \<le> e then Some (m * 2 ^ nat e)
           else if m mod 2 ^ nat (- e) = 0 then Some (m div 2 ^ nat (- e)) else None)
      | _ \<Rightarrow> None)"

lemma show_nat_head_digit: "n \<le> max_uint64 \<Longrightarrow> digit_val (hd (show_nat n)) \<noteq> None"
  using show_nat_read [of n] by (cases "show_nat n") auto

lemma parse_integer:
  assumes "n < 2 ^ 52"
  shows "\<exists>f. parse_float (show_nat n) = (None, f) \<and> float_nat f = Some n"
proof -
  have n: "n \<le> max_uint64"
    using assms by (simp add: max_uint64_def)
  note d = show_nat_read [OF n] show_nat_head_digit [OF n]
  have pl: "list_all (\<lambda>c. digit_val c \<noteq> None \<or> c = CHR ''.'') (show_nat n)"
    using d by (auto simp: list_all_iff)
  have "scan_mantissa 10 (show_nat n) no_mantissa =
      (no_mantissa\<lparr>mn_value := n, mn_digits := True\<rparr>, [])"
    using scan_digits [of "show_nat n" "[]"] d by (simp add: no_mantissa_def)
  then have "read_float (show_nat n) = Some (False, n, - int 0, 0)"
    using read_plain [OF d(2) _ pl] by (simp add: no_mantissa_def)
  from parse_plain [OF d(2) _ pl this, of 52] obtain m e
    where "parse_float (show_nat n) = (None, Finite False m e)" "float_floor m e = n"
      "0 \<le> e \<or> 2 ^ nat (- e) dvd m"
    using assms by auto
  then show ?thesis
    by (intro exI [of _ "Finite False m e"]) (auto simp: float_nat_def float_floor_def)
qed

lemma parse_decimal:
  assumes "n < 128" and "digits ds" and "length ds \<le> 12"
  shows "parse_float_int other (show_nat n @ ''.'' @ ds) = Inr (int n)"
proof -
  let ?s = "show_nat n @ ''.'' @ ds" and ?k = "length ds"
  have le: "n \<le> max_uint64"
    using assms(1) by (simp add: max_uint64_def)
  note d = show_nat_read [OF le]
  have hd: "digit_val (hd ?s) \<noteq> None" and ne: "?s \<noteq> []"
    using show_nat_head_digit [OF le] by simp_all
  have pl: "list_all (\<lambda>c. digit_val c \<noteq> None \<or> c = CHR ''.'') ?s"
    using d assms(2) by (auto simp: list_all_iff)
  have "scan_mantissa 10 ?s no_mantissa = (\<lparr>mn_value = dec_value n ds, mn_frac = ?k, mn_dot = True,
      mn_digits = True, mn_underscore = False\<rparr>, [])"
    using scan_digits [OF assms(2), of "[]"] d
    by (simp add: scan_digits no_mantissa_def)
  then have read: "read_float ?s = Some (False, dec_value n ds, - int ?k, 0)"
    using read_plain [OF hd ne pl] by simp
  have q: "dec_value n ds div 10 ^ ?k = n"
    using dec_value_bound [OF assms(2)] by (subst dec_value_shift) simp
  have "(10::nat) ^ ?k \<le> 10 ^ 12"
    using assms(3) by (rule power_increasing) simp
  also have "\<dots> < 2 ^ (54 - 7)"
    by simp
  finally obtain m e where "parse_float ?s = (None, Finite False m e)" "float_floor m e = n"
    using parse_plain [OF hd ne pl read, of 7] assms(1) by (auto simp: q)
  then show ?thesis
    unfolding parse_float_int_def using assms(1) by (simp add: float_to_int_def int64_range_def)
qed

end
