(* ===== verification/Gpu_Detect.thy ===== *)
theory Gpu_Detect
  imports Gpu_Types Go_Float
begin

text \<open>
  GPU detection: the parsers of \<open>nvidia.go\<close>, \<open>amd.go\<close> and \<open>intel.go\<close> and the detector that tries
  them in order.  Errors are values that say which step failed on what.
\<close>

section \<open>Errors\<close>

datatype gpu_error =
    RunFailed string string
  | WrongFields string nat string
  | BadField string string string num_error
  | NoGpus string
  | BadJson
  | BadCard string

definition want :: "string \<Rightarrow> string \<Rightarrow> string \<Rightarrow> num_error + 'a \<Rightarrow> (gpu_error, 'a) result" where
  "want tool field text r = (case r of Inl e \<Rightarrow> Inl (BadField tool field text e) | Inr x \<Rightarrow> Inr x)"

section \<open>NVIDIA\<close>

definition nvidia_query :: "string list" where
  "nvidia_query = [''--query-gpu=index,name,memory.total,memory.free,utilization.gpu'',
     ''--format=csv,noheader,nounits'']"

definition nvidia_line :: "string \<Rightarrow> (gpu_error, gpu_info) result" where
  "nvidia_line line =
     (let fs = go_split '', '' line in
      if length fs \<noteq> 5 then Inl (WrongFields ''nvidia-smi'' (length fs) line)
      else case want ''nvidia-smi'' ''index'' (fs ! 0) (atoi (trim_space (fs ! 0))) of
        Inl e \<Rightarrow> Inl e
      | Inr index \<Rightarrow>
      case want ''nvidia-smi'' ''memory.total'' (fs ! 2) (parse_uint (trim_space (fs ! 2))) of
        Inl e \<Rightarrow> Inl e
      | Inr mem_total \<Rightarrow>
      case want ''nvidia-smi'' ''memory.free'' (fs ! 3) (parse_uint (trim_space (fs ! 3))) of
        Inl e \<Rightarrow> Inl e
      | Inr mem_free \<Rightarrow>
      case want ''nvidia-smi'' ''utilization'' (fs ! 4) (atoi (trim_space (fs ! 4))) of
        Inl e \<Rightarrow> Inl e
      | Inr util \<Rightarrow>
          Inr \<lparr>gi_index = index, gi_name = trim_space (fs ! 1), gi_vendor = vendor_nvidia,
            gi_memory_total = mem_total, gi_memory_free = mem_free, gi_utilization = util\<rparr>)"

fun nvidia_loop :: "string list \<Rightarrow> gpu_info list \<Rightarrow> (gpu_error, gpu_info list) result" where
  "nvidia_loop [] gpus = (if gpus = [] then Inl (NoGpus ''nvidia-smi'') else Inr gpus)"
| "nvidia_loop (l # ls) gpus =
     (let line = trim_space l in
      if line = [] then nvidia_loop ls gpus
      else case nvidia_line line of
        Inl e \<Rightarrow> Inl e
      | Inr g \<Rightarrow> nvidia_loop ls (gpus @ [g]))"

definition parse_nvidia_output :: "string \<Rightarrow> (gpu_error, gpu_info list) result" where
  "parse_nvidia_output output = nvidia_loop (go_split [CHR 0x0A] (trim_space output)) []"

definition detect_nvidia :: "runner \<Rightarrow> (gpu_error, gpu_info list) result" where
  "detect_nvidia run =
     (case run ''nvidia-smi'' nvidia_query of
        Inl e \<Rightarrow> Inl (RunFailed ''nvidia-smi'' e)
      | Inr out \<Rightarrow> parse_nvidia_output out)"

section \<open>Intel\<close>

definition intel_line :: "string \<Rightarrow> (gpu_error, gpu_info) result" where
  "intel_line line =
     (let fs = go_split '','' line in
      if length fs < 4 then Inl (WrongFields ''xpu-smi'' (length fs) line)
      else case want ''xpu-smi'' ''DeviceID'' (fs ! 0) (atoi (trim_space (fs ! 0))) of
        Inl e \<Rightarrow> Inl e
      | Inr index \<Rightarrow>
      case want ''xpu-smi'' ''MemoryPhysicalSize'' (fs ! 2) (parse_uint (trim_space (fs ! 2))) of
        Inl e \<Rightarrow> Inl e
      | Inr mem_total \<Rightarrow>
      case want ''xpu-smi'' ''MemoryFree'' (fs ! 3) (parse_uint (trim_space (fs ! 3))) of
        Inl e \<Rightarrow> Inl e
      | Inr mem_free \<Rightarrow>
          Inr \<lparr>gi_index = index, gi_name = trim_space (fs ! 1), gi_vendor = vendor_intel,
            gi_memory_total = mem_total, gi_memory_free = mem_free, gi_utilization = 0\<rparr>)"

fun intel_loop :: "string list \<Rightarrow> gpu_info list \<Rightarrow> (gpu_error, gpu_info list) result" where
  "intel_loop [] gpus = (if gpus = [] then Inl (NoGpus ''xpu-smi'') else Inr gpus)"
| "intel_loop (l # ls) gpus =
     (let line = trim_space l in
      if line = [] \<or> has_prefix line ''DeviceID'' then intel_loop ls gpus
      else case intel_line line of
        Inl e \<Rightarrow> Inl e
      | Inr g \<Rightarrow> intel_loop ls (gpus @ [g]))"

definition parse_intel_output :: "string \<Rightarrow> (gpu_error, gpu_info list) result" where
  "parse_intel_output output = intel_loop (go_split [CHR 0x0A] (trim_space output)) []"

definition detect_intel :: "runner \<Rightarrow> (gpu_error, gpu_info list) result" where
  "detect_intel run =
     (case run ''xpu-smi'' [''discovery'', ''--dump'', ''1,3,6,7''] of
        Inl e \<Rightarrow> Inl (RunFailed ''xpu-smi'' e)
      | Inr out \<Rightarrow> parse_intel_output out)"

section \<open>AMD\<close>

record rocm_device =
  rd_card_series :: string
  rd_gpu_use :: string
  rd_vram_total :: string
  rd_vram_used :: string

definition no_rocm_device :: rocm_device where
  "no_rocm_device = \<lparr>rd_card_series = [], rd_gpu_use = [], rd_vram_total = [], rd_vram_used = []\<rparr>"

definition rocm_fields :: "rocm_device field list" where
  "rocm_fields =
     [(''Card Series'', \<lambda>j r. map_option (\<lambda>s. r\<lparr>rd_card_series := s\<rparr>) (dec_string j (rd_card_series r))),
      (''GPU use (%)'', \<lambda>j r. map_option (\<lambda>s. r\<lparr>rd_gpu_use := s\<rparr>) (dec_string j (rd_gpu_use r))),
      (''VRAM Total Memory (B)'', \<lambda>j r. map_option (\<lambda>s. r\<lparr>rd_vram_total := s\<rparr>) (dec_string j (rd_vram_total r))),
      (''VRAM Total Used Memory (B)'', \<lambda>j r. map_option (\<lambda>s. r\<lparr>rd_vram_used := s\<rparr>) (dec_string j (rd_vram_used r)))]"

text \<open>A JSON object as a map: the last of several members with one key counts.\<close>

definition dec_map :: "json \<Rightarrow> (string, json) gomap option" where
  "dec_map j =
     (case j of
        JObj ms \<Rightarrow> Some (foldl (\<lambda>m (k, v). gm_set k v m) [] ms)
      | JNull \<Rightarrow> Some []
      | _ \<Rightarrow> None)"

definition card_keys :: "(string, json) gomap \<Rightarrow> string list" where
  "card_keys raw = sort (filter (\<lambda>k. has_prefix k ''card'') (map fst raw))"

definition mebi :: "64 word" where
  "mebi = 1024 * 1024"

text \<open>One card; \<open>other\<close> is what the conversion of a value out of range to \<open>int\<close> gives.\<close>

definition amd_card :: "int \<Rightarrow> int \<Rightarrow> rocm_device \<Rightarrow> (gpu_error, gpu_info) result" where
  "amd_card other index dev =
     (case want ''rocm-smi'' ''VRAM total'' (rd_vram_total dev) (parse_uint (rd_vram_total dev)) of
        Inl e \<Rightarrow> Inl e
      | Inr total_bytes \<Rightarrow>
      case want ''rocm-smi'' ''VRAM used'' (rd_vram_used dev) (parse_uint (rd_vram_used dev)) of
        Inl e \<Rightarrow> Inl e
      | Inr used_bytes \<Rightarrow>
      case (if rd_gpu_use dev \<noteq> []
            then want ''rocm-smi'' ''GPU use'' (rd_gpu_use dev) (parse_float_int other (rd_gpu_use dev))
            else Inr 0) of
        Inl e \<Rightarrow> Inl e
      | Inr util \<Rightarrow>
          Inr \<lparr>gi_index = index, gi_name = rd_card_series dev, gi_vendor = vendor_amd,
            gi_memory_total = total_bytes div mebi, gi_memory_free = (total_bytes - used_bytes) div mebi,
            gi_utilization = util\<rparr>)"

fun amd_loop :: "int \<Rightarrow> (string, json) gomap \<Rightarrow> string list \<Rightarrow> int \<Rightarrow> gpu_info list \<Rightarrow>
    (gpu_error, gpu_info list) result" where
  "amd_loop other raw [] index gpus = (if gpus = [] then Inl (NoGpus ''rocm-smi'') else Inr gpus)"
| "amd_loop other raw (k # ks) index gpus =
     (case gm_get raw k of
        None \<Rightarrow> Inl (BadCard k)
      | Some val \<Rightarrow>
          (case dec_struct rocm_fields val no_rocm_device of
             None \<Rightarrow> Inl (BadCard k)
           | Some dev \<Rightarrow>
               (case amd_card other index dev of
                  Inl e \<Rightarrow> Inl e
                | Inr g \<Rightarrow> amd_loop other raw ks (index + 1) (gpus @ [g]))))"

definition parse_amd_output :: "int \<Rightarrow> string \<Rightarrow> (gpu_error, gpu_info list) result" where
  "parse_amd_output other data =
     (case Option.bind (json_parse data) dec_map of
        None \<Rightarrow> Inl BadJson
      | Some raw \<Rightarrow> amd_loop other raw (card_keys raw) 0 [])"

definition detect_amd :: "int \<Rightarrow> runner \<Rightarrow> (gpu_error, gpu_info list) result" where
  "detect_amd other run =
     (case run ''rocm-smi'' [''--showid'', ''--showuse'', ''--showmeminfo'', ''vram'', ''--json''] of
        Inl e \<Rightarrow> Inl (RunFailed ''rocm-smi'' e)
      | Inr out \<Rightarrow> parse_amd_output other out)"

section \<open>The detector\<close>

text \<open>The snapshot, and the commands that were run for it.\<close>

definition detect :: "int \<Rightarrow> runner \<Rightarrow> timestamp \<Rightarrow> snapshot \<times> string list" where
  "detect other run now =
     (case detect_nvidia run of
        Inr gpus \<Rightarrow> (\<lparr>sn_vendor = vendor_nvidia, sn_gpus = gpus, sn_timestamp = now\<rparr>, [''nvidia-smi''])
      | Inl _ \<Rightarrow>
     (case detect_amd other run of
        Inr gpus \<Rightarrow> (\<lparr>sn_vendor = vendor_amd, sn_gpus = gpus, sn_timestamp = now\<rparr>, [''nvidia-smi'', ''rocm-smi''])
      | Inl _ \<Rightarrow>
     (case detect_intel run of
        Inr gpus \<Rightarrow> (\<lparr>sn_vendor = vendor_intel, sn_gpus = gpus, sn_timestamp = now\<rparr>,
          [''nvidia-smi'', ''rocm-smi'', ''xpu-smi''])
      | Inl _ \<Rightarrow> (\<lparr>sn_vendor = vendor_unknown, sn_gpus = [], sn_timestamp = now\<rparr>,
          [''nvidia-smi'', ''rocm-smi'', ''xpu-smi'']))))"

section \<open>Parsers that go through lines\<close>

text \<open>What the two line parsers share: lines are trimmed, some are skipped, the first bad one fails.\<close>

locale line_parser =
  fixes skip :: "string \<Rightarrow> bool"
    and parse_line :: "string \<Rightarrow> (gpu_error, gpu_info) result"
    and tool :: string
    and loop :: "string list \<Rightarrow> gpu_info list \<Rightarrow> (gpu_error, gpu_info list) result"
  assumes loop_Nil: "loop [] gpus = (if gpus = [] then Inl (NoGpus tool) else Inr gpus)"
    and loop_Cons: "loop (l # ls) gpus =
      (if skip (trim_space l) then loop ls gpus
       else case parse_line (trim_space l) of Inl e \<Rightarrow> Inl e | Inr g \<Rightarrow> loop ls (gpus @ [g]))"
begin

definition kept :: "string list \<Rightarrow> string list" where
  "kept ls = filter (\<lambda>l. \<not> skip l) (map trim_space ls)"

lemma loop_ok:
  "loop ls gpus = Inr gs \<longleftrightarrow>
     (\<exists>new. gs = gpus @ new \<and> gs \<noteq> [] \<and> list_all2 (\<lambda>l g. parse_line l = Inr g) (kept ls) new)"
proof (induction ls arbitrary: gpus)
  case Nil
  then show ?case by (auto simp: loop_Nil kept_def)
next
  case (Cons l ls)
  show ?case
  proof (cases "skip (trim_space l)")
    case True
    then show ?thesis
      using Cons.IH by (simp add: loop_Cons kept_def)
  next
    case False
    show ?thesis
    proof (cases "parse_line (trim_space l)")
      case (Inl e)
      then show ?thesis
        using False by (simp add: loop_Cons kept_def list_all2_Cons1)
    next
      case (Inr g)
      have "(\<exists>new. gs = gpus @ new \<and> gs \<noteq> [] \<and> list_all2 (\<lambda>l g. parse_line l = Inr g) (kept (l # ls)) new) \<longleftrightarrow>
          (\<exists>new. gs = (gpus @ [g]) @ new \<and> gs \<noteq> [] \<and> list_all2 (\<lambda>l g. parse_line l = Inr g) (kept ls) new)"
        using False Inr by (auto simp: kept_def list_all2_Cons1)
      then show ?thesis
        using False Inr Cons.IH [of "gpus @ [g]"] by (simp add: loop_Cons)
    qed
  qed
qed

lemma loop_vendor:
  assumes "loop ls [] = Inr gs" and "\<And>l g. parse_line l = Inr g \<Longrightarrow> P g"
  shows "gs \<noteq> [] \<and> list_all P gs"
  using assms(1) unfolding loop_ok
  by (auto simp: list_all2_conv_all_nth list_all_length intro: assms(2))

lemma loop_prints:
  assumes "gs \<noteq> []"
    and "\<And>g. g \<in> set gs \<Longrightarrow> trimmed (pr g) \<and> \<not> skip (pr g) \<and> parse_line (pr g) = Inr g"
  shows "loop (map pr gs) [] = Inr gs"
proof -
  have "kept (map pr gs) = map pr gs"
    using assms(2) by (auto simp: kept_def filter_id_conv)
  moreover have "list_all2 (\<lambda>l g. parse_line l = Inr g) (map pr gs) gs"
    using assms(2) by (auto simp: list_all2_conv_all_nth)
  ultimately show ?thesis
    unfolding loop_ok using assms(1) by simp
qed

end

interpretation nvidia: line_parser "\<lambda>l. l = []" nvidia_line "''nvidia-smi''" nvidia_loop
  by unfold_locales (simp_all add: Let_def)

interpretation intel: line_parser "\<lambda>l. l = [] \<or> has_prefix l ''DeviceID''" intel_line "''xpu-smi''" intel_loop
  by unfold_locales (simp_all add: Let_def)

end
