(* ===== verification/Gpu_Theorems.thy ===== *)
theory Gpu_Theorems
  imports Gpu_Detect
begin

text \<open>
  The properties of GPU detection: the parser of nvidia-smi inverts its format, the detector tries
  the vendors in order and never mixes them, the cards of rocm-smi are numbered in the order of
  their keys whatever order the map has, and where its arithmetic wraps around.
\<close>

section \<open>The format of nvidia-smi\<close>

definition nvidia_print :: "gpu_info \<Rightarrow> string" where
  "nvidia_print g =
     go_join '', '' [show_int (gi_index g), gi_name g, show_nat (unat (gi_memory_total g)),
       show_nat (unat (gi_memory_free g)), show_int (gi_utilization g)]"

text \<open>A record a driver can report: a trimmed name without separators, numbers of 64 bits.\<close>

definition nvidia_gpu :: "gpu_info \<Rightarrow> bool" where
  "nvidia_gpu g \<longleftrightarrow>
     gi_vendor g = vendor_nvidia \<and> int64_range (gi_index g) \<and> int64_range (gi_utilization g) \<and>
     trimmed (gi_name g) \<and> CHR 0x0A \<notin> set (gi_name g) \<and> cut '', '' (gi_name g) = None"

lemma cut_at_separator:
  "cut [c, d] x = None \<Longrightarrow> c \<noteq> d \<Longrightarrow> cut [c, d] (x @ [c, d] @ r) = Some (x, r)"
proof (induction x)
  case (Cons a x)
  then show ?case
    by (cases x) (auto split: if_splits)
qed simp

lemma cut_two_None: "c \<notin> set s \<Longrightarrow> cut [c, d] s = None"
  by (induction s) auto

lemma go_split_separator:
  assumes "cut [c, d] x = None" and "c \<noteq> d"
  shows "go_split [c, d] (x @ [c, d] @ r) = x # go_split [c, d] r" "go_split [c, d] x = [x]"
proof -
  have "cut [c, d] (x @ [c, d] @ r) = Some (x, r)"
    using assms by (rule cut_at_separator)
  then show "go_split [c, d] (x @ [c, d] @ r) = x # go_split [c, d] r"
    by (subst go_split.simps) (simp only: option.case prod.case list.distinct if_False)
  show "go_split [c, d] x = [x]"
    by (subst go_split.simps) (simp only: assms(1) option.case list.distinct if_False)
qed

lemma show_nat_plain:
  "c \<in> set (show_nat n) \<Longrightarrow> c \<noteq> CHR '','' \<and> c \<noteq> CHR 0x0A \<and> \<not> space_head c \<and> \<not> space_last c"
proof -
  assume "c \<in> set (show_nat n)"
  then have "c \<in> set ''0123456789''"
    using show_nat_digits digit_in by blast
  moreover have "list_all (\<lambda>c. c \<noteq> CHR '','' \<and> c \<noteq> CHR 0x0A \<and> \<not> space_head c \<and> \<not> space_last c) ''0123456789''"
    by code_simp
  ultimately show ?thesis
    by (simp only: list_all_iff) blast
qed

lemma show_int_plain:
  "c \<in> set (show_int i) \<Longrightarrow> c \<noteq> CHR '','' \<and> c \<noteq> CHR 0x0A \<and> \<not> space_head c \<and> \<not> space_last c"
proof -
  assume "c \<in> set (show_int i)"
  then consider "c = CHR ''-''" | n where "c \<in> set (show_nat n)"
    by (cases "i < 0") (auto simp: show_int_def)
  then show ?thesis
  proof cases
    case 1
    have "list_all (\<lambda>c. c \<noteq> CHR '','' \<and> c \<noteq> CHR 0x0A \<and> \<not> space_head c \<and> \<not> space_last c) ''-''"
      by code_simp
    with 1 show ?thesis by simp
  qed (rule show_nat_plain)
qed

lemma trimmed_plain: "(\<And>c. c \<in> set s \<Longrightarrow> \<not> space_head c \<and> \<not> space_last c) \<Longrightarrow> trimmed s"
  by (simp add: trimmed_def)

lemma trimmed_show [simp]: "trimmed (show_nat n)" "trimmed (show_int i)"
  using show_nat_plain show_int_plain by (blast intro: trimmed_plain)+

lemma show_int_nonempty [simp]: "show_int i \<noteq> []"
  by (simp add: show_int_def)

lemma nvidia_line_print: "nvidia_gpu g \<Longrightarrow> nvidia_line (nvidia_print g) = Inr g"
proof -
  assume g: "nvidia_gpu g"
  have "cut '', '' (show_nat n) = None" "cut '', '' (show_int i) = None" for n i
    using show_nat_plain show_int_plain by (blast intro: cut_two_None)+
  then have "go_split '', '' (nvidia_print g) =
      [show_int (gi_index g), gi_name g, show_nat (unat (gi_memory_total g)),
       show_nat (unat (gi_memory_free g)), show_int (gi_utilization g)]"
    using g by (simp add: nvidia_print_def nvidia_gpu_def go_split_separator [simplified])
  then show ?thesis
    using g by (simp add: nvidia_line_def Let_def want_def nvidia_gpu_def atoi_show parse_uint_show)
qed

lemma nvidia_print_line:
  assumes "nvidia_gpu g"
  shows "trimmed (nvidia_print g)" and "nvidia_print g \<noteq> []" and "CHR 0x0A \<notin> set (nvidia_print g)"
proof -
  obtain c s where c: "show_int (gi_index g) = c # s"
    by (cases "show_int (gi_index g)") simp_all
  have l: "last (nvidia_print g) = last (show_int (gi_utilization g))"
    by (simp add: nvidia_print_def)
  have "\<not> space_head c" and "\<not> space_last (last (nvidia_print g))"
    using show_int_plain [of c "gi_index g"] show_int_plain [of "last (show_int (gi_utilization g))" "gi_utilization g"]
    by (simp_all add: c l)
  then show "trimmed (nvidia_print g)"
    by (simp add: trimmed_def) (simp add: nvidia_print_def c)
  show "nvidia_print g \<noteq> []"
    by (simp add: nvidia_print_def c)
  show "CHR 0x0A \<notin> set (nvidia_print g)"
    using assms show_nat_plain show_int_plain
    by (auto simp: nvidia_print_def nvidia_gpu_def)
qed

lemma trimmed_join:
  assumes "gs \<noteq> []" and "\<And>x. x \<in> set gs \<Longrightarrow> trimmed x \<and> x \<noteq> []"
  shows "trimmed (go_join [CHR 0x0A] gs)"
proof -
  have hd: "hd (go_join [CHR 0x0A] gs) = hd (hd gs)"
    using assms by (cases gs rule: list.exhaust; cases "tl gs") auto
  have "go_join [CHR 0x0A] gs \<noteq> [] \<and> last (go_join [CHR 0x0A] gs) = last (last gs)"
    using assms
  proof (induction "[CHR 0x0A]" gs rule: go_join.induct)
    case (3 x y xs)
    then show ?case by simp
  qed auto
  then show ?thesis
    using assms hd by (simp add: trimmed_def)
qed

text \<open>C36. Reading back what nvidia-smi prints: the parser gives exactly the records that were
  printed, one per line in the order of the lines, with their 64-bit numbers and their names.\<close>

theorem nvidia_roundtrip:
  assumes "gpus \<noteq> []" and "\<forall>g \<in> set gpus. nvidia_gpu g"
  shows "parse_nvidia_output (go_join [CHR 0x0A] (map nvidia_print gpus)) = Inr gpus"
proof -
  have pr: "trimmed (nvidia_print g) \<and> nvidia_print g \<noteq> [] \<and> CHR 0x0A \<notin> set (nvidia_print g) \<and>
      nvidia_line (nvidia_print g) = Inr g" if "g \<in> set gpus" for g
    using that assms(2) nvidia_print_line nvidia_line_print by blast
  then have "trim_space (go_join [CHR 0x0A] (map nvidia_print gpus)) = go_join [CHR 0x0A] (map nvidia_print gpus)"
    using assms(1) by (intro trim_space_trimmed trimmed_join) auto
  moreover have "go_split [CHR 0x0A] (go_join [CHR 0x0A] (map nvidia_print gpus)) = map nvidia_print gpus"
    using assms(1) pr by (intro go_split_byte_join) auto
  moreover have "nvidia_loop (map nvidia_print gpus) [] = Inr gpus"
    using assms(1) pr by (intro nvidia.loop_prints) blast+
  ultimately show ?thesis
    by (simp add: parse_nvidia_output_def)
qed

theorem nvidia_roundtrip_witness:
  "parse_nvidia_output (nvidia_print \<lparr>gi_index = 0, gi_name = ''A100-80GB'', gi_vendor = vendor_nvidia,
      gi_memory_total = 81920, gi_memory_free = 81000, gi_utilization = 7\<rparr>) =
    Inr [\<lparr>gi_index = 0, gi_name = ''A100-80GB'', gi_vendor = vendor_nvidia,
      gi_memory_total = 81920, gi_memory_free = 81000, gi_utilization = 7\<rparr>]"
proof -
  let ?g = "\<lparr>gi_index = 0, gi_name = ''A100-80GB'', gi_vendor = vendor_nvidia,
      gi_memory_total = 81920, gi_memory_free = 81000, gi_utilization = 7\<rparr> :: gpu_info"
  have "trimmed ''A100-80GB'' \<and> cut '', '' ''A100-80GB'' = None"
    by code_simp
  then have "nvidia_gpu ?g"
    by (simp add: nvidia_gpu_def int64_range_def)
  then show ?thesis
    using nvidia_roundtrip [of "[?g]"] by simp
qed

text \<open>The parser of nvidia-smi accepts an output exactly when every line that is not blank is a
  record and there is one, and then gives the records in order; all are of the vendor.  One line
  that is no record makes the whole output an error.\<close>

theorem nvidia_parse_exact:
  "parse_nvidia_output out = Inr gpus \<longleftrightarrow>
     gpus \<noteq> [] \<and>
     list_all2 (\<lambda>l g. nvidia_line l = Inr g)
       (filter (\<lambda>l. l \<noteq> []) (map trim_space (go_split [CHR 0x0A] (trim_space out)))) gpus"
  by (auto simp: parse_nvidia_output_def nvidia.loop_ok nvidia.kept_def)

section \<open>The detector\<close>

lemma nvidia_line_vendor: "nvidia_line l = Inr g \<Longrightarrow> gi_vendor g = vendor_nvidia"
  by (auto simp: nvidia_line_def Let_def split: if_splits sum.splits)

lemma intel_line_vendor: "intel_line l = Inr g \<Longrightarrow> gi_vendor g = vendor_intel"
  by (auto simp: intel_line_def Let_def split: if_splits sum.splits)

lemma amd_card_vendor: "amd_card other i dev = Inr g \<Longrightarrow> gi_vendor g = vendor_amd \<and> gi_index g = i"
  by (auto simp: amd_card_def split: sum.splits)

text \<open>The card under the key \<open>k\<close> of the map, numbered \<open>i\<close>.\<close>

definition rocm_card :: "int \<Rightarrow> (string, json) gomap \<Rightarrow> int \<Rightarrow> string \<Rightarrow> gpu_info \<Rightarrow> bool" where
  "rocm_card other raw i k g \<longleftrightarrow>
     (\<exists>val dev. gm_get raw k = Some val \<and> dec_struct rocm_fields val no_rocm_device = Some dev \<and>
        amd_card other i dev = Inr g)"

lemma amd_loop_ok:
  "amd_loop other raw ks i gpus = Inr gs \<Longrightarrow>
     gs \<noteq> [] \<and> (\<exists>new. gs = gpus @ new \<and> length new = length ks \<and>
       (\<forall>j < length ks. rocm_card other raw (i + int j) (ks ! j) (new ! j)))"
proof (induction ks arbitrary: i gpus)
  case Nil
  then show ?case by (simp split: if_splits)
next
  case (Cons k ks)
  obtain val dev g where k: "gm_get raw k = Some val" "dec_struct rocm_fields val no_rocm_device = Some dev"
      "amd_card other i dev = Inr g" and rest: "amd_loop other raw ks (i + 1) (gpus @ [g]) = Inr gs"
    using Cons.prems by (simp split: option.splits sum.splits)
  obtain new where new: "gs \<noteq> []" "gs = (gpus @ [g]) @ new" "length new = length ks"
      "\<forall>j < length ks. rocm_card other raw (i + 1 + int j) (ks ! j) (new ! j)"
    using Cons.IH [OF rest] by blast
  have step: "rocm_card other raw (i + int j) ((k # ks) ! j) ((g # new) ! j)" if "j < length (k # ks)" for j
  proof (cases j)
    case 0
    then show ?thesis using k by (simp add: rocm_card_def)
  next
    case (Suc j')
    then have "rocm_card other raw (i + 1 + int j') (ks ! j') (new ! j')"
      using new(4) that by simp
    then show ?thesis
      by (simp add: Suc add.assoc)
  qed
  show ?case
  proof (intro conjI exI allI impI)
    show "gs \<noteq> []" by (rule new(1))
    show "gs = gpus @ (g # new)" using new(2) by simp
    show "length (g # new) = length (k # ks)" using new(3) by simp
  qed (rule step)
qed

lemma dec_map_ok: "dec_map j = Some raw \<Longrightarrow> gomap_ok raw"
proof -
  have "gomap_ok m \<Longrightarrow> gomap_ok (foldl (\<lambda>m (k, v). gm_set k v m) m ms)" for m ms :: "(string \<times> json) list"
    by (induction ms arbitrary: m) auto
  then show "dec_map j = Some raw \<Longrightarrow> gomap_ok raw"
    by (auto simp: dec_map_def split: json.splits)
qed

lemma card_keys_strict: "gomap_ok raw \<Longrightarrow> sorted_wrt (<) (card_keys raw)"
  by (rule sorted_distinct_strict) (simp_all add: card_keys_def gomap_ok_def)

lemma card_keys_order: "mset raw = mset raw' \<Longrightarrow> card_keys raw = card_keys raw'"
  unfolding card_keys_def
  by (metis mset_filter mset_map sorted_list_of_multiset_mset)

lemma amd_loop_order:
  assumes "gomap_ok raw" and "mset raw = mset raw'"
  shows "amd_loop other raw ks i gpus = amd_loop other raw' ks i gpus"
proof -
  have "gm_get raw = gm_get raw'"
  proof -
    have "gomap_ok raw'" and "set raw = set raw'"
      using assms mset_eq_imp_distinct_iff [of "map fst raw" "map fst raw'"] mset_eq_setD
      by (auto simp: gomap_ok_def mset_map)
    then show ?thesis
      using assms(1) by (simp add: gomap_ok_def map_of_inject_set)
  qed
  then show ?thesis
    by (induction ks arbitrary: i gpus) (simp_all split: option.split sum.split)
qed

lemma amd_gpus:
  assumes "parse_amd_output other data = Inr gs"
  shows "gs \<noteq> [] \<and> list_all (\<lambda>g. gi_vendor g = vendor_amd) gs"
proof -
  obtain raw where "amd_loop other raw (card_keys raw) 0 [] = Inr gs"
    using assms by (auto simp: parse_amd_output_def split: option.splits)
  from amd_loop_ok [OF this] show ?thesis
    by (auto simp: list_all_length rocm_card_def dest: amd_card_vendor)
qed

text \<open>The cards of rocm-smi are numbered 0, 1, ... in the order of their keys: on success there is
  one entry for each key that begins with card, in byte order of the keys, with that number, the
  vendor and what the entry of the key says; the order in which the map is visited plays no part.\<close>

theorem amd_cards_in_key_order:
  assumes "parse_amd_output other data = Inr gpus"
  shows "\<exists>raw. Option.bind (json_parse data) dec_map = Some raw \<and> gpus \<noteq> [] \<and>
    sorted_wrt (<) (card_keys raw) \<and> length gpus = length (card_keys raw) \<and>
    (\<forall>j < length gpus. gi_index (gpus ! j) = int j \<and> gi_vendor (gpus ! j) = vendor_amd \<and>
       rocm_card other raw (int j) (card_keys raw ! j) (gpus ! j)) \<and>
    (\<forall>raw'. mset raw' = mset raw \<longrightarrow> amd_loop other raw' (card_keys raw') 0 [] = Inr gpus)"
proof -
  obtain raw where raw: "Option.bind (json_parse data) dec_map = Some raw"
      and loop: "amd_loop other raw (card_keys raw) 0 [] = Inr gpus"
    using assms by (auto simp: parse_amd_output_def split: option.splits)
  have ok: "gomap_ok raw"
    using raw dec_map_ok by (auto split: bind_splits)
  have gpus: "gpus \<noteq> []" "length gpus = length (card_keys raw)"
      "\<And>j. j < length gpus \<Longrightarrow> rocm_card other raw (int j) (card_keys raw ! j) (gpus ! j)"
    using amd_loop_ok [OF loop] by auto
  have "gi_index (gpus ! j) = int j \<and> gi_vendor (gpus ! j) = vendor_amd" if "j < length gpus" for j
    using gpus(3) [OF that] amd_card_vendor by (auto simp: rocm_card_def)
  moreover have "amd_loop other raw' (card_keys raw') 0 [] = Inr gpus" if "mset raw' = mset raw" for raw'
    using loop amd_loop_order [OF ok that [symmetric]] card_keys_order [OF that] by simp
  ultimately show ?thesis
    using raw gpus card_keys_strict [OF ok] by blast
qed

text \<open>Two cards, as rocm-smi prints them.\<close>

definition two_cards :: "(string, json) gomap" where
  "two_cards =
     [(''card1'', JObj [(''Card Series'', JStr ''B''), (''VRAM Total Memory (B)'', JStr ''4194304''),
         (''VRAM Total Used Memory (B)'', JStr ''1048576'')]),
      (''card0'', JObj [(''Card Series'', JStr ''A''), (''VRAM Total Memory (B)'', JStr ''2097152''),
         (''VRAM Total Used Memory (B)'', JStr ''0'')])]"

definition two_cards_text :: string where
  "two_cards_text = json_marshal (JObj two_cards)"

lemma two_cards_ok: "Option.bind (json_parse two_cards_text) dec_map = Some two_cards"
proof -
  have "json_parse two_cards_text = Some (JObj two_cards)"
  proof -
    have "json_utf8 (JObj two_cards) = JObj two_cards"
      by code_simp
    then show ?thesis
      using compact.parse_pp [of "JObj two_cards" 0] by (simp add: two_cards_text_def json_marshal_def two_cards_def)
  qed
  then show ?thesis
    by (simp add: dec_map_def two_cards_def)
qed

theorem amd_cards_in_key_order_witness:
  "\<exists>gpus. parse_amd_output 0 two_cards_text = Inr gpus \<and> map gi_index gpus = [0, 1] \<and>
     map gi_name gpus = [''A'', ''B''] \<and> map gi_memory_free gpus = [2, 3]"
proof -
  have keys: "card_keys two_cards = [''card0'', ''card1'']"
    by (simp add: card_keys_def two_cards_def)
  have loop: "amd_loop 0 two_cards [''card0'', ''card1''] 0 [] = Inr
      [\<lparr>gi_index = 0, gi_name = ''A'', gi_vendor = vendor_amd, gi_memory_total = 2, gi_memory_free = 2, gi_utilization = 0\<rparr>,
       \<lparr>gi_index = 1, gi_name = ''B'', gi_vendor = vendor_amd, gi_memory_total = 4, gi_memory_free = 3, gi_utilization = 0\<rparr>]"
    by (simp add: two_cards_def dec_struct_def rocm_fields_def fold_eval dec_string_def
        no_rocm_device_def amd_card_def want_def num_eval mebi_def)
  then obtain gpus where g: "parse_amd_output 0 two_cards_text = Inr gpus" "amd_loop 0 two_cards (card_keys two_cards) 0 [] = Inr gpus"
    by (simp add: parse_amd_output_def two_cards_ok keys)
  then show ?thesis
    using amd_cards_in_key_order [OF g(1)] loop by (simp add: keys)
qed

text \<open>C37. The free memory of a card is the difference of its total and its used bytes in mebibytes as
  long as no more is used than there is; a card that reports more used than there is gets the
  difference modulo two to the 64, and so more free memory than it has in all.\<close>

theorem amd_free_memory:
  assumes "amd_card other i dev = Inr g"
    and "parse_uint (rd_vram_total dev) = Inr t" and "parse_uint (rd_vram_used dev) = Inr u"
  shows "unat (gi_memory_total g) = unat t div 2 ^ 20 \<and>
    (u \<le> t \<longrightarrow> unat (gi_memory_free g) = (unat t - unat u) div 2 ^ 20 \<and>
       gi_memory_free g \<le> gi_memory_total g) \<and>
    (t < u \<and> u \<le> 2 ^ 63 \<longrightarrow> unat (gi_memory_free g) = (2 ^ 64 + unat t - unat u) div 2 ^ 20 \<and>
       gi_memory_total g < gi_memory_free g)"
proof -
  have g: "gi_memory_total g = t div mebi" "gi_memory_free g = (t - u) div mebi"
    using assms by (auto simp: amd_card_def want_def split: sum.splits)
  have mebi: "unat (w div mebi) = unat w div 2 ^ 20" for w
    by (simp add: mebi_def unat_div)
  have below: "unat (gi_memory_free g) = (unat t - unat u) div 2 ^ 20 \<and> gi_memory_free g \<le> gi_memory_total g"
    if "u \<le> t"
  proof -
    have "unat (t - u) = unat t - unat u"
      using that by (rule unat_sub)
    then show ?thesis
      unfolding word_le_nat_alt g mebi by (simp add: div_le_mono)
  qed
  have above: "unat (gi_memory_free g) = (2 ^ 64 + unat t - unat u) div 2 ^ 20 \<and> gi_memory_total g < gi_memory_free g"
    if "t < u" and "u \<le> 2 ^ 63"
  proof -
    have tu: "unat t < unat u" and u: "unat u \<le> 2 ^ 63"
      using that by (simp_all add: word_less_nat_alt word_le_nat_alt)
    have d: "unat (t - u) = 2 ^ 64 + unat t - unat u"
      using tu by (simp add: unat_sub_if')
    have "unat t div 2 ^ 20 < 2 ^ 43"
      using tu u by (simp add: less_mult_imp_div_less)
    moreover have "2 ^ 43 \<le> (2 ^ 64 + unat t - unat u) div 2 ^ 20"
      using div_le_mono [of "2 ^ 63" "2 ^ 64 + unat t - unat u" "2 ^ 20"] u by simp
    ultimately show ?thesis
      unfolding word_less_nat_alt g mebi d by simp
  qed
  show ?thesis
    using below above by (simp only: g mebi) simp
qed

theorem amd_free_memory_witness:
  "\<exists>g. amd_card 0 0 (no_rocm_device\<lparr>rd_vram_total := ''1048576'', rd_vram_used := ''2097152''\<rparr>) = Inr g \<and>
     unat (gi_memory_total g) = 1 \<and> unat (gi_memory_free g) = 2 ^ 44 - 1"
proof -
  let ?dev = "no_rocm_device\<lparr>rd_vram_total := ''1048576'', rd_vram_used := ''2097152''\<rparr>"
  have t: "parse_uint (rd_vram_total ?dev) = Inr 1048576" and u: "parse_uint (rd_vram_used ?dev) = Inr 2097152"
    by (simp_all add: num_eval)
  then obtain g where g: "amd_card 0 0 ?dev = Inr g"
    by (simp add: amd_card_def want_def no_rocm_device_def)
  have lt: "(1048576 :: 64 word) < 2097152 \<and> (2097152 :: 64 word) \<le> 2 ^ 63"
    by (simp add: word_less_nat_alt word_le_nat_alt)
  show ?thesis
    using amd_free_memory [OF g t u] lt g by simp
qed

text \<open>C23. The detector asks nvidia-smi, then rocm-smi, then xpu-smi, and stops at the first that
  describes a GPU; the snapshot has that vendor and only GPUs of it, and it is empty exactly when
  none of the three does.\<close>

theorem detect_order:
  "case detect other run now of (snap, asked) \<Rightarrow>
     (sn_vendor snap = vendor_nvidia \<longleftrightarrow> (\<exists>gs. detect_nvidia run = Inr gs)) \<and>
     (sn_vendor snap = vendor_amd \<longleftrightarrow>
        (\<exists>e gs. detect_nvidia run = Inl e \<and> detect_amd other run = Inr gs)) \<and>
     (sn_vendor snap = vendor_intel \<longleftrightarrow>
        (\<exists>e e' gs. detect_nvidia run = Inl e \<and> detect_amd other run = Inl e' \<and> detect_intel run = Inr gs)) \<and>
     (sn_gpus snap = [] \<longleftrightarrow> sn_vendor snap = vendor_unknown) \<and>
     list_all (\<lambda>g. gi_vendor g = sn_vendor snap) (sn_gpus snap) \<and>
     asked = (if sn_vendor snap = vendor_nvidia then [''nvidia-smi'']
              else if sn_vendor snap = vendor_amd then [''nvidia-smi'', ''rocm-smi'']
              else [''nvidia-smi'', ''rocm-smi'', ''xpu-smi''])"
proof -
  have n: "gs \<noteq> [] \<and> list_all (\<lambda>g. gi_vendor g = vendor_nvidia) gs" if "detect_nvidia run = Inr gs" for gs
    using that nvidia.loop_vendor nvidia_line_vendor
    by (auto simp: detect_nvidia_def parse_nvidia_output_def split: sum.splits)
  have a: "gs \<noteq> [] \<and> list_all (\<lambda>g. gi_vendor g = vendor_amd) gs" if "detect_amd other run = Inr gs" for gs
    using that amd_gpus
    by (auto simp: detect_amd_def split: sum.splits)
  have i: "gs \<noteq> [] \<and> list_all (\<lambda>g. gi_vendor g = vendor_intel) gs" if "detect_intel run = Inr gs" for gs
    using that intel.loop_vendor intel_line_vendor
    by (auto simp: detect_intel_def parse_intel_output_def split: sum.splits)
  show ?thesis
    using n a i by (auto simp: detect_def split: sum.split)
qed

section \<open>The utilization of a card\<close>

text \<open>The utilization of an AMD card is the integer part of the decimal percentage rocm-smi
  prints: reading it as a float64 and converting it to an integer loses nothing else.\<close>

theorem amd_utilization:
  assumes "rd_gpu_use dev = show_nat n @ ''.'' @ ds" and "n \<le> 100"
    and "list_all (\<lambda>c. digit_val c \<noteq> None) ds" and "length ds \<le> 12"
    and "amd_card other i dev = Inr g"
  shows "gi_utilization g = int n"
proof -
  have "parse_float_int other (rd_gpu_use dev) = Inr (int n)"
    unfolding assms(1) by (rule parse_decimal) (use assms in simp_all)
  then show ?thesis
    using assms(1,5) by (auto simp: amd_card_def want_def split: sum.splits)
qed

theorem amd_utilization_witness:
  "\<exists>g. amd_card 0 0 (no_rocm_device\<lparr>rd_vram_total := ''8'', rd_vram_used := ''4'',
      rd_gpu_use := ''57.9''\<rparr>) = Inr g \<and> gi_utilization g = 57"
proof -
  let ?dev = "no_rocm_device\<lparr>rd_vram_total := ''8'', rd_vram_used := ''4'', rd_gpu_use := ''57.9''\<rparr>"
  have use: "rd_gpu_use ?dev = show_nat 57 @ ''.'' @ ''9''"
    by (simp add: num_eval)
  have "parse_uint ''8'' = Inr 8" "parse_uint ''4'' = Inr 4"
    by (simp_all add: num_eval)
  moreover have "parse_float_int 0 (rd_gpu_use ?dev) = Inr 57"
    unfolding use using parse_decimal [of 57 "''9''" 0] by (simp add: digit_val_def)
  ultimately obtain g where "amd_card 0 0 ?dev = Inr g"
    by (simp add: amd_card_def want_def no_rocm_device_def)
  then show ?thesis
    using amd_utilization [OF use _ _ _ \<open>amd_card 0 0 ?dev = Inr g\<close>] by (simp add: digit_val_def)
qed

end
