(* ===== verification/Gpu_Poller.thy ===== *)
theory Gpu_Poller
  imports Gpu_Detect
begin

text \<open>
  The poller of \<open>internal/gpu/poller.go\<close> as a step relation: its goroutine waits for the ticker,
  detects, stores and publishes, and between any two of these steps readers of the latest snapshot,
  new subscribers and receivers may act.  What was published and what each subscriber has received
  is kept beside the state.
\<close>

section \<open>Channels\<close>

text \<open>What a sender that never waits and a receiver may rely on.\<close>

locale bounded_channel =
  fixes capacity :: nat
    and contents :: "'c \<Rightarrow> 'a list"
    and offer :: "'a \<Rightarrow> 'c \<Rightarrow> 'c"
    and receive :: "'c \<Rightarrow> ('a \<times> 'c) option"
    and fresh :: 'c
  assumes fresh: "contents fresh = []"
    and offer: "contents (offer x c) =
      (if length (contents c) < capacity then contents c @ [x] else contents c)"
    and receive_empty: "contents c = [] \<Longrightarrow> receive c = None"
    and receive_first: "contents c = x # xs \<Longrightarrow> \<exists>c'. receive c = Some (x, c') \<and> contents c' = xs"
begin

lemma offer_bound: "length (contents c) \<le> capacity \<Longrightarrow> length (contents (offer x c)) \<le> capacity"
  by (simp add: offer)

lemma offer_subseq: "subseq (ys @ contents c) zs \<Longrightarrow> subseq (ys @ contents (offer x c)) (zs @ [x])"
  by (simp add: offer list_emb_append_mono subseq_rev_drop_many flip: append_assoc)

lemma offer_room: "contents c = [] \<Longrightarrow> 0 < capacity \<Longrightarrow> contents (offer x c) = [x]"
  by (simp add: offer)

lemma receive_contents: "receive c = Some (x, c') \<Longrightarrow> contents c = x # contents c'"
  by (cases "contents c") (use receive_empty receive_first in fastforce)+

end

text \<open>\<open>make(chan Snapshot, 1)\<close> and a send in a \<open>select\<close> with a default.\<close>

type_synonym chan = "snapshot list"

definition chan_offer :: "snapshot \<Rightarrow> chan \<Rightarrow> chan" where
  "chan_offer s ch = (if length ch < 1 then ch @ [s] else ch)"

definition chan_receive :: "chan \<Rightarrow> (snapshot \<times> chan) option" where
  "chan_receive ch = (case ch of [] \<Rightarrow> None | s # ss \<Rightarrow> Some (s, ss))"

interpretation updates: bounded_channel 1 "\<lambda>ch. ch" chan_offer chan_receive "[]"
  by unfold_locales (simp_all add: chan_offer_def chan_receive_def)

section \<open>The poller\<close>

datatype stage =
    Launching
  | Waiting
  | Detected snapshot
  | Stored snapshot
  | Stopped
  | Crashed

record poller =
  po_interval :: int
  po_latest :: snapshot
  po_subs :: "chan list"
  po_stage :: stage

text \<open>What has happened: the snapshots stored before each subscription, published and received.\<close>

record poll_log =
  pl_published :: "snapshot list"
  pl_joined :: "nat list"
  pl_received :: "snapshot list list"

definition poller_start :: "int \<Rightarrow> snapshot \<Rightarrow> poller" where
  "poller_start interval snap =
     \<lparr>po_interval = interval, po_latest = snap, po_subs = [], po_stage = Launching\<rparr>"

definition log_start :: poll_log where
  "log_start = \<lparr>pl_published = [], pl_joined = [], pl_received = []\<rparr>"

definition set_latest :: "snapshot \<Rightarrow> poller \<Rightarrow> poller" where
  "set_latest snap p = p\<lparr>po_latest := snap\<rparr>"

definition publish :: "snapshot \<Rightarrow> poller \<Rightarrow> poller" where
  "publish snap p = p\<lparr>po_subs := map (chan_offer snap) (po_subs p)\<rparr>"

definition latest :: "poller \<Rightarrow> snapshot" where
  "latest p = po_latest p"

definition subscribe :: "poller \<Rightarrow> nat \<times> poller" where
  "subscribe p = (length (po_subs p), p\<lparr>po_subs := po_subs p @ [[]]\<rparr>)"

text \<open>
  The steps, for a detector whose results are in \<open>D\<close>.  \<open>time.NewTicker\<close> panics unless the interval
  is positive.
\<close>

inductive poll_step :: "(snapshot \<Rightarrow> bool) \<Rightarrow> poller \<times> poll_log \<Rightarrow> poller \<times> poll_log \<Rightarrow> bool" for D where
  ticker: "po_stage p = Launching \<Longrightarrow> 0 < po_interval p \<Longrightarrow>
    poll_step D (p, l) (p\<lparr>po_stage := Waiting\<rparr>, l)"
| no_ticker: "po_stage p = Launching \<Longrightarrow> po_interval p \<le> 0 \<Longrightarrow>
    poll_step D (p, l) (p\<lparr>po_stage := Crashed\<rparr>, l)"
| tick: "po_stage p = Waiting \<Longrightarrow> D snap \<Longrightarrow>
    poll_step D (p, l) (p\<lparr>po_stage := Detected snap\<rparr>, l)"
| store: "po_stage p = Detected snap \<Longrightarrow>
    poll_step D (p, l) ((set_latest snap p)\<lparr>po_stage := Stored snap\<rparr>, l)"
| publishes: "po_stage p = Stored snap \<Longrightarrow>
    poll_step D (p, l) ((publish snap p)\<lparr>po_stage := Waiting\<rparr>, l\<lparr>pl_published := pl_published l @ [snap]\<rparr>)"
| stops: "po_stage p = Waiting \<Longrightarrow> poll_step D (p, l) (p\<lparr>po_stage := Stopped\<rparr>, l)"
| subscribes: "po_stage p \<noteq> Crashed \<Longrightarrow> subscribe p = (k, p') \<Longrightarrow>
    poll_step D (p, l) (p', l\<lparr>pl_joined := pl_joined l @ [length (pl_published l)],
      pl_received := pl_received l @ [[]]\<rparr>)"
| receives: "po_stage p \<noteq> Crashed \<Longrightarrow> k < length (po_subs p) \<Longrightarrow> chan_receive (po_subs p ! k) = Some (s, ch) \<Longrightarrow>
    poll_step D (p, l) (p\<lparr>po_subs := (po_subs p)[k := ch]\<rparr>,
      l\<lparr>pl_received := (pl_received l)[k := pl_received l ! k @ [s]]\<rparr>)"

definition fed :: "poller \<Rightarrow> poll_log \<Rightarrow> nat \<Rightarrow> bool" where
  "fed p l k \<longleftrightarrow>
     length (po_subs p ! k) \<le> 1 \<and> pl_joined l ! k \<le> length (pl_published l) \<and>
     subseq (pl_received l ! k @ po_subs p ! k) (drop (pl_joined l ! k) (pl_published l))"

definition poll_inv :: "snapshot \<Rightarrow> poller \<times> poll_log \<Rightarrow> bool" where
  "poll_inv first = (\<lambda>(p, l).
     length (pl_joined l) = length (po_subs p) \<and> length (pl_received l) = length (po_subs p) \<and>
     (\<forall>k < length (po_subs p). fed p l k) \<and>
     (case po_stage p of
        Stored snap \<Rightarrow> po_latest p = snap
      | _ \<Rightarrow> po_latest p = last (first # pl_published l)))"

lemma fed_publish:
  assumes "fed p l k" and "k < length (po_subs p)"
  shows "fed ((publish snap p)\<lparr>po_stage := st\<rparr>) (l\<lparr>pl_published := pl_published l @ [snap]\<rparr>) k"
  using assms updates.offer_bound [of "po_subs p ! k" snap]
    updates.offer_subseq [of "pl_received l ! k" "po_subs p ! k" _ snap]
  by (simp add: fed_def publish_def)

lemma poll_inv_step: "poll_step D s s' \<Longrightarrow> poll_inv first s \<Longrightarrow> poll_inv first s'"
proof (induction rule: poll_step.induct)
  case (publishes p snap l)
  then show ?case
    using fed_publish by (simp add: poll_inv_def) (simp add: publish_def)
next
  case (subscribes p k p' l)
  have "fed p' (l\<lparr>pl_joined := pl_joined l @ [length (pl_published l)], pl_received := pl_received l @ [[]]\<rparr>) j"
    if "j < Suc (length (po_subs p))" for j
  proof (cases "j = length (po_subs p)")
    case True
    then show ?thesis
      using subscribes by (auto simp: fed_def subscribe_def poll_inv_def nth_append)
  next
    case False
    then show ?thesis
      using subscribes that by (auto simp: fed_def subscribe_def poll_inv_def nth_append)
  qed
  then show ?case
    using subscribes by (auto simp: poll_inv_def subscribe_def split: stage.splits)
next
  case (receives p k s ch l)
  have "po_subs p ! k = s # ch"
    using receives(3) by (rule updates.receive_contents)
  then have "fed (p\<lparr>po_subs := (po_subs p)[k := ch]\<rparr>)
      (l\<lparr>pl_received := (pl_received l)[k := pl_received l ! k @ [s]]\<rparr>) j"
    if "j < length (po_subs p)" for j
    using receives(2,4) that by (cases "j = k") (auto simp: fed_def poll_inv_def)
  then show ?case
    using receives(4) by (cases "po_stage p") (simp_all add: poll_inv_def)
qed (auto simp: poll_inv_def fed_def set_latest_def)

lemma poll_inv_reachable:
  "(poll_step D)\<^sup>*\<^sup>* (poller_start i first, log_start) s \<Longrightarrow> poll_inv first s"
proof (induction rule: rtranclp_induct)
  case base
  then show ?case by (simp add: poll_inv_def poller_start_def log_start_def)
next
  case (step s t)
  then show ?case using poll_inv_step by blast
qed

lemma crash_reachable:
  "(poll_step D)\<^sup>*\<^sup>* (poller_start i first, log_start) s \<Longrightarrow>
     po_interval (fst s) = i \<and> (po_stage (fst s) = Crashed \<longrightarrow> i \<le> 0) \<and>
     (po_stage (fst s) \<notin> {Launching, Crashed} \<longrightarrow> 0 < i)"
proof (induction rule: rtranclp_induct)
  case base
  then show ?case by (simp add: poller_start_def)
next
  case (step s t)
  from step.hyps(2) step.IH show ?case
    by (cases rule: poll_step.cases) (auto simp: set_latest_def publish_def subscribe_def)
qed

section \<open>Properties\<close>

text \<open>C15. Whatever the order of ticks, subscriptions and receptions: a subscriber receives some of
  the snapshots published since it subscribed, in the order of their publication and none twice,
  with at most one waiting for it, and the latest snapshot is the newest one stored, never older
  than anything published.\<close>

theorem poller_feeds_in_order:
  assumes "(poll_step D)\<^sup>*\<^sup>* (poller_start interval first, log_start) (p, l)"
    and "k < length (po_subs p)"
  shows "length (po_subs p ! k) \<le> 1 \<and>
    subseq (pl_received l ! k @ po_subs p ! k) (drop (pl_joined l ! k) (pl_published l)) \<and>
    (case po_stage p of Stored snap \<Rightarrow> latest p = snap | _ \<Rightarrow> latest p = last (first # pl_published l))"
  using poll_inv_reachable [OF assms(1)] assms(2) unfolding latest_def
  by (simp add: poll_inv_def fed_def)

definition no_gpu :: snapshot where
  "no_gpu = \<lparr>sn_vendor = vendor_unknown, sn_gpus = [], sn_timestamp = ''t0''\<rparr>"

definition later :: snapshot where
  "later = no_gpu\<lparr>sn_timestamp := ''t1''\<rparr>"

lemma sample_polls:
  "\<exists>p l. (poll_step (\<lambda>_. True))\<^sup>*\<^sup>* (poller_start 30 no_gpu, log_start) (p, l) \<and>
     po_subs p = [[later]] \<and> pl_published l = [later]"
proof -
  let ?l1 = "log_start\<lparr>pl_joined := [0], pl_received := [[]]\<rparr>"
  let ?p0 = "poller_start 30 no_gpu"
  let ?p1 = "?p0\<lparr>po_stage := Waiting\<rparr>" let ?p2 = "?p1\<lparr>po_subs := [[]]\<rparr>"
  let ?p3 = "?p2\<lparr>po_stage := Detected later\<rparr>" let ?p4 = "(set_latest later ?p3)\<lparr>po_stage := Stored later\<rparr>"
  let ?p5 = "(publish later ?p4)\<lparr>po_stage := Waiting\<rparr>" let ?l5 = "?l1\<lparr>pl_published := [later]\<rparr>"
  have "poll_step (\<lambda>_. True) (?p0, log_start) (?p1, log_start)"
    by (rule ticker) (simp_all add: poller_start_def)
  moreover have "poll_step (\<lambda>_. True) (?p1, log_start) (?p2, ?l1)"
    using subscribes [of ?p1 0 ?p2 _ log_start] by (simp add: subscribe_def poller_start_def log_start_def)
  moreover have "poll_step (\<lambda>_. True) (?p2, ?l1) (?p3, ?l1)"
    by (rule tick) (simp_all add: poller_start_def)
  moreover have "poll_step (\<lambda>_. True) (?p3, ?l1) (?p4, ?l1)"
    by (rule store) (simp_all add: poller_start_def)
  moreover have "poll_step (\<lambda>_. True) (?p4, ?l1) (?p5, ?l5)"
    using publishes [of ?p4 later _ ?l1] by (simp add: log_start_def)
  ultimately have "(poll_step (\<lambda>_. True))\<^sup>*\<^sup>* (?p0, log_start) (?p5, ?l5)"
    by (meson rtranclp.rtrancl_into_rtrancl rtranclp.rtrancl_refl)
  then show ?thesis
    by (intro exI [of _ ?p5] exI [of _ ?l5])
      (simp add: publish_def set_latest_def chan_offer_def poller_start_def)
qed

theorem poller_feeds_in_order_witness:
  "\<exists>p l. (poll_step (\<lambda>_. True))\<^sup>*\<^sup>* (poller_start 30 no_gpu, log_start) (p, l) \<and>
     po_subs p ! 0 = [later] \<and> subseq (pl_received l ! 0 @ [later]) (drop (pl_joined l ! 0) [later])"
proof -
  obtain p l where pl: "(poll_step (\<lambda>_. True))\<^sup>*\<^sup>* (poller_start 30 no_gpu, log_start) (p, l)"
      "po_subs p = [[later]]" "pl_published l = [later]"
    using sample_polls by blast
  then show ?thesis
    using poller_feeds_in_order [OF pl(1), of 0] by (intro exI [of _ p] exI [of _ l]) simp
qed

text \<open>C1. A subscriber that keeps up misses nothing and one that does not keeps the oldest update:
  publishing fills every empty channel with the new snapshot and changes no other.\<close>

theorem publish_to_idle:
  "po_subs (publish snap p) = map (\<lambda>ch. if ch = [] then [snap] else ch) (po_subs p)"
  by (auto simp: publish_def chan_offer_def)

text \<open>The poller's goroutine crashes exactly when the interval is not positive.\<close>

theorem poller_crash:
  "(\<exists>s. (poll_step D)\<^sup>*\<^sup>* (poller_start interval first, log_start) s \<and> po_stage (fst s) = Crashed) \<longleftrightarrow>
     interval \<le> 0"
proof
  assume "\<exists>s. (poll_step D)\<^sup>*\<^sup>* (poller_start interval first, log_start) s \<and> po_stage (fst s) = Crashed"
  then show "interval \<le> 0"
    using crash_reachable by blast
next
  assume "interval \<le> 0"
  then have "poll_step D (poller_start interval first, log_start)
      ((poller_start interval first)\<lparr>po_stage := Crashed\<rparr>, log_start)"
    by (intro no_ticker) (simp_all add: poller_start_def)
  then show "\<exists>s. (poll_step D)\<^sup>*\<^sup>* (poller_start interval first, log_start) s \<and> po_stage (fst s) = Crashed"
    by (intro exI [of _ "((poller_start interval first)\<lparr>po_stage := Crashed\<rparr>, log_start)"]) auto
qed

end
