(* ===== verification/System_Info.thy ===== *)
theory System_Info
  imports Gpu_Types Go_Float
begin

text \<open>
  The host description of \<open>internal/system/info.go\<close>.  What the program asks of its host is a record
  of functions: the Go runtime's constants, the files under \<open>/proc\<close>, and the command runner.
\<close>

record host =
  ho_hostname :: string
  ho_goos :: string
  ho_goarch :: string
  ho_num_cpu :: int
  ho_read_file :: "string \<Rightarrow> string option"
  ho_run :: runner

record system_info =
  si_hostname :: string
  si_os :: string
  si_arch :: string
  si_kernel :: string
  si_cpu_model :: string
  si_cpu_cores :: int
  si_memory_mb :: "64 word"

fun cpu_model_loop :: "string list \<Rightarrow> string" where
  "cpu_model_loop [] = []"
| "cpu_model_loop (line # ls) =
     (if has_prefix line ''model name'' then
        (case split_n2 '':'' line of
           [a, b] \<Rightarrow> trim_space b
         | _ \<Rightarrow> cpu_model_loop ls)
      else cpu_model_loop ls)"

definition parse_cpu_model :: "string \<Rightarrow> string" where
  "parse_cpu_model data = cpu_model_loop (go_split [CHR 0x0A] data)"

fun mem_total_loop :: "string list \<Rightarrow> 64 word" where
  "mem_total_loop [] = 0"
| "mem_total_loop (line # ls) =
     (if has_prefix line ''MemTotal:'' then
        (case Go_Strings.fields line of
           a # b # r \<Rightarrow> (case parse_uint b of Inl e \<Rightarrow> 0 | Inr kb \<Rightarrow> kb div 1024)
         | _ \<Rightarrow> mem_total_loop ls)
      else mem_total_loop ls)"

definition parse_mem_total :: "string \<Rightarrow> 64 word" where
  "parse_mem_total data = mem_total_loop (go_split [CHR 0x0A] data)"

text \<open>Each source is asked for; one that fails leaves its field empty.\<close>

definition collect :: "host \<Rightarrow> system_info" where
  "collect h =
     (let info = \<lparr>si_hostname = ho_hostname h, si_os = ho_goos h, si_arch = ho_goarch h,
            si_kernel = [], si_cpu_model = [], si_cpu_cores = ho_num_cpu h, si_memory_mb = 0\<rparr>;
          info = (case ho_run h ''uname'' [''-r''] of
              Inl _ \<Rightarrow> info | Inr out \<Rightarrow> info\<lparr>si_kernel := trim_space out\<rparr>);
          info = (if ho_goos h = ''linux'' then
              (let info = (case ho_read_file h ''/proc/cpuinfo'' of
                    None \<Rightarrow> info | Some data \<Rightarrow> info\<lparr>si_cpu_model := parse_cpu_model data\<rparr>)
               in (case ho_read_file h ''/proc/meminfo'' of
                    None \<Rightarrow> info | Some data \<Rightarrow> info\<lparr>si_memory_mb := parse_mem_total data\<rparr>))
            else info)
      in if ho_goos h = ''darwin'' then
           (let info = (case ho_run h ''sysctl'' [''-n'', ''machdep.cpu.brand_string''] of
                 Inl _ \<Rightarrow> info | Inr out \<Rightarrow> info\<lparr>si_cpu_model := trim_space out\<rparr>)
            in (case ho_run h ''sysctl'' [''-n'', ''hw.memsize''] of
                 Inl _ \<Rightarrow> info
               | Inr out \<Rightarrow>
                   (case parse_uint (trim_space out) of
                      Inl _ \<Rightarrow> info
                    | Inr bytes \<Rightarrow> info\<lparr>si_memory_mb := bytes div (1024 * 1024)\<rparr>)))
         else info)"

section \<open>Disk usage\<close>

record disk_usage =
  du_total_gb :: go_float
  du_used_gb :: go_float
  du_available_gb :: go_float
  du_used_percent :: string

datatype disk_error = DfFailed string | DfFormat | DfFields nat

text \<open>The errors of the three numbers are ignored.\<close>

definition parse_df_output :: "string \<Rightarrow> (disk_error, disk_usage) result" where
  "parse_df_output output =
     (case go_split [CHR 0x0A] (trim_space output) of
        l0 # l1 # ls \<Rightarrow>
          (let fs = Go_Strings.fields l1 in
           if length fs < 4 then Inl (DfFields (length fs))
           else Inr \<lparr>du_total_gb = snd (parse_float (trim_suffix (fs ! 0) ''G'')),
                  du_used_gb = snd (parse_float (trim_suffix (fs ! 1) ''G'')),
                  du_available_gb = snd (parse_float (trim_suffix (fs ! 2) ''G'')),
                  du_used_percent = trim_space (fs ! 3)\<rparr>)
      | _ \<Rightarrow> Inl DfFormat)"

definition collect_disk :: "runner \<Rightarrow> (disk_error, disk_usage) result" where
  "collect_disk run =
     (case run ''df'' [''-BG'', ''--output=size,used,avail,pcent'', ''/''] of
        Inl e \<Rightarrow> Inl (DfFailed e)
      | Inr out \<Rightarrow> parse_df_output out)"

section \<open>Fields\<close>

lemma trim_left_space: "trim_left (CHR 0x20 # s) = trim_left s"
  unfolding trim_left_def
  by (subst strip_front.simps) (simp add: go_spaces_def)

lemma fields_space [simp]: "Go_Strings.fields (CHR 0x20 # s) = Go_Strings.fields s"
  by (subst (1 2) Go_Strings.fields.simps) (simp add: trim_left_space)

lemma until_space_word:
  "list_all (\<lambda>c. \<not> space_head c) w \<Longrightarrow> until_space (w @ CHR 0x20 # r) = (w, CHR 0x20 # r)"
  "list_all (\<lambda>c. \<not> space_head c) w \<Longrightarrow> until_space w = (w, [])"
proof (induction w)
  case Nil
  { case 1 then show ?case by (simp add: go_spaces_def) }
  { case 2 then show ?case by simp }
next
  case (Cons c w)
  have no: "\<not> has_prefix (c # t) p" if p: "p \<in> set go_spaces" and c: "\<not> space_head c" for p t
  proof -
    obtain d q where "p = d # q"
      using go_spaces_nonempty [OF p] by (cases p) simp_all
    moreover from this have "d \<noteq> c"
      using p c by (force simp: space_head_def)
    ultimately show ?thesis by simp
  qed
  { case 1 then show ?case using Cons.IH(1) no by auto }
  { case 2 then show ?case using Cons.IH(2) no by auto }
qed

lemma fields_word:
  assumes "w \<noteq> []" and "list_all (\<lambda>c. \<not> space_head c) w"
  shows "Go_Strings.fields (w @ CHR 0x20 # r) = w # Go_Strings.fields r" and "Go_Strings.fields w = [w]"
proof -
  obtain c cs where w: "w = c # cs"
    using assms(1) by (cases w) simp_all
  then have t: "trim_left (w @ t) = w @ t" for t
    using assms(2) by (simp add: trim_left_Cons)
  show "Go_Strings.fields (w @ CHR 0x20 # r) = w # Go_Strings.fields r"
    using t [of "CHR 0x20 # r"] until_space_word(1) [of cs r] assms(2)
    by (subst Go_Strings.fields.simps) (simp add: w)
  have "Go_Strings.fields [] = []"
    by (subst Go_Strings.fields.simps) (simp add: trim_left_def)
  then show "Go_Strings.fields w = [w]"
    using t [of "[]"] until_space_word(2) [of cs] assms(2)
    by (subst Go_Strings.fields.simps) (simp add: w)
qed

section \<open>Properties\<close>

lemma digits_no_space: "digits w \<Longrightarrow> list_all (\<lambda>c. \<not> space_head c \<and> \<not> space_last c \<and> c \<noteq> CHR 0x0A) w"
proof -
  assume w: "digits w"
  let ?P = "\<lambda>c. \<not> space_head c \<and> \<not> space_last c \<and> c \<noteq> CHR 0x0A"
  have all: "list_all ?P ''0123456789''"
    by code_simp
  have "?P c" if "c \<in> set w" for c
  proof -
    have "digit_val c \<noteq> None"
      using w that unfolding list_all_iff by blast
    from all [unfolded list_all_iff, rule_format, OF digit_chars [OF this]] show ?thesis .
  qed
  then show ?thesis
    by (simp only: list_all_iff) blast
qed

lemma letter_no_space:
  "list_all (\<lambda>c. \<not> space_head c \<and> \<not> space_last c \<and> c \<noteq> CHR 0x0A) ''GkB%:MemTotal''"
  by code_simp

lemma trim_suffix_snoc: "trim_suffix (w @ [c]) [c] = w"
  by (simp add: trim_suffix_def trim_prefix_def has_prefix_def)

lemma df_number:
  assumes "n < 2 ^ 52"
  shows "\<exists>f. snd (parse_float (trim_suffix (show_nat n @ ''G'') ''G'')) = f \<and> float_nat f = Some n"
  using parse_integer [OF assms] by (auto simp: trim_suffix_snoc)

text \<open>Reading what df prints: of a header line and a line of three sizes in gigabytes and a
  percentage the parser gives exactly these numbers, without rounding up to two to the 52, and the
  percentage as it stands.\<close>

theorem df_output_exact:
  assumes "header \<noteq> []" and "trimmed header" and "CHR 0x0A \<notin> set header"
    and "total_gb < 2 ^ 52" and "used < 2 ^ 52" and "avail < 2 ^ 52" and "pc \<le> max_uint64"
  shows "\<exists>d. parse_df_output (header @ [CHR 0x0A] @ show_nat total_gb @ ''G '' @ show_nat used @ ''G '' @
      show_nat avail @ ''G '' @ show_nat pc @ ''%'') = Inr d \<and>
    float_nat (du_total_gb d) = Some total_gb \<and> float_nat (du_used_gb d) = Some used \<and>
    float_nat (du_available_gb d) = Some avail \<and> du_used_percent d = show_nat pc @ ''%''"
proof -
  let ?line = "show_nat total_gb @ ''G '' @ show_nat used @ ''G '' @ show_nat avail @ ''G '' @ show_nat pc @ ''%''"
  have small: "n \<le> max_uint64" if "n < 2 ^ 52" for n
    using that by (simp add: max_uint64_def)
  have plain: "list_all (\<lambda>c. \<not> space_head c \<and> \<not> space_last c \<and> c \<noteq> CHR 0x0A) (show_nat n)"
    if "n \<le> max_uint64" for n
    using digits_no_space show_nat_read [OF that] by blast
  note p = plain [OF small [OF assms(4)]] plain [OF small [OF assms(5)]] plain [OF small [OF assms(6)]]
    plain [OF assms(7)]
  have "CHR 0x0A \<notin> set ?line"
    using p by (auto simp: list_all_iff)
  then have split: "go_split [CHR 0x0A] (header @ [CHR 0x0A] @ ?line) = [header, ?line]"
    using assms(3) by (simp add: go_split_byte_Some go_split_byte_None)
  have pct: "\<not> space_last (CHR ''%'')"
    using letter_no_space by simp
  have trim: "trim_space (header @ [CHR 0x0A] @ ?line) = header @ [CHR 0x0A] @ ?line"
  proof (rule trim_space_trimmed)
    have "last (header @ [CHR 0x0A] @ ?line) = CHR ''%''"
      by simp
    then show "trimmed (header @ [CHR 0x0A] @ ?line)"
      using assms(1,2) pct by (simp add: trimmed_def)
  qed
  have word: "list_all (\<lambda>c. \<not> space_head c) (show_nat n @ ''G'')" "list_all (\<lambda>c. \<not> space_head c) (show_nat n @ ''%'')"
    if "n \<le> max_uint64" for n
    using plain [OF that] letter_no_space by (auto simp: list_all_iff)
  have "Go_Strings.fields ?line = [show_nat total_gb @ ''G'', show_nat used @ ''G'', show_nat avail @ ''G'', show_nat pc @ ''%'']"
    using fields_word(1) [OF _ word(1) [OF small [OF assms(4)]]] fields_word(1) [OF _ word(1) [OF small [OF assms(5)]]]
      fields_word(1) [OF _ word(1) [OF small [OF assms(6)]]] fields_word(2) [OF _ word(2) [OF assms(7)]]
    by simp
  moreover have "trim_space (show_nat pc @ ''%'') = show_nat pc @ ''%''"
  proof (rule trim_space_trimmed)
    show "trimmed (show_nat pc @ ''%'')"
      using p(4) pct by (cases "show_nat pc") (auto simp: trimmed_def)
  qed
  ultimately show ?thesis
    using df_number [OF assms(4)] df_number [OF assms(5)] df_number [OF assms(6)]
    unfolding parse_df_output_def trim split by (simp add: Let_def)
qed

theorem df_output_exact_witness:
  "\<exists>d. parse_df_output (''1G-blocks'' @ [CHR 0x0A] @ show_nat 916 @ ''G '' @ show_nat 300 @ ''G '' @
      show_nat 570 @ ''G '' @ show_nat 35 @ ''%'') = Inr d \<and> float_nat (du_used_gb d) = Some 300"
proof -
  have "trimmed ''1G-blocks''"
    by code_simp
  then show ?thesis
    using df_output_exact [of "''1G-blocks''" 916 300 570 35] by (auto simp: max_uint64_def)
qed

lemma mem_line:
  assumes "kb \<le> max_uint64" and "0 < k"
  shows "mem_total_loop ((''MemTotal:'' @ replicate k (CHR 0x20) @ show_nat kb @ '' kB'') # ls) =
    word_of_nat kb div 1024"
proof -
  obtain j where k: "k = Suc j"
    using assms(2) by (cases k) simp_all
  have sp: "Go_Strings.fields (replicate j (CHR 0x20) @ s) = Go_Strings.fields s" for s
    by (induction j) simp_all
  have "list_all (\<lambda>c. \<not> space_head c) (show_nat kb)"
    using digits_no_space show_nat_read [OF assms(1)] by (auto simp: list_all_iff)
  then have "Go_Strings.fields (show_nat kb @ CHR 0x20 # ''kB'') = show_nat kb # Go_Strings.fields ''kB''"
    by (intro fields_word) simp_all
  moreover have "list_all (\<lambda>c. \<not> space_head c) ''MemTotal:''"
    using letter_no_space by (auto simp: list_all_iff)
  then have "Go_Strings.fields (''MemTotal:'' @ CHR 0x20 # s) = ''MemTotal:'' # Go_Strings.fields s" for s
    by (intro fields_word) simp_all
  ultimately have f: "Go_Strings.fields (''MemTotal:'' @ replicate k (CHR 0x20) @ show_nat kb @ '' kB'') =
      ''MemTotal:'' # show_nat kb # Go_Strings.fields ''kB''"
    using sp [of "show_nat kb @ '' kB''"] by (simp add: k)
  have "parse_uint (show_nat kb) = Inr (word_of_nat kb)"
    by (simp add: parse_uint_def parse_digits_show_nat [OF assms(1)])
  then show ?thesis
    unfolding mem_total_loop.simps f by (simp add: has_prefix_append [of "''MemTotal:''", simplified])
qed

lemma mem_total_skip:
  "list_all (\<lambda>l. \<not> has_prefix l ''MemTotal:'') ls \<Longrightarrow> mem_total_loop (ls @ ls') = mem_total_loop ls'"
  by (induction ls) auto

lemma cpu_model_skip:
  "list_all (\<lambda>l. \<not> has_prefix l ''model name'') ls \<Longrightarrow> cpu_model_loop (ls @ ls') = cpu_model_loop ls'"
  by (induction ls) auto

lemma cpu_model_line:
  "CHR '':'' \<notin> set pad \<Longrightarrow> cpu_model_loop ((''model name'' @ pad @ '':'' @ name) # ls) = trim_space name"
  using cut_byte_Some [of "CHR '':''" "''model name'' @ pad" name]
  by (simp add: split_n2_def)

text \<open>A \<open>cpuinfo\<close> whose first CPU has this name, and a \<open>meminfo\<close> with this total in kibibytes.\<close>

definition names_cpu :: "string \<Rightarrow> string \<Rightarrow> bool" where
  "names_cpu data name \<longleftrightarrow>
     (\<exists>ls1 pad ls2. data = go_join [CHR 0x0A] (ls1 @ (''model name'' @ pad @ '':'' @ name) # ls2) \<and>
        (\<forall>l \<in> set ls1. \<not> has_prefix l ''model name'') \<and> CHR '':'' \<notin> set pad \<and>
        (\<forall>l \<in> set (ls1 @ (''model name'' @ pad @ '':'' @ name) # ls2). CHR 0x0A \<notin> set l))"

definition totals_kb :: "string \<Rightarrow> nat \<Rightarrow> bool" where
  "totals_kb data kb \<longleftrightarrow>
     (\<exists>ls1 k ls2. data = go_join [CHR 0x0A]
          (ls1 @ (''MemTotal:'' @ replicate k (CHR 0x20) @ show_nat kb @ '' kB'') # ls2) \<and>
        (\<forall>l \<in> set ls1. \<not> has_prefix l ''MemTotal:'') \<and> 0 < k \<and> kb \<le> max_uint64 \<and>
        (\<forall>l \<in> set (ls1 @ ls2). CHR 0x0A \<notin> set l))"

definition lacks :: "string \<Rightarrow> string \<Rightarrow> bool" where
  "lacks data key \<longleftrightarrow> list_all (\<lambda>l. \<not> has_prefix l key) (go_split [CHR 0x0A] data)"

lemma parse_cpu_model_named:
  assumes "names_cpu data name"
  shows "parse_cpu_model data = trim_space name"
proof -
  obtain ls1 pad ls2 where d: "data = go_join [CHR 0x0A] (ls1 @ (''model name'' @ pad @ '':'' @ name) # ls2)"
    "\<forall>l \<in> set ls1. \<not> has_prefix l ''model name''" "CHR '':'' \<notin> set pad"
    "\<forall>l \<in> set (ls1 @ (''model name'' @ pad @ '':'' @ name) # ls2). CHR 0x0A \<notin> set l"
    using assms unfolding names_cpu_def by blast
  show ?thesis
    unfolding parse_cpu_model_def d(1)
    using d(2-4) by (simp add: go_split_byte_join cpu_model_skip cpu_model_line [simplified] list_all_iff)
qed

lemma parse_mem_total_kb:
  assumes "totals_kb data kb"
  shows "unat (parse_mem_total data) = kb div 1024"
proof -
  obtain ls1 k ls2 where d: "data = go_join [CHR 0x0A]
      (ls1 @ (''MemTotal:'' @ replicate k (CHR 0x20) @ show_nat kb @ '' kB'') # ls2)"
    "\<forall>l \<in> set ls1. \<not> has_prefix l ''MemTotal:''" "0 < k" "kb \<le> max_uint64"
    "\<forall>l \<in> set (ls1 @ ls2). CHR 0x0A \<notin> set l"
    using assms unfolding totals_kb_def by blast
  let ?l = "''MemTotal:'' @ replicate k (CHR 0x20) @ show_nat kb @ '' kB''"
  have "CHR 0x0A \<notin> set (show_nat kb)"
    using digits_no_space show_nat_read [OF d(4)] by (auto simp: list_all_iff)
  then have "\<forall>l \<in> set (ls1 @ ?l # ls2). CHR 0x0A \<notin> set l"
    using d(5) by auto
  then have "parse_mem_total data = word_of_nat kb div 1024"
    unfolding parse_mem_total_def d(1) using d(2) mem_line [OF d(4,3)]
    by (subst go_split_byte_join) (auto simp: mem_total_skip list_all_iff)
  then show ?thesis
    using d(4) by (simp add: unat_div unat_of_nat max_uint64_def)
qed

lemma parse_lacking:
  "lacks data ''model name'' \<Longrightarrow> parse_cpu_model data = []"
  "lacks data ''MemTotal:'' \<Longrightarrow> parse_mem_total data = 0"
  using cpu_model_skip [of "go_split [CHR 0x0A] data" "[]"] mem_total_skip [of "go_split [CHR 0x0A] data" "[]"]
  by (simp_all add: lacks_def parse_cpu_model_def parse_mem_total_def)

text \<open>C38. On Linux each field of the host's description comes from its own source, whatever the other
  sources do: the kernel is what \<open>uname\<close> prints and empty where \<open>uname\<close> fails; the CPU model is the
  first one \<open>/proc/cpuinfo\<close> names and empty where the file can't be read or names none; the memory is
  the total of \<open>/proc/meminfo\<close> in mebibytes and zero where the file can't be read or gives none.\<close>

theorem collect_linux:
  assumes "ho_goos h = ''linux''"
  shows "si_hostname (collect h) = ho_hostname h \<and> si_os (collect h) = ''linux'' \<and>
    si_arch (collect h) = ho_goarch h \<and> si_cpu_cores (collect h) = ho_num_cpu h \<and>
    si_kernel (collect h) = (case ho_run h ''uname'' [''-r''] of Inl _ \<Rightarrow> [] | Inr out \<Rightarrow> trim_space out) \<and>
    (case ho_read_file h ''/proc/cpuinfo'' of
       None \<Rightarrow> si_cpu_model (collect h) = []
     | Some data \<Rightarrow> (lacks data ''model name'' \<longrightarrow> si_cpu_model (collect h) = []) \<and>
         (\<forall>name. names_cpu data name \<longrightarrow> si_cpu_model (collect h) = trim_space name)) \<and>
    (case ho_read_file h ''/proc/meminfo'' of
       None \<Rightarrow> si_memory_mb (collect h) = 0
     | Some data \<Rightarrow> (lacks data ''MemTotal:'' \<longrightarrow> si_memory_mb (collect h) = 0) \<and>
         (\<forall>kb. totals_kb data kb \<longrightarrow> unat (si_memory_mb (collect h)) = kb div 1024))"
  using assms
  by (auto simp: collect_def Let_def parse_cpu_model_named parse_mem_total_kb parse_lacking
      split: sum.split option.split)

text \<open>A host whose \<open>uname\<close> fails, whose memory is known and whose CPU is not.\<close>

definition sample_host :: host where
  "sample_host =
     \<lparr>ho_hostname = ''gpu1'', ho_goos = ''linux'', ho_goarch = ''amd64'', ho_num_cpu = 64,
      ho_read_file = (\<lambda>p.
        if p = ''/proc/meminfo'' then
          Some (go_join [CHR 0x0A] ([] @ (''MemTotal:'' @ replicate 7 (CHR 0x20) @ show_nat 32657552 @ '' kB'') # [''MemFree: 1 kB'']))
        else None),
      ho_run = (\<lambda>c args. Inl ''not found'')\<rparr>"

theorem collect_linux_witness:
  "si_cpu_model (collect sample_host) = [] \<and> unat (si_memory_mb (collect sample_host)) = 31892 \<and>
   si_kernel (collect sample_host) = []"
proof -
  let ?data = "go_join [CHR 0x0A] ([] @ (''MemTotal:'' @ replicate 7 (CHR 0x20) @ show_nat 32657552 @ '' kB'') # [''MemFree: 1 kB''])"
  have "totals_kb ?data 32657552"
    unfolding totals_kb_def
    by (rule exI [of _ "[]"], rule exI [of _ 7], rule exI [of _ "[''MemFree: 1 kB'']"]) (simp add: max_uint64_def)
  moreover have "ho_read_file sample_host ''/proc/meminfo'' = Some ?data"
    "ho_read_file sample_host ''/proc/cpuinfo'' = None" "ho_run sample_host c args = Inl ''not found''" for c args
    by (simp_all add: sample_host_def)
  ultimately show ?thesis
    using collect_linux [of sample_host] by (auto simp: sample_host_def)
qed

end
