(* ===== verification/Http.thy ===== *)
theory Http
  imports Go_Json
begin

text \<open>
  HTTP as the handlers see it: a request, the response that \<open>net/http\<close> builds from the calls on its
  \<open>ResponseWriter\<close>, the interface of such writers, and the three middlewares of
  \<open>internal/api/middleware\<close>.  A writer is a dictionary of the methods of \<open>http.ResponseWriter\<close> with
  the optional method of \<open>http.Flusher\<close>; the type assertion \<open>w.(http.Flusher)\<close> asks whether it is
  there.  The locale \<open>http_writer\<close> states what every writer of the program promises, and the two
  writers are its interpretations.
\<close>

section \<open>Requests and responses\<close>

text \<open>
  Headers are keyed by their canonical names; a body is the bytes that arrive.  The path is
  \<open>URL.Path\<close>; requests for which \<open>net/url\<close> also sets \<open>RawPath\<close>, by which chi would route, are not in the
  model: their paths hold an escape that is not the default one, such as \<open>%2F\<close>.
\<close>

record request =
  hr_method :: string
  hr_path :: string
  hr_headers :: "(string, string) gomap"
  hr_body :: string

definition header_get :: "request \<Rightarrow> string \<Rightarrow> string" where
  "header_get r k = (case gm_get (hr_headers r) k of None \<Rightarrow> [] | Some v \<Rightarrow> v)"

text \<open>
  A response: the header map, the status line with the headers as they were sent with it, the body,
  how much of it was flushed, and how many more writes the connection takes before it is lost.
\<close>

record response =
  rs_header :: "(string, string) gomap"
  rs_sent :: "(nat \<times> (string, string) gomap) option"
  rs_body :: string
  rs_flushed :: nat
  rs_left :: "nat option"

definition set_header :: "string \<Rightarrow> string \<Rightarrow> response \<Rightarrow> response" where
  "set_header k v r = r\<lparr>rs_header := gm_set k v (rs_header r)\<rparr>"

text \<open>\<open>WriteHeader\<close>: the first call counts, a later one is only logged.\<close>

definition send_header :: "nat \<Rightarrow> response \<Rightarrow> response" where
  "send_header code r =
     (case rs_sent r of
        None \<Rightarrow> r\<lparr>rs_sent := Some (code, rs_header r)\<rparr>
      | Some _ \<Rightarrow> r)"

definition sent_status :: "response \<Rightarrow> nat" where
  "sent_status r = (case rs_sent r of None \<Rightarrow> 200 | Some (code, h) \<Rightarrow> code)"

definition body_allowed :: "nat \<Rightarrow> bool" where
  "body_allowed code \<longleftrightarrow> 200 \<le> code \<and> code \<noteq> 204 \<and> code \<noteq> 304"

definition write_body :: "string \<Rightarrow> response \<Rightarrow> (string, unit) result \<times> response" where
  "write_body s r =
     (let r1 = send_header 200 r in
      if \<not> body_allowed (sent_status r1) then
        (Inl ''http: request method or response status code does not allow body'', r1)
      else case rs_left r1 of
        None \<Rightarrow> (Inr (), r1\<lparr>rs_body := rs_body r1 @ s\<rparr>)
      | Some n \<Rightarrow>
          (if n = 0 then (Inl ''write: broken pipe'', r1)
           else (Inr (), r1\<lparr>rs_body := rs_body r1 @ s, rs_left := Some (n - 1)\<rparr>)))"

definition flush_body :: "response \<Rightarrow> response" where
  "flush_body r = (let r1 = send_header 200 r in r1\<lparr>rs_flushed := length (rs_body r1)\<rparr>)"

definition new_response :: "nat option \<Rightarrow> response" where
  "new_response left = \<lparr>rs_header = [], rs_sent = None, rs_body = [], rs_flushed = 0, rs_left = left\<rparr>"

text \<open>What the client got: a handler that wrote nothing leaves an empty response with status 200.\<close>

definition finish_response :: "response \<Rightarrow> response" where
  "finish_response r = flush_body r"

section \<open>Writers\<close>

record 'w writer =
  w_set :: "string \<Rightarrow> string \<Rightarrow> 'w \<Rightarrow> 'w"
  w_code :: "nat \<Rightarrow> 'w \<Rightarrow> 'w"
  w_write :: "string \<Rightarrow> 'w \<Rightarrow> (string, unit) result \<times> 'w"
  w_flush :: "('w \<Rightarrow> 'w) option"

text \<open>The writer of \<open>net/http\<close>, which can flush.\<close>

definition server_writer :: "response writer" where
  "server_writer =
     \<lparr>w_set = set_header, w_code = send_header, w_write = write_body, w_flush = Some flush_body\<rparr>"

text \<open>The \<open>responseWriter\<close> of the logging middleware, which wraps any writer and always has \<open>Flush\<close>.\<close>

record 'w logged =
  lw_inner :: 'w
  lw_status :: nat

definition logged_code :: "'w writer \<Rightarrow> nat \<Rightarrow> 'w logged \<Rightarrow> 'w logged" where
  "logged_code ops code rw = rw\<lparr>lw_status := code, lw_inner := w_code ops code (lw_inner rw)\<rparr>"

definition logged_flush :: "'w writer \<Rightarrow> 'w logged \<Rightarrow> 'w logged" where
  "logged_flush ops rw =
     (case w_flush ops of
        None \<Rightarrow> rw
      | Some f \<Rightarrow> rw\<lparr>lw_inner := f (lw_inner rw)\<rparr>)"

definition logged_writer :: "'w writer \<Rightarrow> 'w logged writer" where
  "logged_writer ops =
     \<lparr>w_set = \<lambda>k v rw. rw\<lparr>lw_inner := w_set ops k v (lw_inner rw)\<rparr>,
      w_code = logged_code ops,
      w_write = \<lambda>s rw. (case w_write ops s (lw_inner rw) of (e, i) \<Rightarrow> (e, rw\<lparr>lw_inner := i\<rparr>)),
      w_flush = Some (logged_flush ops)\<rparr>"

text \<open>What every writer promises: its calls do to the response behind it what \<open>net/http\<close> does.\<close>

locale http_writer =
  fixes ops :: "'w writer" and resp :: "'w \<Rightarrow> response"
  assumes set_resp: "resp (w_set ops k v w) = set_header k v (resp w)"
    and code_resp: "resp (w_code ops code w) = send_header code (resp w)"
    and write_resp: "fst (w_write ops s w) = fst (write_body s (resp w))"
      "resp (snd (w_write ops s w)) = snd (write_body s (resp w))"
    and flush_resp: "w_flush ops = Some f \<Longrightarrow> resp (f w) = flush_body (resp w)"

lemma server_writer_sel [simp]:
  "w_set server_writer = set_header" "w_code server_writer = send_header"
  "w_write server_writer = write_body" "w_flush server_writer = Some flush_body"
  by (simp_all add: server_writer_def)

interpretation server: http_writer server_writer "\<lambda>r. r"
  by unfold_locales auto

text \<open>A logged writer over a writer that can flush is a writer again.\<close>

locale flushing_writer = http_writer +
  fixes flush :: "'a \<Rightarrow> 'a"
  assumes can_flush: "w_flush ops = Some flush"

context flushing_writer
begin

lemma logged_is_writer: "flushing_writer (logged_writer ops) (\<lambda>rw. resp (lw_inner rw)) (logged_flush ops)"
proof
  show "resp (lw_inner (w_set (logged_writer ops) k v w)) = set_header k v (resp (lw_inner w))" for k v w
    by (simp add: logged_writer_def set_resp)
  show "resp (lw_inner (w_code (logged_writer ops) code w)) = send_header code (resp (lw_inner w))" for code w
    by (simp add: logged_writer_def logged_code_def code_resp)
  show "fst (w_write (logged_writer ops) s w) = fst (write_body s (resp (lw_inner w)))" for s w
    by (simp add: logged_writer_def write_resp(1) [symmetric] split: prod.split)
  show "resp (lw_inner (snd (w_write (logged_writer ops) s w))) = snd (write_body s (resp (lw_inner w)))" for s w
    by (simp add: logged_writer_def write_resp(2) [symmetric] split: prod.split)
  show "resp (lw_inner (f w)) = flush_body (resp (lw_inner w))" if "w_flush (logged_writer ops) = Some f" for f w
    using that by (auto simp: logged_writer_def logged_flush_def can_flush flush_resp)
  show "w_flush (logged_writer ops) = Some (logged_flush ops)"
    by (simp add: logged_writer_def)
qed

end

interpretation served: flushing_writer server_writer "\<lambda>r. r" flush_body
  by unfold_locales auto

interpretation logged: flushing_writer "logged_writer server_writer" "lw_inner" "logged_flush server_writer"
  by (rule served.logged_is_writer)

section \<open>Answers\<close>

text \<open>\<open>json.NewEncoder(w).Encode\<close>: one write of the value and a line feed.\<close>

definition encode :: "'w writer \<Rightarrow> json \<Rightarrow> 'w \<Rightarrow> (string, unit) result \<times> 'w" where
  "encode ops j w = w_write ops (json_marshal j @ [CHR 0x0A]) w"

definition error_json :: "string \<Rightarrow> json" where
  "error_json msg = JObj [(''error'', JStr msg)]"

text \<open>\<open>writeError\<close> of the handlers, and the same lines in the middlewares.\<close>

definition write_error :: "'w writer \<Rightarrow> nat \<Rightarrow> string \<Rightarrow> 'w \<Rightarrow> 'w" where
  "write_error ops code msg w =
     snd (encode ops (error_json msg) (w_code ops code (w_set ops ''Content-Type'' ''application/json'' w)))"

text \<open>The header and the value with which a handler answers; an error of \<open>Encode\<close> is only logged.\<close>

definition send_json :: "'w writer \<Rightarrow> json \<Rightarrow> 'w \<Rightarrow> 'w" where
  "send_json ops j w = snd (encode ops j (w_set ops ''Content-Type'' ''application/json'' w))"

definition json_response :: "nat \<Rightarrow> json \<Rightarrow> response \<Rightarrow> response" where
  "json_response code j r =
     snd (write_body (json_marshal j @ [CHR 0x0A]) (send_header code (set_header ''Content-Type'' ''application/json'' r)))"

lemma write_sends: "snd (write_body s (send_header 200 r)) = snd (write_body s r)"
  by (simp add: write_body_def send_header_def Let_def split: option.splits)

context http_writer
begin

lemma encode_resp: "resp (snd (encode ops j w)) = snd (write_body (json_marshal j @ [CHR 0x0A]) (resp w))"
  by (simp add: encode_def write_resp)

lemma write_error_resp: "resp (write_error ops code msg w) = json_response code (error_json msg) (resp w)"
  by (simp add: write_error_def json_response_def encode_resp code_resp set_resp)

lemma send_json_resp: "resp (send_json ops j w) = json_response 200 j (resp w)"
  by (simp add: send_json_def json_response_def encode_resp set_resp write_sends)

end

section \<open>Authentication\<close>

definition write_auth_error :: "'w writer \<Rightarrow> string \<Rightarrow> 'w \<Rightarrow> 'w" where
  "write_auth_error ops msg w = write_error ops 401 msg w"

type_synonym ('w, 's) handler = "request \<Rightarrow> 's \<Rightarrow> 'w \<Rightarrow> 's \<times> 'w"

definition auth :: "string \<Rightarrow> string list \<Rightarrow> 'w writer \<Rightarrow> ('w, 's) handler \<Rightarrow> ('w, 's) handler" where
  "auth token skip ops next req s w =
     (if hr_path req \<in> set skip then next req s w
      else if header_get req ''Authorization'' = [] then
        (s, write_auth_error ops ''missing authorization header'' w)
      else case split_n2 '' '' (header_get req ''Authorization'') of
        [scheme, credentials] \<Rightarrow>
          (if equal_fold scheme ''Bearer'' \<and> credentials = token then next req s w
           else (s, write_auth_error ops ''unauthorized'' w))
      | _ \<Rightarrow> (s, write_auth_error ops ''unauthorized'' w))"

section \<open>Logging and recovery\<close>

text \<open>A handler that may panic.\<close>

datatype 'a outcome = Returned 'a | Panicked string 'a

type_synonym ('w, 's) may_panic = "request \<Rightarrow> 's \<Rightarrow> 'w \<Rightarrow> ('s \<times> 'w) outcome"

text \<open>What the middlewares write to the log: the method, the path and the status, or the panic.\<close>

datatype log_line = RequestLine string string nat | PanicLine string string string

definition logging ::
  "'w writer \<Rightarrow> ('w logged, 's) may_panic \<Rightarrow> request \<Rightarrow> 's \<times> log_line list \<Rightarrow> 'w \<Rightarrow>
     (('s \<times> log_line list) \<times> 'w) outcome" where
  "logging ops next req sl w =
     (case next req (fst sl) \<lparr>lw_inner = w, lw_status = 200\<rparr> of
        Returned (s', rw) \<Rightarrow>
          Returned ((s', snd sl @ [RequestLine (hr_method req) (hr_path req) (lw_status rw)]), lw_inner rw)
      | Panicked e (s', rw) \<Rightarrow> Panicked e ((s', snd sl), lw_inner rw))"

definition recovery ::
  "'w writer \<Rightarrow> ('w, 's \<times> log_line list) may_panic \<Rightarrow> ('w, 's \<times> log_line list) handler" where
  "recovery ops next req sl w =
     (case next req sl w of
        Returned r \<Rightarrow> r
      | Panicked e ((s', l), w') \<Rightarrow>
          ((s', l @ [PanicLine e (hr_method req) (hr_path req)]),
           write_error ops 500 ''internal server error'' w'))"

end
