(* ===== verification/Go_Quote.thy ===== *)
theory Go_Quote
  imports Go_Json
begin

text \<open>
  The verb \<open>%q\<close> of \<open>fmt\<close> (\<open>strconv.Quote\<close>), with which the handlers print device names and errors.
  Which runes beyond ASCII are printable is a table of the \<open>unicode\<close> package and a parameter here.
  What the handlers rely on is that quoted text is one line without control characters.
\<close>

definition quote_ascii :: "char \<Rightarrow> string" where
  "quote_ascii c =
     (if c = CHR 0x22 \<or> c = CHR 0x5C then [CHR 0x5C, c]
      else if byte_in 32 126 c then [c]
      else if c = CHR 0x07 then [CHR 0x5C, CHR ''a'']
      else if c = CHR 0x08 then [CHR 0x5C, CHR ''b'']
      else if c = CHR 0x0C then [CHR 0x5C, CHR ''f'']
      else if c = CHR 0x0A then [CHR 0x5C, CHR ''n'']
      else if c = CHR 0x0D then [CHR 0x5C, CHR ''r'']
      else if c = CHR 0x09 then [CHR 0x5C, CHR ''t'']
      else if c = CHR 0x0B then [CHR 0x5C, CHR ''v'']
      else [CHR 0x5C, CHR ''x'', hex_digit (of_char c div 16), hex_digit (of_char c mod 16)])"

definition quote_byte :: "char \<Rightarrow> string" where
  "quote_byte c = [CHR 0x5C, CHR ''x'', hex_digit (of_char c div 16), hex_digit (of_char c mod 16)]"

text \<open>The \<open>n\<close> last hexadecimal digits of a number.\<close>

fun hex_digits :: "nat \<Rightarrow> nat \<Rightarrow> string" where
  "hex_digits 0 r = []"
| "hex_digits (Suc n) r = hex_digits n (r div 16) @ [hex_digit (r mod 16)]"

definition quote_rune :: "nat \<Rightarrow> string" where
  "quote_rune r =
     (if r < 65536 then CHR 0x5C # CHR ''u'' # hex_digits 4 r
      else CHR 0x5C # CHR ''U'' # hex_digits 8 r)"

function quote_loop :: "(nat \<Rightarrow> bool) \<Rightarrow> string \<Rightarrow> string" where
  "quote_loop printable s =
     (case s of
        [] \<Rightarrow> []
      | c # cs \<Rightarrow>
          if byte_in 0 127 c then quote_ascii c @ quote_loop printable cs
          else case decode_rune s of
            None \<Rightarrow> quote_byte c @ quote_loop printable cs
          | Some (r, width) \<Rightarrow>
              (if printable r then take width s else quote_rune r) @
              quote_loop printable (drop (width - 1) cs))"
  by pat_completeness auto
termination
  by (relation "measure (\<lambda>(pr, s). length s)") auto

declare quote_loop.simps [simp del]

definition go_quote :: "(nat \<Rightarrow> bool) \<Rightarrow> string \<Rightarrow> string" where
  "go_quote printable s = CHR 0x22 # quote_loop printable s @ [CHR 0x22]"

section \<open>Quoted text is one line\<close>

text \<open>No control character of ASCII.\<close>

definition one_line :: "string \<Rightarrow> bool" where
  "one_line s \<longleftrightarrow> (\<forall>c \<in> set s. (32 :: nat) \<le> of_char c)"

lemma one_line_append [simp]: "one_line (s @ t) \<longleftrightarrow> one_line s \<and> one_line t"
  by (auto simp: one_line_def)

lemma one_line_Cons [simp]: "one_line (c # s) \<longleftrightarrow> (32 :: nat) \<le> of_char c \<and> one_line s"
  by (auto simp: one_line_def)

lemma one_line_Nil [simp]: "one_line []"
  by (simp add: one_line_def)

lemma one_line_no_lf: "one_line s \<Longrightarrow> CHR 0x0A \<notin> set s"
  by (auto simp: one_line_def)

lemma hex_digit_printable [simp]: "n < 16 \<Longrightarrow> (32 :: nat) \<le> of_char (hex_digit n)"
  by (simp add: hex_digit_def)

lemma of_char_div_16 [simp]: "(of_char (c :: char) :: nat) div 16 < 16"
proof -
  have "(of_char c :: nat) < 256"
    using nat_of_char_less_256 by blast
  then show ?thesis by (simp add: less_mult_imp_div_less)
qed

lemma one_line_hex: "one_line (hex_digits n r)"
  by (induction n arbitrary: r) auto

lemma one_line_ascii: "one_line (quote_ascii c)"
  by (auto simp: quote_ascii_def byte_in_def)

lemma one_line_byte: "one_line (quote_byte c)"
  by (simp add: quote_byte_def)

lemma one_line_rune: "one_line (quote_rune r)"
  by (simp add: quote_rune_def one_line_hex)

lemma one_line_decoded:
  assumes "decode_rune s = Some (r, width)" and "\<not> byte_in 0 127 (hd s)"
  shows "one_line (take width s)"
  using assms
  by (auto simp: decode_rune_def byte_in_def second3_def second4_def split: list.splits if_splits)

lemma one_line_loop: "one_line (quote_loop pr s)"
proof (induction pr s rule: quote_loop.induct)
  case (1 pr s)
  show ?case
  proof (cases s)
    case Nil
    then show ?thesis by (simp add: quote_loop.simps [of pr "[]"])
  next
    case (Cons c cs)
    then show ?thesis
      using 1 one_line_decoded [of s]
      by (auto simp: quote_loop.simps [of pr "c # cs"] one_line_ascii one_line_byte one_line_rune
          simp del: take_Cons take_Cons' split: option.split)
  qed
qed

lemma one_line_quote: "one_line (go_quote pr s)"
  by (simp add: go_quote_def one_line_loop)

text \<open>Printable ASCII without quotes and backslashes stands as it is.\<close>

definition plain :: "string \<Rightarrow> bool" where
  "plain s \<longleftrightarrow> (\<forall>c \<in> set s. byte_in 32 126 c \<and> c \<noteq> CHR 0x22 \<and> c \<noteq> CHR 0x5C)"

lemma quote_plain: "plain s \<Longrightarrow> go_quote pr s = CHR 0x22 # s @ [CHR 0x22]"
proof -
  have "plain s \<Longrightarrow> quote_loop pr s = s"
  proof (induction s)
    case Nil
    then show ?case by (simp add: quote_loop.simps [of pr "[]"])
  next
    case (Cons c cs)
    then have "byte_in 0 127 c" and "quote_ascii c = [c]" and "plain cs"
      by (auto simp: plain_def byte_in_def quote_ascii_def)
    then show ?case
      using Cons.IH by (simp add: quote_loop.simps [of pr "c # cs"])
  qed
  then show "plain s \<Longrightarrow> go_quote pr s = CHR 0x22 # s @ [CHR 0x22]"
    by (simp add: go_quote_def)
qed

end
