(* ===== verification/Go_Compact.thy ===== *)
theory Go_Compact
  imports Go_Quote
begin

text \<open>
  \<open>json.Compact\<close> as \<open>Encode\<close> applies it to a \<open>RawMessage\<close>: white space between the tokens goes, and the
  characters that HTML gives a meaning are escaped.  Compacting a valid text gives one line, and so
  does marshalling, which is what keeps the frames of an event stream apart.  The raw text of a
  member, which a \<open>RawMessage\<close> field of a request keeps, is at the end.
\<close>

function compact :: "bool \<Rightarrow> string \<Rightarrow> string" where
  "compact in_string [] = []"
| "compact False (c # s) = (if is_ws c then compact False s else c # compact (c = CHR 0x22) s)"
| "compact True (c # s) =
     (if c = CHR 0x5C then (case s of [] \<Rightarrow> [c] | d # r \<Rightarrow> c # d # compact True r)
      else if c = CHR 0x22 then c # compact False s
      else if c = CHR ''<'' \<or> c = CHR ''>'' \<or> c = CHR ''&'' then esc_char c @ compact True s
      else if has_prefix (c # s) [CHR 0xE2, CHR 0x80, CHR 0xA8] then CHR 0x5C # ''u2028'' @ compact True (drop 2 s)
      else if has_prefix (c # s) [CHR 0xE2, CHR 0x80, CHR 0xA9] then CHR 0x5C # ''u2029'' @ compact True (drop 2 s)
      else c # compact True s)"
  by pat_completeness auto
termination
  by (relation "measure (\<lambda>(b, s). length s)") auto

section \<open>Compacted text is one line\<close>

text \<open>Compacting \<open>s\<close> prints one line and goes on at \<open>r\<close>.\<close>

definition eats :: "bool \<Rightarrow> string \<Rightarrow> bool \<Rightarrow> string \<Rightarrow> bool" where
  "eats q s q' r \<longleftrightarrow> (\<exists>out. one_line out \<and> compact q s = out @ compact q' r)"

lemma eats_refl [simp]: "eats q s q s"
  unfolding eats_def by (rule exI [of _ "[]"]) simp

lemma eats_trans [trans]: "eats q s q' r \<Longrightarrow> eats q' r q'' u \<Longrightarrow> eats q s q'' u"
  unfolding eats_def by (metis append.assoc one_line_append)

lemma eats_out: "one_line out \<Longrightarrow> compact q s = out @ compact q' r \<Longrightarrow> eats q s q' r"
  by (auto simp: eats_def)

lemma eats_skip_ws: "eats False s False (skip_ws s)"
  by (induction s) (auto simp: skip_ws_def eats_def)

lemma eats_next_tok:
  assumes "next_tok s = Some (c, r)" and "(32 :: nat) \<le> of_char c"
  shows "eats False s (c = CHR 0x22) r"
proof -
  have s: "skip_ws s = c # r"
    using assms(1) by (auto simp: next_tok_def split: list.splits)
  have "\<not> is_ws c"
  proof
    assume "is_ws c"
    moreover have "\<not> is_ws (hd (skip_ws s))"
      using s unfolding skip_ws_def by (metis hd_dropWhile list.discI)
    ultimately show False using s by simp
  qed
  then have "eats False (c # r) (c = CHR 0x22) r"
    using assms(2) by (intro eats_out [of "[c]"]) auto
  with eats_skip_ws [of s] show ?thesis
    unfolding s by (rule eats_trans)
qed

lemma eats_plain: "(32 :: nat) \<le> of_char c \<Longrightarrow> c \<noteq> CHR 0x5C \<Longrightarrow> c \<noteq> CHR 0x22 \<Longrightarrow>
    \<not> has_prefix (c # s) [CHR 0xE2, CHR 0x80, CHR 0xA8] \<Longrightarrow> \<not> has_prefix (c # s) [CHR 0xE2, CHR 0x80, CHR 0xA9] \<Longrightarrow>
    eats True (c # s) True s"
  by (rule eats_out [of "if c = CHR ''<'' \<or> c = CHR ''>'' \<or> c = CHR ''&'' then esc_char c else [c]"])
    (auto simp: esc_char_def hex_digit_def)

lemma hex_char: "hex_val x = Some v \<Longrightarrow> (32 :: nat) \<le> of_char x \<and> x \<noteq> CHR 0x5C \<and> x \<noteq> CHR 0x22 \<and> x \<noteq> CHR 0xE2"
  by (auto simp: hex_val_def Let_def split: if_splits)

lemma hex_eats: "hex_val x = Some v \<Longrightarrow> eats True (x # s) True s"
  by (drule hex_char) (simp add: eats_plain)

lemma hex4_eats:
  assumes "hex4 s = Some (n, r)"
  shows "eats True s True r"
proof -
  obtain a b c d t where s: "s = a # b # c # d # t"
    using assms by (cases s rule: hex4.cases) auto
  obtain w x y z where h: "hex_val a = Some w" "hex_val b = Some x" "hex_val c = Some y" "hex_val d = Some z"
    and r: "t = r"
    using assms unfolding s by (auto split: option.splits)
  have "eats True s True (b # c # d # t)"
    unfolding s by (rule hex_eats [OF h(1)])
  also have "eats True (b # c # d # t) True (c # d # t)"
    by (rule hex_eats [OF h(2)])
  also have "eats True (c # d # t) True (d # t)"
    by (rule hex_eats [OF h(3)])
  also have "eats True (d # t) True r"
    unfolding r [symmetric] by (rule hex_eats [OF h(4)])
  finally show ?thesis .
qed

lemma escape_eats:
  assumes "escape s = Some (b, r)"
  shows "eats True (CHR 0x5C # s) True r"
proof -
  obtain c t where s: "s = c # t" and c: "(32 :: nat) \<le> of_char c"
    using assms by (cases s) (auto simp: escape_def split: if_splits)
  have one: "eats True (CHR 0x5C # c # t) True t"
    using c by (intro eats_out [of "[CHR 0x5C, c]"]) auto
  have "eats True t True r" if u: "u_escape t = Some (b, r)"
  proof -
    obtain n r1 where n: "hex4 t = Some (n, r1)" and r1: "r = r1 \<or> (\<exists>m. low_surrogate r1 = Some (m, r))"
      using u by (auto simp: u_escape_def split: option.splits if_splits)
    have "eats True r1 True r" if low: "low_surrogate r1 = Some (m, r)" for m
    proof -
      from low obtain t1 where "r1 = CHR 0x5C # CHR ''u'' # t1" and "hex4 t1 = Some (m, r)"
        by (auto simp: low_surrogate_def has_prefix_iff split: if_splits option.splits)
      moreover have "eats True (CHR 0x5C # CHR ''u'' # t1) True t1"
        by (rule eats_out [of "[CHR 0x5C, CHR ''u'']"]) auto
      ultimately show ?thesis using eats_trans hex4_eats by blast
    qed
    with r1 have "eats True r1 True r" by auto
    with hex4_eats [OF n] show ?thesis by (rule eats_trans)
  qed
  moreover have "t = r \<or> u_escape t = Some (b, r)"
    using assms s by (auto simp: escape_def split: if_splits)
  ultimately have "eats True t True r" by auto
  with one show ?thesis unfolding s by (rule eats_trans)
qed

lemma str_body_eats: "str_body s = Some (t, r) \<Longrightarrow> eats True s False r"
proof (induction "length s" arbitrary: s t rule: less_induct)
  case less
  obtain c u where s: "s = c # u"
    using less.prems by (cases s) auto
  consider (close) "c = CHR 0x22" "r = u"
    | (esc) b v t' where "c = CHR 0x5C" "escape u = Some (b, v)" "str_body v = Some (t', r)"
    | (char) t' where "(32 :: nat) \<le> of_char c" "c \<noteq> CHR 0x22" "c \<noteq> CHR 0x5C" "str_body u = Some (t', r)"
    using less.prems unfolding s by (auto split: if_splits option.splits)
  then show ?case
  proof cases
    case close
    then show ?thesis
      unfolding s by (intro eats_out [of "[c]"]) auto
  next
    case esc
    have "eats True v False r"
      by (rule less.hyps [OF _ esc(3)]) (use escape_shorter [OF esc(2)] s in simp)
    with escape_eats [OF esc(2)] show ?thesis
      unfolding s esc(1) by (rule eats_trans)
  next
    case char
    show ?thesis
    proof (cases "has_prefix s [CHR 0xE2, CHR 0x80, CHR 0xA8] \<or> has_prefix s [CHR 0xE2, CHR 0x80, CHR 0xA9]")
      case True
      then obtain x v where v: "s = CHR 0xE2 # CHR 0x80 # x # v" and x: "x = CHR 0xA8 \<or> x = CHR 0xA9"
        by (auto simp: has_prefix_iff)
      then have "\<exists>t''. str_body v = Some (t'', r)"
        using less.prems by (auto split: option.splits)
      then obtain t'' where t'': "str_body v = Some (t'', r)" ..
      have "eats True v False r"
        by (rule less.hyps [OF _ t'']) (simp add: v)
      moreover have "eats True s True v"
        unfolding v using x by (intro eats_out [of "CHR 0x5C # (if x = CHR 0xA8 then ''u2028'' else ''u2029'')"]) auto
      ultimately show ?thesis by (rule eats_trans [rotated])
    next
      case False
      have "eats True u False r"
        by (rule less.hyps [OF _ char(4)]) (simp add: s)
      moreover have "eats True s True u"
        using False char unfolding s by (intro eats_plain) auto
      ultimately show ?thesis by (rule eats_trans [rotated])
    qed
  qed
qed

lemma eats_literal: "\<forall>c \<in> set p. (32 :: nat) < of_char c \<and> c \<noteq> CHR 0x22 \<Longrightarrow> eats False (p @ r) False r"
proof (induction p)
  case (Cons c p)
  have c: "(32 :: nat) < of_char c" "c \<noteq> CHR 0x22"
    using Cons.prems by simp_all
  then have "\<not> is_ws c"
    by (auto simp: is_ws_def)
  then have "eats False ((c # p) @ r) False (p @ r)"
    using c by (intro eats_out [of "[c]"]) simp_all
  moreover have "eats False (p @ r) False r"
    using Cons by simp
  ultimately show ?case by (rule eats_trans)
qed simp

lemma num_char_printable: "num_char c \<Longrightarrow> (32 :: nat) < of_char c \<and> c \<noteq> CHR 0x22"
  by (auto simp: num_char_def is_digit_def digit_val_def Let_def split: if_splits)

lemma pscalar_eats: 
  assumes "pscalar s = Some (v, r)"
  shows "eats False s False r"
proof -
  consider (str) t where "s = CHR 0x22 # tl s" "str_body (tl s) = Some (t, r)"
    | (literal) p where "s = p @ r" "p = ''null'' \<or> p = ''true'' \<or> p = ''false''"
    | (number) "r = dropWhile num_char s"
  proof -
    consider "has_prefix s [CHR 0x22]" | "\<not> has_prefix s [CHR 0x22]" "has_prefix s ''null''" "r = drop 4 s"
      | "\<not> has_prefix s [CHR 0x22]" "has_prefix s ''true''" "r = drop 4 s"
      | "\<not> has_prefix s [CHR 0x22]" "has_prefix s ''false''" "r = drop 5 s" | "r = dropWhile num_char s"
      using assms unfolding pscalar_def by (simp split: if_splits)
    then show ?thesis
    proof cases
      case 1
      then show ?thesis
        using assms str by (auto simp: pscalar_def has_prefix_iff)
    next
      case 2
      then have "s = ''null'' @ r" by (auto simp: has_prefix_iff)
      then show ?thesis by (rule literal) simp
    next
      case 3
      then have "s = ''true'' @ r" by (auto simp: has_prefix_iff)
      then show ?thesis by (rule literal) simp
    next
      case 4
      then have "s = ''false'' @ r" by (auto simp: has_prefix_iff)
      then show ?thesis by (rule literal) simp
    next
      case 5
      then show ?thesis by (rule number)
    qed
  qed
  then show ?thesis
  proof cases
    case str
    have "eats False (CHR 0x22 # tl s) True (tl s)"
      by (rule eats_out [of "[CHR 0x22]"]) (auto simp: is_ws_def)
    also have "eats True (tl s) False r"
      by (rule str_body_eats [OF str(2)])
    finally show ?thesis using str(1) by simp
  next
    case literal
    then show ?thesis by (auto intro!: eats_literal)
  next
    case number
    have "eats False (takeWhile num_char s @ r) False r"
      by (rule eats_literal) (auto dest: set_takeWhileD num_char_printable)
    then show ?thesis unfolding number by simp
  qed
qed

lemma punct_eats: "next_tok s = Some (c, r) \<Longrightarrow> c \<in> set ''{}[],:'' \<Longrightarrow> eats False s False r"
  by (drule eats_next_tok) auto

lemma pkey_eats:
  assumes "pkey s = Some (k, r)"
  shows "eats False s False r"
proof -
  obtain k' s1 s2 where "next_tok s = Some (CHR 0x22, s1)" and "str_body s1 = Some (k', s2)"
    and "next_tok s2 = Some (CHR '':'', r)"
    using assms by (auto simp: pkey_def split: option.splits if_splits)
  then show ?thesis
    using eats_next_tok [of s "CHR 0x22" s1] str_body_eats [of s1 k' s2] punct_eats [of s2 "CHR '':''" r]
    by (auto intro: eats_trans)
qed

lemma skip_ws_tok: "next_tok s = Some (c, r) \<Longrightarrow> skip_ws s = c # r"
  by (auto simp: next_tok_def split: list.splits)

lemma parser_eats:
  "(\<forall>s v r. pvalue n s = Some (v, r) \<longrightarrow> eats False s False r) \<and>
   (\<forall>s vs r. pelems n s = Some (vs, r) \<longrightarrow> eats False s False r) \<and>
   (\<forall>s ms r. pmembers n s = Some (ms, r) \<longrightarrow> eats False s False r)"
proof (induction n)
  case 0
  then show ?case by simp
next
  case (Suc n)
  then have V: "\<And>s v r. pvalue n s = Some (v, r) \<Longrightarrow> eats False s False r"
    and E: "\<And>s vs r. pelems n s = Some (vs, r) \<Longrightarrow> eats False s False r"
    and M: "\<And>s ms r. pmembers n s = Some (ms, r) \<Longrightarrow> eats False s False r"
    by blast+
  have "eats False s False r" if v: "pvalue (Suc n) s = Some (v, r)" for s v r
    using v
  proof (cases rule: pvalue_Suc_cases)
    case (scalar c u)
    have "eats False s False (c # u)"
      using eats_skip_ws [of s] skip_ws_tok [OF scalar(1)] by simp
    then show ?thesis using pscalar_eats [OF scalar(4)] by (rule eats_trans)
  next
    case (arr0 u r')
    then show ?thesis using eats_trans [OF punct_eats punct_eats, of s _ u] by fastforce
  next
    case (arr u d r' vs t)
    then show ?thesis using eats_trans [OF punct_eats E, of s _ u] by fastforce
  next
    case (obj0 u r')
    then show ?thesis using eats_trans [OF punct_eats punct_eats, of s _ u] by fastforce
  next
    case (obj u d r' ms t)
    then show ?thesis using eats_trans [OF punct_eats M, of s _ u] by fastforce
  qed
  moreover have "eats False s False r" if v: "pelems (Suc n) s = Some (vs, r)" for s vs r
    using v
  proof (cases rule: pelems_Suc_cases)
    case (last v r1 r')
    then show ?thesis using eats_trans [OF V punct_eats] by fastforce
  next
    case (more v r1 r' vs' t)
    then show ?thesis using eats_trans [OF eats_trans [OF V punct_eats] E] by fastforce
  qed
  moreover have "eats False s False r" if v: "pmembers (Suc n) s = Some (ms, r)" for s ms r
    using v
  proof (cases rule: pmembers_Suc_cases)
    case (last k s' v r1 r')
    then show ?thesis using eats_trans [OF eats_trans [OF pkey_eats V] punct_eats] by fastforce
  next
    case (more k s' v r1 r' ms' t)
    then show ?thesis using eats_trans [OF eats_trans [OF eats_trans [OF pkey_eats V] punct_eats] M] by fastforce
  qed
  ultimately show ?case by blast
qed

lemma compact_ws: "list_all is_ws s \<Longrightarrow> compact False s = []"
  by (induction s) auto

text \<open>The text of a valid value, compacted, has no control characters.\<close>

theorem compact_one_line:
  assumes "json_valid s"
  shows "one_line (compact False s)"
proof -
  obtain v r where "pvalue (json_fuel s) s = Some (v, r)" and r: "skip_ws r = []"
    using assms by (auto simp: json_valid_def json_parse_def split: option.splits if_splits)
  then obtain out where "one_line out" and "compact False s = out @ compact False r"
    using parser_eats unfolding eats_def by blast
  moreover have "compact False r = []"
    using r by (intro compact_ws) (simp add: skip_ws_def list_all_iff)
  ultimately show ?thesis by simp
qed

text \<open>And so does every marshalled value.\<close>

lemma one_line_esc: "one_line (esc_body s)"
proof -
  have "one_line (concat (map esc_char u))" for u
    by (induction u) (auto simp: esc_char_def)
  then have "one_line (esc_rune u)" for u
    by (simp add: esc_rune_def)
  then have "one_line (concat (map (case_option (CHR 0x5C # ''ufffd'') esc_rune) us))" for us
    by (induction us) (auto split: option.split)
  then show ?thesis
    by (simp add: esc_body_def)
qed

lemma one_line_marshal: "json_ok j \<Longrightarrow> one_line (pp (\<lambda>_. []) [] d j)"
  and one_line_elems: "\<forall>v \<in> set vs. json_ok v \<Longrightarrow> one_line (pp_elems (\<lambda>_. []) [] d vs)"
  and one_line_members: "\<forall>m \<in> set ms. json_ok (snd m) \<Longrightarrow> one_line (pp_members (\<lambda>_. []) [] d ms)"
proof (induction "(\<lambda>_. []) :: nat \<Rightarrow> string" "[] :: string" d j and "(\<lambda>_. []) :: nat \<Rightarrow> string" "[] :: string" d vs
    and "(\<lambda>_. []) :: nat \<Rightarrow> string" "[] :: string" d ms rule: pp_pp_elems_pp_members.induct)
  case (3 d t)
  then show ?case
    using num_char_printable by (fastforce simp: one_line_def list_all_iff)
qed (auto simp: quote_def one_line_esc)

end
