(* ===== verification/Http_Sse.thy ===== *)
theory Http_Sse
  imports Http Go_Compact
begin

text \<open>
  Server-sent events: the frame the handlers print, the writer of the log stream, and as the
  specification of a client the parsing of an event stream (lines that end in LF, CR or both, the
  fields \<open>data\<close> and \<open>event\<close>, a blank line that dispatches).  A frame whose payload is one line is
  exactly one event.
\<close>

definition lf :: char where
  "lf = CHR 0x0A"

definition frame :: "string \<Rightarrow> string" where
  "frame payload = ''data: '' @ payload @ [lf, lf]"

section \<open>The client\<close>

fun unix_lines :: "string \<Rightarrow> string" where
  "unix_lines [] = []"
| "unix_lines (c # s) =
     (if c = CHR 0x0D then (if s \<noteq> [] \<and> hd s = CHR 0x0A then unix_lines s else CHR 0x0A # unix_lines s)
      else c # unix_lines s)"

text \<open>The lines that are ended; what follows the last end of a line is not one yet.\<close>

definition sse_lines :: "string \<Rightarrow> string list" where
  "sse_lines s = butlast (go_split [CHR 0x0A] (unix_lines s))"

fun sse_events :: "string \<Rightarrow> string list \<Rightarrow> string list \<Rightarrow> (string \<times> string) list" where
  "sse_events kind data [] = []"
| "sse_events kind data (l # ls) =
     (if l = [] then
        (if data = [] then sse_events [] [] ls
         else (kind, go_join [CHR 0x0A] data) # sse_events [] [] ls)
      else
        (let (name, v) = (case cut '':'' l of None \<Rightarrow> (l, []) | Some (a, b) \<Rightarrow> (a, trim_prefix b '' '')) in
         if name = ''data'' then sse_events kind (data @ [v]) ls
         else if name = ''event'' then sse_events v data ls
         else sse_events kind data ls))"

text \<open>The events of a stream, each with its type and its data.\<close>

definition sse_parse :: "string \<Rightarrow> (string \<times> string) list" where
  "sse_parse s = sse_events [] [] (sse_lines s)"

lemma unix_lines_line: "one_line a \<Longrightarrow> unix_lines (a @ CHR 0x0A # s) = a @ CHR 0x0A # unix_lines s"
  by (induction a) (auto simp: one_line_def)

lemma sse_lines_line: "one_line a \<Longrightarrow> sse_lines (a @ CHR 0x0A # s) = a # sse_lines s"
  by (simp add: sse_lines_def unix_lines_line go_split_byte_Some one_line_no_lf)

lemma unix_lines_one_line: "one_line a \<Longrightarrow> unix_lines a = a"
  by (induction a) (auto simp: one_line_def)

lemma sse_lines_rest: "one_line a \<Longrightarrow> sse_lines a = []"
  by (simp add: sse_lines_def unix_lines_one_line go_split_byte_None one_line_no_lf)

lemma sse_lines_blank: "sse_lines (CHR 0x0A # s) = [] # sse_lines s"
  using sse_lines_line [of "[]" s] by simp

lemma cut_data: "cut '':'' (''data: '' @ p) = Some (''data'', '' '' @ p)"
  using cut_byte_Some [of "CHR '':''" "''data''" "'' '' @ p"] by simp

lemma sse_data_line: "sse_events kind data ((''data: '' @ p) # ls) = sse_events kind (data @ [p]) ls"
  using trim_prefix_append [of "'' ''" p] by (simp add: cut_data [simplified])

lemma one_line_data: "one_line p \<Longrightarrow> one_line (''data: '' @ p)"
  by simp

lemma sse_data: "one_line p \<Longrightarrow>
    sse_events kind data (sse_lines (''data: '' @ p @ CHR 0x0A # s)) = sse_events kind (data @ [p]) (sse_lines s)"
  using sse_lines_line [OF one_line_data, of p s] sse_data_line by simp

lemma sse_frame: "one_line p \<Longrightarrow> sse_parse (frame p @ s) = ([], p) # sse_parse s"
  using sse_data [of p "[]" "[]" "CHR 0x0A # s"]
  by (simp add: sse_parse_def frame_def lf_def sse_lines_blank)

lemma sse_frames: "\<forall>p \<in> set ps. one_line p \<Longrightarrow> sse_parse (concat (map frame ps) @ s) = map (Pair []) ps @ sse_parse s"
  by (induction ps) (simp_all add: sse_frame)

text \<open>A frame that is cut off is no event yet.\<close>

lemma sse_cut_off:
  assumes "one_line p" and "t = [] \<or> t = ''data: '' \<or> t = ''data: '' @ p @ [CHR 0x0A]"
  shows "sse_parse t = []"
proof -
  have "sse_parse [] = []"
    using sse_lines_rest [of "[]"] by (simp add: sse_parse_def)
  moreover have "sse_parse ''data: '' = []"
    by (simp add: sse_parse_def sse_lines_rest)
  moreover have "sse_parse (''data: '' @ p @ [CHR 0x0A]) = []"
    using sse_data [OF assms(1), of "[]" "[]" "[]"] sse_lines_rest [of "[]"] by (simp add: sse_parse_def)
  ultimately show ?thesis using assms(2) by auto
qed

section \<open>Streaming\<close>

definition sse_headers :: "'w writer \<Rightarrow> 'w \<Rightarrow> 'w" where
  "sse_headers ops w =
     w_set ops ''Connection'' ''keep-alive''
       (w_set ops ''Cache-Control'' ''no-cache'' (w_set ops ''Content-Type'' ''text/event-stream'' w))"

text \<open>The \<open>sseWriter\<close> over a response.\<close>

definition sse_write :: "'w writer \<Rightarrow> ('w \<Rightarrow> 'w) \<Rightarrow> 'w \<Rightarrow> string \<Rightarrow> (string, unit) result \<times> 'w" where
  "sse_write ops flush w p =
     (case w_write ops (frame p) w of
        (Inl e, w') \<Rightarrow> (Inl e, w')
      | (Inr _, w') \<Rightarrow> (Inr (), flush w'))"

end
