(* ===== verification/Health.thy ===== *)
theory Health
  imports Go_Strings
begin

text \<open>
  The health registry of \<open>internal/flagcommons/health\<close>.  A checker is its name, the answer of its
  check and the time it took; the checks run concurrently and each writes the result at its own
  place, so a run is given by the order in which they finish.
\<close>

record checker =
  ck_name :: string
  ck_answer :: "string option"
  ck_latency_ms :: int

record health_status =
  hs_name :: string
  hs_healthy :: bool
  hs_error :: string
  hs_latency_ms :: int

record report =
  rp_healthy :: bool
  rp_version :: string
  rp_checks :: "health_status list"

definition new_report :: "string \<Rightarrow> report" where
  "new_report version = \<lparr>rp_healthy = True, rp_version = version, rp_checks = []\<rparr>"

definition register :: "checker \<Rightarrow> checker list \<Rightarrow> checker list" where
  "register c cs = cs @ [c]"

definition check_status :: "checker \<Rightarrow> health_status" where
  "check_status c =
     \<lparr>hs_name = ck_name c, hs_healthy = ck_answer c = None,
      hs_error = (case ck_answer c of None \<Rightarrow> [] | Some e \<Rightarrow> e), hs_latency_ms = ck_latency_ms c\<rparr>"

definition no_status :: health_status where
  "no_status = \<lparr>hs_name = [], hs_healthy = False, hs_error = [], hs_latency_ms = 0\<rparr>"

text \<open>The goroutines: the check at each index of \<open>order\<close>, as they finish.\<close>

fun finish :: "checker list \<Rightarrow> nat list \<Rightarrow> health_status list \<Rightarrow> health_status list" where
  "finish cs [] results = results"
| "finish cs (i # order) results = finish cs order (results[i := check_status (cs ! i)])"

fun add_checks :: "report \<Rightarrow> health_status list \<Rightarrow> report" where
  "add_checks r [] = r"
| "add_checks r (s # ss) =
     add_checks (r\<lparr>rp_checks := rp_checks r @ [s], rp_healthy := (if hs_healthy s then rp_healthy r else False)\<rparr>) ss"

definition run_all :: "string \<Rightarrow> nat list \<Rightarrow> checker list \<Rightarrow> report" where
  "run_all version order cs =
     (if cs = [] then new_report version
      else add_checks (new_report version) (finish cs order (replicate (length cs) no_status)))"

lemma finish_nth:
  "length results = length cs \<Longrightarrow> set order \<subseteq> {..<length cs} \<Longrightarrow>
     length (finish cs order results) = length cs \<and>
     (\<forall>i < length cs. finish cs order results ! i =
        (if i \<in> set order then check_status (cs ! i) else results ! i))"
proof (induction order arbitrary: results)
  case (Cons j order)
  then show ?case by (auto simp: nth_list_update)
qed simp

lemma finish_all:
  assumes "set order = {..<length cs}"
  shows "finish cs order (replicate (length cs) no_status) = map check_status cs"
  using finish_nth [of "replicate (length cs) no_status" cs order] assms
  by (intro nth_equalityI) auto

lemma add_checks_all:
  "add_checks r ss = r\<lparr>rp_checks := rp_checks r @ ss, rp_healthy := rp_healthy r \<and> list_all hs_healthy ss\<rparr>"
  by (induction ss arbitrary: r) auto

text \<open>The report does not depend on the order in which the concurrent checks finish: it lists one
  status per checker in the order of registration, and it is healthy exactly when no check failed.\<close>

theorem report_independent_of_order:
  assumes "distinct order" and "set order = {..<length cs}"
  shows "rp_checks (run_all version order cs) = map check_status cs \<and>
    (rp_healthy (run_all version order cs) \<longleftrightarrow> (\<forall>c \<in> set cs. ck_answer c = None)) \<and>
    rp_version (run_all version order cs) = version"
  by (auto simp: run_all_def new_report_def finish_all [OF assms(2)] add_checks_all list_all_iff check_status_def)

theorem report_independent_of_order_witness:
  "rp_checks (run_all ''v1'' [1, 0]
      [\<lparr>ck_name = ''docker'', ck_answer = None, ck_latency_ms = 3\<rparr>,
       \<lparr>ck_name = ''disk'', ck_answer = Some ''full'', ck_latency_ms = 1\<rparr>]) =
     [\<lparr>hs_name = ''docker'', hs_healthy = True, hs_error = [], hs_latency_ms = 3\<rparr>,
      \<lparr>hs_name = ''disk'', hs_healthy = False, hs_error = ''full'', hs_latency_ms = 1\<rparr>]"
proof -
  let ?cs = "[\<lparr>ck_name = ''docker'', ck_answer = None, ck_latency_ms = 3\<rparr>,
       \<lparr>ck_name = ''disk'', ck_answer = Some ''full'', ck_latency_ms = 1\<rparr>]"
  have "set [1, 0] = {..<length ?cs}"
    by auto
  then show ?thesis
    using report_independent_of_order [of "[1, 0]" ?cs "''v1''"] by (simp add: check_status_def)
qed

end
