(* ===== verification/Http_Handlers.thy ===== *)
theory Http_Handlers
  imports Http_Sse Container_Logs Storage_Store System_Info Gpu_Poller Health
begin

text \<open>
  The handlers of \<open>internal/api/handlers\<close> except the benchmark run: each is a function of the writer
  it was given, the request and the state of the component it serves.  What a handler only logs is
  left out.
\<close>

section \<open>System\<close>

definition info_json :: "system_info \<Rightarrow> json" where
  "info_json i = JObj
     [(''hostname'', JStr (si_hostname i)), (''os'', JStr (si_os i)), (''arch'', JStr (si_arch i)),
      (''kernel'', JStr (si_kernel i)), (''cpu_model'', JStr (si_cpu_model i)),
      (''cpu_cores'', JNum (show_int (si_cpu_cores i))), (''memory_mb'', JNum (show_nat (unat (si_memory_mb i))))]"

text \<open>The decimal text of a \<open>float64\<close> is a parameter; infinities and NaN have none and make \<open>Encode\<close> fail.\<close>

definition disk_json :: "(go_float \<Rightarrow> string option) \<Rightarrow> disk_usage \<Rightarrow> json option" where
  "disk_json float_text d =
     (case (float_text (du_total_gb d), float_text (du_used_gb d), float_text (du_available_gb d)) of
        (Some t, Some u, Some a) \<Rightarrow>
          Some (JObj [(''total_gb'', JNum t), (''used_gb'', JNum u), (''available_gb'', JNum a),
             (''used_percent'', JStr (du_used_percent d))])
      | _ \<Rightarrow> None)"

text \<open>\<open>Collect\<close> has no error; a map is encoded in the order of its keys, a nil pointer as \<open>null\<close>.\<close>

definition system_info_handler ::
  "'w writer \<Rightarrow> (go_float \<Rightarrow> string option) \<Rightarrow> host \<Rightarrow> ('w, 's) handler" where
  "system_info_handler ops float_text h req s w =
     (let info = collect h;
          disk = (case collect_disk (ho_run h) of Inl _ \<Rightarrow> Some JNull | Inr d \<Rightarrow> disk_json float_text d)
      in case disk of
        None \<Rightarrow> (s, w_set ops ''Content-Type'' ''application/json'' w)
      | Some d \<Rightarrow> (s, send_json ops (JObj [(''disk'', d), (''system'', info_json info)]) w))"

section \<open>Health\<close>

definition status_json :: "health_status \<Rightarrow> json" where
  "status_json st = JObj
     ([(''name'', JStr (hs_name st)), (''healthy'', JBool (hs_healthy st))] @
      (if hs_error st = [] then [] else [(''error'', JStr (hs_error st))]) @
      [(''latency_ms'', JNum (show_int (hs_latency_ms st)))])"

definition report_json :: "report \<Rightarrow> json" where
  "report_json r = JObj
     [(''healthy'', JBool (rp_healthy r)), (''version'', JStr (rp_version r)),
      (''checks'', JArr (map status_json (rp_checks r)))]"

definition health_handler ::
  "'w writer \<Rightarrow> string \<Rightarrow> nat list \<Rightarrow> checker list \<Rightarrow> ('w, 's) handler" where
  "health_handler ops version order cs req s w =
     (let r = run_all version order cs;
          w1 = w_set ops ''Content-Type'' ''application/json'' w;
          w2 = (if rp_healthy r then w1 else w_code ops 503 w1)
      in (s, snd (encode ops (report_json r) w2)))"

definition ready_handler :: "'w writer \<Rightarrow> string option \<Rightarrow> ('w, 's) handler" where
  "ready_handler ops ping req s w =
     (let w1 = w_set ops ''Content-Type'' ''application/json'' w in
      if ping \<noteq> None
      then (s, snd (encode ops (JObj [(''ready'', JBool False)]) (w_code ops 503 w1)))
      else (s, snd (encode ops (JObj [(''ready'', JBool True)]) w1)))"

section \<open>GPUs\<close>

definition gpu_json :: "gpu_info \<Rightarrow> json" where
  "gpu_json g = JObj
     [(''index'', JNum (show_int (gi_index g))), (''name'', JStr (gi_name g)), (''vendor'', JStr (gi_vendor g)),
      (''memory_total_mib'', JNum (show_nat (unat (gi_memory_total g)))),
      (''memory_free_mib'', JNum (show_nat (unat (gi_memory_free g)))),
      (''utilization_percent'', JNum (show_int (gi_utilization g)))]"

text \<open>The slice is nil exactly in the fallback snapshot, the only one without a GPU.\<close>

definition snapshot_json :: "snapshot \<Rightarrow> json" where
  "snapshot_json sn = JObj
     [(''vendor'', JStr (sn_vendor sn)),
      (''gpus'', if sn_gpus sn = [] then JNull else JArr (map gpu_json (sn_gpus sn))),
      (''timestamp'', JStr (sn_timestamp sn))]"

definition gpu_status :: "'w writer \<Rightarrow> ('w, poller) handler" where
  "gpu_status ops req p w = (p, send_json ops (snapshot_json (latest p)) w)"

text \<open>\<open>fmt.Fprintln\<close>, its error ignored.\<close>

definition write_metric :: "'w writer \<Rightarrow> string \<Rightarrow> 'w \<Rightarrow> 'w" where
  "write_metric ops line w = snd (w_write ops (line @ [lf]) w)"

definition gauge_lines :: "string \<Rightarrow> string \<Rightarrow> string list" where
  "gauge_lines name text = [''# HELP '' @ name @ '' '' @ text, ''# TYPE '' @ name @ '' gauge'']"

definition sample_line :: "(nat \<Rightarrow> bool) \<Rightarrow> string \<Rightarrow> gpu_info \<Rightarrow> string \<Rightarrow> string" where
  "sample_line printable name g v =
     name @ ''{index='' @ [CHR 0x22] @ show_int (gi_index g) @ [CHR 0x22] @
     '',name='' @ go_quote printable (gi_name g) @ '',vendor='' @ go_quote printable (gi_vendor g) @ ''} '' @ v"

definition metric_lines :: "(nat \<Rightarrow> bool) \<Rightarrow> snapshot \<Rightarrow> string list" where
  "metric_lines printable sn =
     gauge_lines ''bonnie_gpu_memory_total_mib'' ''Total GPU memory in MiB.'' @
     map (\<lambda>g. sample_line printable ''bonnie_gpu_memory_total_mib'' g (show_nat (unat (gi_memory_total g)))) (sn_gpus sn) @
     gauge_lines ''bonnie_gpu_memory_free_mib'' ''Free GPU memory in MiB.'' @
     map (\<lambda>g. sample_line printable ''bonnie_gpu_memory_free_mib'' g (show_nat (unat (gi_memory_free g)))) (sn_gpus sn) @
     gauge_lines ''bonnie_gpu_utilization_percent'' ''GPU utilization percentage.'' @
     map (\<lambda>g. sample_line printable ''bonnie_gpu_utilization_percent'' g (show_int (gi_utilization g))) (sn_gpus sn) @
     gauge_lines ''bonnie_gpu_count'' ''Total number of GPUs detected.'' @
     [''bonnie_gpu_count{vendor='' @ go_quote printable (sn_vendor sn) @ ''} '' @ show_nat (length (sn_gpus sn))]"

definition gpu_metrics :: "'w writer \<Rightarrow> (nat \<Rightarrow> bool) \<Rightarrow> ('w, poller) handler" where
  "gpu_metrics ops printable req p w =
     (p, fold (write_metric ops) (metric_lines printable (latest p))
           (w_set ops ''Content-Type'' ''text/plain; version=0.0.4; charset=utf-8'' w))"

section \<open>Containers\<close>

definition container_info_json :: "container_info \<Rightarrow> json" where
  "container_info_json c = JObj
     [(''id'', JStr (ci_id c)), (''name'', JStr (ci_name c)), (''image'', JStr (ci_image c)),
      (''state'', JStr (ci_state c)), (''status'', JStr (ci_status c)),
      (''created'', JNum (show_int (ci_created c)))]"

definition container_list :: "'w writer \<Rightarrow> env \<Rightarrow> ('w, history) handler" where
  "container_list ops env req h w =
     (case manager_list env h of
        (Inl e, h') \<Rightarrow> (h', write_error ops 500 ''failed to list containers'' w)
      | (Inr cs, h') \<Rightarrow> (h', send_json ops (JArr (map container_info_json cs)) w))"

definition create_fields :: "create_request field list" where
  "create_fields =
     [(''name'', \<lambda>j r. map_option (\<lambda>x. r\<lparr>cr_name := x\<rparr>) (dec_string j (cr_name r))),
      (''image'', \<lambda>j r. map_option (\<lambda>x. r\<lparr>cr_image := x\<rparr>) (dec_string j (cr_image r))),
      (''env'', \<lambda>j r. map_option (\<lambda>x. r\<lparr>cr_env := x\<rparr>) (dec_strings j)),
      (''mounts'', \<lambda>j r. map_option (\<lambda>x. r\<lparr>cr_mounts := x\<rparr>) (dec_strings j)),
      (''gpu'', \<lambda>j r. map_option (\<lambda>x. r\<lparr>cr_gpu := x\<rparr>) (dec_bool j (cr_gpu r))),
      (''command'', \<lambda>j r. map_option (\<lambda>x. r\<lparr>cr_command := x\<rparr>) (dec_strings j))]"

definition zero_create :: create_request where
  "zero_create = \<lparr>cr_name = [], cr_image = [], cr_env = [], cr_mounts = [], cr_gpu = False, cr_command = []\<rparr>"

text \<open>\<open>json.NewDecoder(r.Body).Decode\<close> into a struct.\<close>

definition decode_body :: "'r field list \<Rightarrow> 'r \<Rightarrow> request \<Rightarrow> 'r option" where
  "decode_body fs zero req =
     (case json_decode (hr_body req) of None \<Rightarrow> None | Some j \<Rightarrow> dec_struct fs j zero)"

definition container_create :: "'w writer \<Rightarrow> env \<Rightarrow> vendor \<Rightarrow> ('w, history) handler" where
  "container_create ops env v req h w =
     (case decode_body create_fields zero_create req of
        None \<Rightarrow> (h, write_error ops 400 ''invalid request body'' w)
      | Some cr \<Rightarrow>
          (if cr_image cr = [] then (h, write_error ops 400 ''image is required'' w)
           else case manager_create env v cr h of
             (Inl e, h') \<Rightarrow> (h', write_error ops 500 ''failed to create container'' w)
           | (Inr i, h') \<Rightarrow>
               (h', snd (encode ops (JObj [(''id'', JStr i)])
                     (w_code ops 201 (w_set ops ''Content-Type'' ''application/json'' w))))))"

text \<open>The JSON of Docker's inspection is a parameter.\<close>

definition container_inspect ::
  "'w writer \<Rightarrow> env \<Rightarrow> (inspection \<Rightarrow> json) \<Rightarrow> string \<Rightarrow> ('w, history) handler" where
  "container_inspect ops env inspect_json i req h w =
     (case manager_inspect env i h of
        (Inl e, h') \<Rightarrow> (h', write_error ops 404 ''container not found'' w)
      | (Inr info, h') \<Rightarrow> (h', send_json ops (inspect_json info) w))"

definition container_start :: "'w writer \<Rightarrow> env \<Rightarrow> string \<Rightarrow> ('w, history) handler" where
  "container_start ops env i req h w =
     (case manager_start env i h of
        (Inl e, h') \<Rightarrow> (h', write_error ops 500 ''failed to start container'' w)
      | (Inr _, h') \<Rightarrow> (h', send_json ops (JObj [(''status'', JStr ''started'')]) w))"

definition container_stop :: "'w writer \<Rightarrow> env \<Rightarrow> string \<Rightarrow> ('w, history) handler" where
  "container_stop ops env i req h w =
     (case manager_stop env i h of
        (Inl e, h') \<Rightarrow> (h', write_error ops 500 ''failed to stop container'' w)
      | (Inr _, h') \<Rightarrow> (h', send_json ops (JObj [(''status'', JStr ''stopped'')]) w))"

definition container_restart :: "'w writer \<Rightarrow> env \<Rightarrow> string \<Rightarrow> ('w, history) handler" where
  "container_restart ops env i req h w =
     (case manager_restart env i h of
        (Inl e, h') \<Rightarrow> (h', write_error ops 500 ''failed to restart container'' w)
      | (Inr _, h') \<Rightarrow> (h', send_json ops (JObj [(''status'', JStr ''restarted'')]) w))"

definition container_remove :: "'w writer \<Rightarrow> env \<Rightarrow> string \<Rightarrow> ('w, history) handler" where
  "container_remove ops env i req h w =
     (case manager_remove env i True h of
        (Inl e, h') \<Rightarrow> (h', write_error ops 500 ''failed to remove container'' w)
      | (Inr _, h') \<Rightarrow> (h', w_code ops 204 w))"

text \<open>\<open>logs\<close> is what the daemon answers to \<open>ContainerLogs\<close>.\<close>

definition container_logs ::
  "'w writer \<Rightarrow> (history \<Rightarrow> string \<Rightarrow> (string, reads) result) \<Rightarrow> string \<Rightarrow> ('w, history) handler" where
  "container_logs ops logs i req h w =
     (case w_flush ops of
        None \<Rightarrow> (h, write_error ops 500 ''streaming not supported'' w)
      | Some flush \<Rightarrow>
          (h @ [ContainerLogs i True True],
           snd (log_stream (logs h i) (sse_write ops flush) (flush (sse_headers ops w)))))"

section \<open>Commands\<close>

record exec_request =
  xr_command :: string
  xr_args :: "string list"

definition exec_fields :: "exec_request field list" where
  "exec_fields =
     [(''command'', \<lambda>j r. map_option (\<lambda>x. r\<lparr>xr_command := x\<rparr>) (dec_string j (xr_command r))),
      (''args'', \<lambda>j r. map_option (\<lambda>x. r\<lparr>xr_args := x\<rparr>) (dec_strings j))]"

type_synonym commands = "(string \<times> string list) list"

definition done_frame :: string where
  "done_frame = ''event: done'' @ [lf] @ ''data: {'' @ [CHR 0x22] @ ''exit_code'' @ [CHR 0x22] @ '': 0}'' @ [lf, lf]"

definition error_frame :: "(nat \<Rightarrow> bool) \<Rightarrow> string \<Rightarrow> string" where
  "error_frame printable e =
     frame (''{'' @ [CHR 0x22] @ ''error'' @ [CHR 0x22] @ '': '' @ go_quote printable e @ ''}'')"

text \<open>The state is the list of the commands that have been run; the runner answers from it.\<close>

definition exec_handler ::
  "'w writer \<Rightarrow> (commands \<Rightarrow> runner) \<Rightarrow> (nat \<Rightarrow> bool) \<Rightarrow> ('w, commands) handler" where
  "exec_handler ops run printable req cs w =
     (case decode_body exec_fields \<lparr>xr_command = [], xr_args = []\<rparr> req of
        None \<Rightarrow> (cs, write_error ops 400 ''invalid request body'' w)
      | Some xr \<Rightarrow>
          (if xr_command xr = [] then (cs, write_error ops 400 ''command is required'' w)
           else case w_flush ops of
             None \<Rightarrow> (cs, write_error ops 500 ''streaming not supported'' w)
           | Some flush \<Rightarrow>
               (cs @ [(xr_command xr, xr_args xr)],
                (let w1 = flush (sse_headers ops w) in
                 case run cs (xr_command xr) (xr_args xr) of
                   Inl e \<Rightarrow> flush (snd (w_write ops (error_frame printable e) w1))
                 | Inr out \<Rightarrow>
                     flush (snd (w_write ops done_frame (flush (snd (w_write ops (frame out) w1)))))))))"

section \<open>Models\<close>

text \<open>The interface \<open>ModelStore\<close> as the handlers use it, and the store that provides it.\<close>

record 's model_store =
  ms_fetch :: "fetch_request \<Rightarrow> 's \<Rightarrow> (store_error, entry) result \<times> 's"
  ms_list :: "'s \<Rightarrow> (store_error, entry list) result"
  ms_delete :: "string \<Rightarrow> 's \<Rightarrow> (store_error, unit) result \<times> 's"

definition the_store :: "(string \<Rightarrow> string) \<Rightarrow> flight \<Rightarrow> timestamp \<Rightarrow> sys model_store" where
  "the_store sha256 inflight now =
     \<lparr>ms_fetch = fetch sha256 inflight now, ms_list = \<lambda>s. Inr (list_models s), ms_delete = delete_model\<rparr>"

definition fetch_fields :: "fetch_request field list" where
  "fetch_fields =
     [(''source'', \<lambda>j r. map_option (\<lambda>x. r\<lparr>rq_source := x\<rparr>) (dec_string j (rq_source r))),
      (''model_id'', \<lambda>j r. map_option (\<lambda>x. r\<lparr>rq_model_id := x\<rparr>) (dec_string j (rq_model_id r))),
      (''dest'', \<lambda>j r. map_option (\<lambda>x. r\<lparr>rq_dest := x\<rparr>) (dec_string j (rq_dest r))),
      (''patterns'', \<lambda>j r. map_option (\<lambda>x. r\<lparr>rq_patterns := x\<rparr>) (dec_strings j)),
      (''mount_source'', \<lambda>j r. map_option (\<lambda>x. r\<lparr>rq_mount_source := x\<rparr>) (dec_string j (rq_mount_source r))),
      (''subpath'', \<lambda>j r. map_option (\<lambda>x. r\<lparr>rq_subpath := x\<rparr>) (dec_string j (rq_subpath r)))]"

definition zero_fetch :: fetch_request where
  "zero_fetch = \<lparr>rq_source = [], rq_model_id = [], rq_dest = [], rq_patterns = [], rq_mount_source = [], rq_subpath = []\<rparr>"

text \<open>The text of a store error is a parameter.\<close>

definition models_fetch :: "'w writer \<Rightarrow> (store_error \<Rightarrow> string) \<Rightarrow> 's model_store \<Rightarrow> ('w, 's) handler" where
  "models_fetch ops error_text ms req s w =
     (case decode_body fetch_fields zero_fetch req of
        None \<Rightarrow> (s, write_error ops 400 ''invalid request body'' w)
      | Some rq \<Rightarrow>
          (if rq_source rq = [] then (s, write_error ops 400 ''source is required'' w)
           else if rq_model_id rq = [] then (s, write_error ops 400 ''model_id is required'' w)
           else case ms_fetch ms rq s of
             (Inl e, s') \<Rightarrow> (s', write_error ops 500 (error_text e) w)
           | (Inr e, s') \<Rightarrow> (s', send_json ops (entry_json e) w)))"

definition models_list :: "'w writer \<Rightarrow> 's model_store \<Rightarrow> ('w, 's) handler" where
  "models_list ops ms req s w =
     (case ms_list ms s of
        Inl e \<Rightarrow> (s, write_error ops 500 ''failed to list models'' w)
      | Inr es \<Rightarrow> (s, send_json ops (JArr (map entry_json es)) w))"

definition models_delete :: "'w writer \<Rightarrow> 's model_store \<Rightarrow> string \<Rightarrow> ('w, 's) handler" where
  "models_delete ops ms i req s w =
     (if i = [] then (s, write_error ops 400 ''id is required'' w)
      else case ms_delete ms i s of
        (Inl e, s') \<Rightarrow>
          (s', if e = NotFound then write_error ops 404 ''model not found'' w
               else write_error ops 500 ''failed to delete model'' w)
      | (Inr _, s') \<Rightarrow> (s', w_code ops 204 w))"

end
