(* ===== verification/Http_Formats.thy ===== *)
theory Http_Formats
  imports Http_Handlers
begin

text \<open>
  The two texts that handlers print themselves: the metrics page, whose lines no device name can
  break, and the event stream of a command, whose frames its output can.
\<close>

section \<open>Metrics\<close>

lemma metrics_body:
  "rs_left r = None \<Longrightarrow> rs_sent r = None \<or> rs_sent r = Some (200, h) \<Longrightarrow>
     rs_body (fold (write_metric server_writer) ls r) = rs_body r @ concat (map (\<lambda>l. l @ [lf]) ls)"
proof (induction ls arbitrary: r h)
  case (Cons l ls)
  let ?r = "write_metric server_writer l r"
  have "rs_left ?r = None" and "\<exists>h. rs_sent ?r = Some (200, h)" and "rs_body ?r = rs_body r @ l @ [lf]"
    using Cons.prems by (auto simp: write_metric_def write_body_def send_header_def sent_status_def body_allowed_def Let_def)
  then show ?case
    using Cons.IH by auto
qed simp

lemma split_lines:
  "\<forall>l \<in> set ls. one_line l \<Longrightarrow> go_split [lf] (concat (map (\<lambda>l. l @ [lf]) ls)) = ls @ [[]]"
  by (induction ls) (simp_all add: lf_def go_split_byte_None go_split_byte_Some one_line_no_lf)

lemma one_line_nat [simp]: "one_line (show_nat n)"
  using show_nat_digits [of _ n] by (fastforce simp: one_line_def)

lemma one_line_show_int [simp]: "one_line (show_int i)"
  by (simp add: show_int_def)

lemma metric_lines_one_line: "\<forall>l \<in> set (metric_lines pr sn). one_line l"
  by (auto simp: metric_lines_def gauge_lines_def sample_line_def one_line_quote)

text \<open>C27. The metrics page has exactly one line per sample: whatever the drivers report as names and
  vendors, splitting it at line feeds gives the help and type lines of the four metrics, one sample
  for each GPU in the first three and the number of GPUs, so a device name cannot add or break a
  line.\<close>

theorem metrics_lines_exact:
  "go_split [lf] (rs_body (snd (gpu_metrics server_writer printable req p (new_response None)))) =
     metric_lines printable (latest p) @ [[]] \<and>
   length (metric_lines printable (latest p)) = 3 * length (sn_gpus (latest p)) + 9"
proof -
  have "rs_body (snd (gpu_metrics server_writer printable req p (new_response None))) =
      concat (map (\<lambda>l. l @ [lf]) (metric_lines printable (latest p)))"
    by (simp add: gpu_metrics_def metrics_body set_header_def new_response_def)
  then show ?thesis
    using split_lines [OF metric_lines_one_line] by (simp add: metric_lines_def gauge_lines_def)
qed

section \<open>Commands\<close>

definition exit_data :: string where
  "exit_data = ''{'' @ [CHR 0x22] @ ''exit_code'' @ [CHR 0x22] @ '': 0}''"

lemma done_event: "sse_parse done_frame = [(''done'', exit_data)]"
  by code_simp

lemma ignored_line:
  "CHR '':'' \<notin> set b \<Longrightarrow> b \<notin> {[], ''data'', ''event''} \<Longrightarrow> sse_events kind data (b # ls) = sse_events kind data ls"
  by (simp add: cut_byte_None)

lemma write_sent:
  "rs_sent r = Some (200, h) \<Longrightarrow> rs_left r = None \<Longrightarrow> snd (write_body s r) = r\<lparr>rs_body := rs_body r @ s\<rparr>"
  by (simp add: write_body_def send_header_def sent_status_def body_allowed_def Let_def)

lemma flush_sent:
  "rs_sent r = Some (200, h) \<Longrightarrow> flush_body r = r\<lparr>rs_flushed := length (rs_body r)\<rparr>"
  by (simp add: flush_body_def send_header_def)

lemma exec_body:
  assumes "decode_body exec_fields \<lparr>xr_command = [], xr_args = []\<rparr> req = Some xr" and "xr_command xr \<noteq> []"
    and "run cs (xr_command xr) (xr_args xr) = Inr out"
  shows "rs_body (snd (exec_handler server_writer run pr req cs (new_response None))) = frame out @ done_frame"
proof -
  obtain r where r: "r = flush_body (sse_headers server_writer (new_response None))" by simp
  obtain h where "rs_sent r = Some (200, h)" "rs_left r = None" "rs_body r = []"
    by (simp add: r sse_headers_def flush_body_def send_header_def set_header_def new_response_def)
  then have "rs_body (flush_body (snd (write_body done_frame (flush_body (snd (write_body (frame out) r)))))) =
      frame out @ done_frame"
    by (simp add: write_sent flush_sent)
  then show ?thesis
    using assms by (simp add: exec_handler_def r Let_def)
qed


definition uname_request :: request where
  "uname_request = \<lparr>hr_method = ''POST'', hr_path = ''/api/v1/exec'', hr_headers = [],
     hr_body = json_marshal (JObj [(''command'', JStr ''df'')])\<rparr>"


end
