(* ===== verification/Http_Benchmark.thy ===== *)
theory Http_Benchmark
  imports Http_Sse Container_Run Storage_Index
begin

text \<open>
  The benchmark handler of \<open>internal/api/handlers/benchmark.go\<close>: the decoding of the request with its
  raw members, the checks, and the loop that turns the events of the run into frames.  The runner is
  the interface \<open>PairedRunner\<close>: what it puts into the channel until it closes it.
\<close>

section \<open>The request\<close>

text \<open>The members of an object with the text of their values, which a \<open>RawMessage\<close> keeps.\<close>

fun raw_members :: "nat \<Rightarrow> string \<Rightarrow> (string \<times> string) list" where
  "raw_members 0 s = []"
| "raw_members (Suc n) s =
     (case pkey s of
        None \<Rightarrow> []
      | Some (k, s1) \<Rightarrow>
          (let v = skip_ws s1 in
           case pvalue (json_fuel v) v of
             None \<Rightarrow> []
           | Some (_, r) \<Rightarrow>
               (k, take (length v - length r) v) #
               (case next_tok r of
                  Some (c, r') \<Rightarrow> (if c = CHR '','' then raw_members n r' else [])
                | None \<Rightarrow> [])))"

definition raw_object :: "string \<Rightarrow> (string \<times> string) list" where
  "raw_object s =
     (case next_tok s of
        Some (c, r) \<Rightarrow> (if c = CHR ''{'' then raw_members (length r) r else [])
      | None \<Rightarrow> [])"

definition raw_values :: "string \<Rightarrow> string \<Rightarrow> string list" where
  "raw_values name s = map snd (filter (\<lambda>m. equal_fold name (fst m)) (raw_object s))"

text \<open>A member that is given twice is decoded twice, so the last value stays.\<close>

definition raw_benchmark_member :: "string \<Rightarrow> string \<Rightarrow> string" where
  "raw_benchmark_member name body =
     (case rev (concat (map (raw_values name) (raw_values ''benchmark'' body))) of
        [] \<Rightarrow> [] | t # _ \<Rightarrow> t)"

text \<open>A \<open>map[string]string\<close>, into which the members are stored one by one.\<close>

fun dec_string_members :: "(string \<times> json) list \<Rightarrow> (string, string) gomap \<Rightarrow> (string, string) gomap option" where
  "dec_string_members [] m = Some m"
| "dec_string_members ((k, j) # ms) m =
     (case dec_string j [] of None \<Rightarrow> None | Some v \<Rightarrow> dec_string_members ms (gm_set k v m))"

definition dec_string_map :: "json \<Rightarrow> (string, string) gomap \<Rightarrow> (string, string) gomap option" where
  "dec_string_map j old =
     (case j of JObj ms \<Rightarrow> dec_string_members ms old | JNull \<Rightarrow> Some [] | _ \<Rightarrow> None)"

definition health_fields :: "health_check field list" where
  "health_fields =
     [(''path'', \<lambda>j r. map_option (\<lambda>x. r\<lparr>hk_path := x\<rparr>) (dec_string j (hk_path r))),
      (''port'', \<lambda>j r. map_option (\<lambda>x. r\<lparr>hk_port := x\<rparr>) (dec_int j (hk_port r))),
      (''timeout_seconds'', \<lambda>j r. map_option (\<lambda>x. r\<lparr>hk_timeout_seconds := x\<rparr>) (dec_int j (hk_timeout_seconds r)))]"

definition engine_fields :: "engine_spec field list" where
  "engine_fields =
     [(''image'', \<lambda>j r. map_option (\<lambda>x. r\<lparr>es_image := x\<rparr>) (dec_string j (es_image r))),
      (''args'', \<lambda>j r. map_option (\<lambda>x. r\<lparr>es_args := x\<rparr>) (dec_strings j)),
      (''env'', \<lambda>j r. map_option (\<lambda>x. r\<lparr>es_env := x\<rparr>) (dec_string_map j (es_env r))),
      (''ports'', \<lambda>j r. map_option (\<lambda>x. r\<lparr>es_ports := x\<rparr>) (dec_list (\<lambda>x. dec_int x 0) j)),
      (''model_path'', \<lambda>j r. map_option (\<lambda>x. r\<lparr>es_model_path := x\<rparr>) (dec_string j (es_model_path r))),
      (''health_check'', \<lambda>j r. map_option (\<lambda>x. r\<lparr>es_health_check := x\<rparr>) (dec_struct health_fields j (es_health_check r)))]"

definition benchmark_fields :: "benchmark_spec field list" where
  "benchmark_fields =
     [(''kind'', \<lambda>j r. map_option (\<lambda>x. r\<lparr>bs_kind := x\<rparr>) (dec_string j (bs_kind r))),
      (''image'', \<lambda>j r. map_option (\<lambda>x. r\<lparr>bs_image := x\<rparr>) (dec_string j (bs_image r))),
      (''args'', \<lambda>j r. map_option (\<lambda>x. r\<lparr>bs_args := x\<rparr>) (dec_strings j)),
      (''env'', \<lambda>j r. map_option (\<lambda>x. r\<lparr>bs_env := x\<rparr>) (dec_string_map j (bs_env r)))]"

definition spec_fields :: "paired_run_spec field list" where
  "spec_fields =
     [(''run_id'', \<lambda>j r. map_option (\<lambda>x. r\<lparr>ps_run_id := x\<rparr>) (dec_string j (ps_run_id r))),
      (''timeout_seconds'', \<lambda>j r. map_option (\<lambda>x. r\<lparr>ps_timeout_seconds := x\<rparr>) (dec_int j (ps_timeout_seconds r))),
      (''engine'', \<lambda>j r. map_option (\<lambda>x. r\<lparr>ps_engine := x\<rparr>) (dec_struct engine_fields j (ps_engine r))),
      (''benchmark'', \<lambda>j r. map_option (\<lambda>x. r\<lparr>ps_benchmark := x\<rparr>) (dec_struct benchmark_fields j (ps_benchmark r)))]"

definition zero_spec :: paired_run_spec where
  "zero_spec =
     \<lparr>ps_run_id = [], ps_timeout_seconds = 0,
      ps_engine = \<lparr>es_image = [], es_args = [], es_env = [], es_ports = [], es_model_path = [],
        es_health_check = \<lparr>hk_path = [], hk_port = 0, hk_timeout_seconds = 0\<rparr>\<rparr>,
      ps_benchmark = \<lparr>bs_kind = [], bs_image = [], bs_args = [], bs_env = [], bs_config = [], bs_yaml_spec = []\<rparr>\<rparr>"

definition decode_spec :: "string \<Rightarrow> paired_run_spec option" where
  "decode_spec body =
     (case json_decode body of
        None \<Rightarrow> None
      | Some j \<Rightarrow>
          map_option (\<lambda>s. s\<lparr>ps_benchmark := (ps_benchmark s)
              \<lparr>bs_config := raw_benchmark_member ''config'' body,
               bs_yaml_spec := raw_benchmark_member ''yaml_spec'' body\<rparr>\<rparr>)
            (dec_struct spec_fields j zero_spec))"

section \<open>Events\<close>

text \<open>
  The members of an event, each with the text of its value; \<open>show_time\<close> prints a time in the zone of
  the host.  The results are a \<open>RawMessage\<close>, which \<open>Encode\<close> compacts and refuses if it is not valid.
\<close>

definition event_members :: "(int \<Rightarrow> string) \<Rightarrow> event \<Rightarrow> (string \<times> string) list" where
  "event_members show_time e =
     [(''type'', json_marshal (JStr (ev_type e)))] @
     (if ev_phase e = [] then [] else [(''phase'', json_marshal (JStr (ev_phase e)))]) @
     (if ev_source e = [] then [] else [(''source'', json_marshal (JStr (ev_source e)))]) @
     (if ev_line e = [] then [] else [(''line'', json_marshal (JStr (ev_line e)))]) @
     [(''timestamp'', json_marshal (JStr (case ev_time e of None \<Rightarrow> zero_time | Some t \<Rightarrow> show_time t)))] @
     (if ev_results e = [] then [] else [(''results'', compact False (ev_results e))]) @
     (if ev_duration_ms e = 0 then [] else [(''duration_ms'', json_marshal (JNum (show_int (ev_duration_ms e))))]) @
     (if ev_error e = [] then [] else [(''error'', json_marshal (JStr (ev_error e)))])"

definition event_text :: "(int \<Rightarrow> string) \<Rightarrow> event \<Rightarrow> string option" where
  "event_text show_time e =
     (if ev_results e \<noteq> [] \<and> \<not> json_valid (ev_results e) then None
      else Some (''{'' @ go_join '','' (map (\<lambda>(k, t). quote k @ '':'' @ t) (event_members show_time e)) @ ''}''))"

section \<open>The handler\<close>

definition default_benchmark_timeout :: int where
  "default_benchmark_timeout = 3600000000000"

definition run_timeout :: "paired_run_spec \<Rightarrow> int" where
  "run_timeout spec =
     (if 0 < ps_timeout_seconds spec then seconds (ps_timeout_seconds spec) else default_benchmark_timeout)"

text \<open>The loop over the channel; an error of a write or of \<open>Encode\<close> ends it.\<close>

fun stream_events ::
  "'w writer \<Rightarrow> ('w \<Rightarrow> 'w) \<Rightarrow> (event \<Rightarrow> string option) \<Rightarrow> event list \<Rightarrow> 'w \<Rightarrow> 'w" where
  "stream_events ops flush text [] w = w"
| "stream_events ops flush text (e # es) w =
     (case w_write ops ''data: '' w of
        (Inl _, w1) \<Rightarrow> w1
      | (Inr _, w1) \<Rightarrow>
          (case text e of
             None \<Rightarrow> w1
           | Some t \<Rightarrow>
               (case w_write ops (t @ [lf]) w1 of
                  (Inl _, w2) \<Rightarrow> w2
                | (Inr _, w2) \<Rightarrow>
                    (case w_write ops [lf] w2 of
                       (Inl _, w3) \<Rightarrow> w3
                     | (Inr _, w3) \<Rightarrow> stream_events ops flush text es (flush w3)))))"

text \<open>
  The runner is given the specification and the time limit; \<open>leaves\<close> is after how many events the
  request's context is seen to be done, if the client goes away.
\<close>

type_synonym 's paired_runner = "paired_run_spec \<Rightarrow> int \<Rightarrow> 's \<Rightarrow> event list \<times> 's"

definition channel_until :: "nat option \<Rightarrow> event list \<Rightarrow> event list" where
  "channel_until leaves evs = (case leaves of None \<Rightarrow> evs | Some k \<Rightarrow> take k evs)"

definition run_id_error :: "(nat \<Rightarrow> bool) \<Rightarrow> string \<Rightarrow> string" where
  "run_id_error printable i =
     ''run_id '' @ go_quote printable i @ '' is invalid: must match [a-zA-Z0-9_-]+''"

definition benchmark_run ::
  "'w writer \<Rightarrow> (nat \<Rightarrow> bool) \<Rightarrow> (int \<Rightarrow> string) \<Rightarrow> nat option \<Rightarrow> 's paired_runner \<Rightarrow> ('w, 's) handler" where
  "benchmark_run ops printable show_time leaves runner req s w =
     (case decode_spec (hr_body req) of
        None \<Rightarrow> (s, write_error ops 400 ''invalid request body'' w)
      | Some spec \<Rightarrow>
          if ps_run_id spec = [] then (s, write_error ops 400 ''run_id is required'' w)
          else if \<not> validate_run_id (ps_run_id spec) then
            (s, write_error ops 400 (run_id_error printable (ps_run_id spec)) w)
          else if es_image (ps_engine spec) = [] then (s, write_error ops 400 ''engine.image is required'' w)
          else if bs_image (ps_benchmark spec) = [] then (s, write_error ops 400 ''benchmark.image is required'' w)
          else case w_flush ops of
            None \<Rightarrow> (s, write_error ops 500 ''streaming not supported'' w)
          | Some flush \<Rightarrow>
              (case runner spec (run_timeout spec) s of
                 (evs, s') \<Rightarrow>
                   (s', stream_events ops flush (event_text show_time) (channel_until leaves evs)
                          (flush (sse_headers ops w)))))"

section \<open>What the client reads\<close>

lemma one_line_join: "(\<forall>x \<in> set xs. one_line x) \<Longrightarrow> one_line sep \<Longrightarrow> one_line (go_join sep xs)"
  by (induction sep xs rule: go_join.induct) auto

lemma one_line_json: "json_ok j \<Longrightarrow> one_line (json_marshal j)"
  by (simp add: json_marshal_def one_line_marshal)

lemma one_line_str [simp]: "one_line (json_marshal (JStr s))"
  by (rule one_line_json) simp

lemma one_line_int [simp]: "one_line (json_marshal (JNum (show_int i)))"
  by (rule one_line_json) (rule json_ok_show_int)

lemma event_one_line:
  assumes "event_text show_time e = Some t"
  shows "one_line t"
proof -
  have "\<forall>m \<in> set (event_members show_time e). one_line (snd m)"
    using assms compact_one_line
    by (auto simp: event_members_def event_text_def split: if_splits)
  then have "\<forall>x \<in> set (map (\<lambda>(k, t). quote k @ '':'' @ t) (event_members show_time e)). one_line x"
    by (auto simp: quote_def one_line_esc)
  then show ?thesis
    using assms by (auto simp: event_text_def one_line_join split: if_splits)
qed


text \<open>
  The body of a response while events are streamed: whole frames, or the last one cut off where the
  connection was lost or an event could not be encoded.
\<close>

fun streamed :: "(event \<Rightarrow> string option) \<Rightarrow> event list \<Rightarrow> string \<Rightarrow> bool" where
  "streamed text [] b \<longleftrightarrow> b = []"
| "streamed text (e # es) b \<longleftrightarrow>
     b = [] \<or> b = ''data: '' \<or>
     (\<exists>t. text e = Some t \<and>
        (b = ''data: '' @ t @ [CHR 0x0A] \<or> (\<exists>b'. b = frame t @ b' \<and> streamed text es b')))"

lemma sse_parse_Nil [simp]: "sse_parse [] = []"
  using sse_cut_off [of "[]" "[]"] by simp

lemma streamed_parse:
  assumes "\<And>e t. text e = Some t \<Longrightarrow> one_line t"
  shows "streamed text evs b \<Longrightarrow> \<exists>k \<le> length evs. sse_parse b = map (\<lambda>e. ([], the (text e))) (take k evs)"
proof (induction evs arbitrary: b)
  case (Cons e es)
  consider "sse_parse b = []" | t b' where "text e = Some t" "b = frame t @ b'" "streamed text es b'"
    using Cons.prems assms sse_cut_off [of _ b] by (metis one_line_Nil streamed.simps(2))
  then show ?case
  proof cases
    case 1
    then show ?thesis by (intro exI [of _ 0]) simp
  next
    case (2 t b')
    obtain k where "k \<le> length es" and "sse_parse b' = map (\<lambda>e. ([], the (text e))) (take k es)"
      using Cons.IH [OF 2(3)] by blast
    then show ?thesis
      using sse_frame [OF assms [OF 2(1)], of b'] 2(1,2) by (intro exI [of _ "Suc k"]) simp
  qed
qed simp

lemma write_body_ok:
  assumes "rs_sent r = Some (200, h)"
  shows "write_body s r = (if rs_left r = Some 0 then (Inl ''write: broken pipe'', r)
    else (Inr (), r\<lparr>rs_body := rs_body r @ s, rs_left := map_option (\<lambda>n. n - 1) (rs_left r)\<rparr>))"
  using assms
  by (auto simp: write_body_def send_header_def sent_status_def body_allowed_def Let_def split: option.split)


context http_writer
begin

lemma write_cases:
  assumes "rs_sent (resp w) = Some (200, h)"
  obtains (lost) w1 e where "w_write ops s w = (Inl e, w1)" "resp w1 = resp w" "rs_left (resp w) = Some 0"
  | (written) w1 where "w_write ops s w = (Inr (), w1)" "rs_body (resp w1) = rs_body (resp w) @ s"
      "rs_sent (resp w1) = Some (200, h)" "rs_left (resp w) = None \<Longrightarrow> rs_left (resp w1) = None"
proof -
  obtain x w1 where x: "w_write ops s w = (x, w1)" by force
  then have "(x, resp w1) = write_body s (resp w)"
    using write_resp [of s w] by (metis fst_conv prod.collapse snd_conv)
  then show ?thesis
    using x assms lost written by (auto simp: write_body_ok [OF assms] split: if_splits)
qed

lemma flush_keeps:
  assumes "w_flush ops = Some flush" and "rs_sent (resp w) = Some (200, h)"
  shows "rs_body (resp (flush w)) = rs_body (resp w)" "rs_sent (resp (flush w)) = Some (200, h)"
    "rs_left (resp (flush w)) = rs_left (resp w)"
  using assms(2) flush_resp [OF assms(1), of w] by (simp_all add: flush_body_def send_header_def Let_def)

lemma stream_resp:
  assumes f: "w_flush ops = Some flush"
  shows "rs_sent (resp w) = Some (200, h) \<Longrightarrow>
    \<exists>b. rs_body (resp (stream_events ops flush text evs w)) = rs_body (resp w) @ b \<and> streamed text evs b \<and>
      rs_sent (resp (stream_events ops flush text evs w)) = Some (200, h) \<and>
      (rs_left (resp w) = None \<longrightarrow> (\<forall>e \<in> set evs. text e \<noteq> None) \<longrightarrow>
         b = concat (map (\<lambda>e. frame (the (text e))) evs))"
proof (induction evs arbitrary: w)
  case (Cons e es)
  from Cons.prems show ?case
  proof (cases rule: write_cases [where s = "''data: ''"])
    case (lost w1 er)
    then show ?thesis using Cons.prems by simp
  next
    case (written w1)
    show ?thesis
    proof (cases "text e")
      case None
      then show ?thesis using written by simp
    next
      case (Some t)
      note first = written
      from first(3) show ?thesis
      proof (cases rule: write_cases [where s = "t @ [lf]"])
        case (lost w2 er)
        then have "rs_left (resp w) \<noteq> None"
          using first(4) by auto
        then show ?thesis using Some first lost by auto
      next
        case (written w2)
        note second = written
        from second(3) show ?thesis
        proof (cases rule: write_cases [where s = "[lf]"])
          case (lost w3 er)
          then have "rs_left (resp w) \<noteq> None"
            using first(4) second(4) by auto
          then show ?thesis using Some first second lost by (auto simp: lf_def)
        next
          case (written w3)
          obtain w4 where w4_def: "w4 = flush w3" by simp
          have w4: "rs_sent (resp w4) = Some (200, h)" "rs_body (resp w4) = rs_body (resp w) @ frame t"
            "rs_left (resp w) = None \<Longrightarrow> rs_left (resp w4) = None"
            using first second written flush_keeps [OF f written(3)] by (simp_all add: w4_def frame_def)
          have run: "stream_events ops flush text (e # es) w = stream_events ops flush text es w4"
            using Some first(1) second(1) written(1) by (simp add: w4_def)
          obtain b where b: "rs_body (resp (stream_events ops flush text es w4)) = rs_body (resp w4) @ b"
            "streamed text es b" "rs_sent (resp (stream_events ops flush text es w4)) = Some (200, h)"
            "rs_left (resp w4) = None \<longrightarrow> (\<forall>e \<in> set es. text e \<noteq> None) \<longrightarrow> b = concat (map (\<lambda>e. frame (the (text e))) es)"
            using Cons.IH [OF w4(1)] by (elim exE conjE)
          have "streamed text (e # es) (frame t @ b)"
            using Some b(2) by (simp only: streamed.simps) blast
          moreover have "rs_body (resp w4) @ b = rs_body (resp w) @ frame t @ b"
            by (simp add: w4(2))
          moreover have "rs_left (resp w) = None \<longrightarrow> (\<forall>e \<in> set (e # es). text e \<noteq> None) \<longrightarrow>
              frame t @ b = concat (map (\<lambda>e. frame (the (text e))) (e # es))"
            using b(4) w4(3) Some by simp
          ultimately show ?thesis
            unfolding run using b(1,3) by (intro exI [of _ "frame t @ b"] conjI) simp_all
        qed
      qed
    qed
  qed
qed simp

lemma sse_start:
  assumes "w_flush ops = Some flush" and "rs_sent (resp w) = None"
  shows "rs_sent (resp (flush (sse_headers ops w))) =
      Some (200, gm_set ''Connection'' ''keep-alive'' (gm_set ''Cache-Control'' ''no-cache''
        (gm_set ''Content-Type'' ''text/event-stream'' (rs_header (resp w)))))"
    "rs_body (resp (flush (sse_headers ops w))) = rs_body (resp w)"
    "rs_left (resp (flush (sse_headers ops w))) = rs_left (resp w)"
  using assms(2) flush_resp [OF assms(1), of "sse_headers ops w"]
  by (simp_all add: sse_headers_def set_resp set_header_def flush_body_def send_header_def Let_def)

end

section \<open>Properties\<close>

text \<open>The response of the server behind the logging middleware, from the start.\<close>

definition logged_start :: "nat option \<Rightarrow> response logged" where
  "logged_start left = \<lparr>lw_inner = new_response left, lw_status = 200\<rparr>"

lemma stream_status: "lw_status (stream_events (logged_writer ops) (logged_flush ops) text evs w) = lw_status w"
proof (induction evs arbitrary: w)
  case (Cons e es)
  have keeps: "lw_status (snd (w_write (logged_writer ops) s w)) = lw_status w" for s w
    by (simp add: logged_writer_def split: prod.split)
  have "lw_status (logged_flush ops w) = lw_status w" for w
    by (simp add: logged_flush_def split: option.split)
  then show ?case
    using Cons by (simp add: keeps case_prod_unfold split: sum.split option.split)
qed simp

lemma benchmark_streams:
  assumes "decode_spec (hr_body req) = Some spec" and "validate_run_id (ps_run_id spec)"
    and "es_image (ps_engine spec) \<noteq> []" and "bs_image (ps_benchmark spec) \<noteq> []"
    and "runner spec (run_timeout spec) s = (evs, s')"
    and "benchmark_run (logged_writer server_writer) printable show_time leaves runner req s (logged_start left) = (s'', w)"
  shows "s'' = s'" and "sent_status (lw_inner w) = 200" and "lw_status w = 200"
    and "streamed (event_text show_time) (channel_until leaves evs) (rs_body (lw_inner w))"
    and "left = None \<Longrightarrow> \<forall>e \<in> set evs. event_text show_time e \<noteq> None \<Longrightarrow>
      rs_body (lw_inner w) = concat (map frame (map (\<lambda>e. the (event_text show_time e)) (channel_until leaves evs)))"
proof -
  let ?ops = "logged_writer server_writer" and ?f = "logged_flush server_writer"
  let ?w0 = "?f (sse_headers ?ops (logged_start left))"
  let ?evs = "channel_until leaves evs" and ?text = "event_text show_time"
  have "ps_run_id spec \<noteq> []"
    using assms(2) by (auto simp: validate_run_id_def)
  moreover have "w_flush ?ops = Some ?f"
    by (rule logged.can_flush)
  ultimately have w: "s'' = s'" "w = stream_events ?ops ?f ?text ?evs ?w0"
    using assms by (auto simp: benchmark_run_def)
  have fresh: "rs_sent (lw_inner (logged_start left)) = None"
    by (simp add: logged_start_def new_response_def)
  note start = logged.sse_start [OF logged.can_flush fresh]
  have b0: "rs_body (lw_inner ?w0) = []" "rs_left (lw_inner ?w0) = left"
    using start(2,3) by (simp_all add: logged_start_def new_response_def)
  obtain b where b: "rs_body (lw_inner w) = b" "streamed ?text ?evs b"
    "\<exists>h. rs_sent (lw_inner w) = Some (200, h)"
    "left = None \<longrightarrow> (\<forall>e \<in> set ?evs. ?text e \<noteq> None) \<longrightarrow> b = concat (map (\<lambda>e. frame (the (?text e))) ?evs)"
    using logged.stream_resp [OF logged.can_flush start(1), of ?text ?evs] b0 unfolding w(2) by auto
  show "s'' = s'" by (rule w)
  show "sent_status (lw_inner w) = 200"
    using b(3) by (auto simp: sent_status_def)
  show "lw_status w = 200"
    unfolding w(2) stream_status by (simp add: logged_flush_def sse_headers_def logged_start_def logged_writer_def)
  show "streamed ?text ?evs (rs_body (lw_inner w))"
    using b by simp
  show "rs_body (lw_inner w) = concat (map frame (map (\<lambda>e. the (?text e)) ?evs))"
    if "left = None" and "\<forall>e \<in> set evs. ?text e \<noteq> None"
  proof -
    have "set ?evs \<subseteq> set evs"
      by (auto simp: channel_until_def split: option.splits dest: in_set_takeD)
    then show ?thesis
      using that b(1,4) by (auto simp: comp_def)
  qed
qed

text \<open>C12. The client of a benchmark run can rely on the stream: whatever the engine, the benchmark and
  their output are, whenever it leaves and however many writes the connection takes, the events it
  parses are the first events of the run, each as the JSON text of one of them, in order and none
  twice; if the connection holds and every event can be encoded it gets all of them.  Log lines may be
  any bytes: in the JSON text of an event a byte that is not UTF-8 stands as U+FFFD, so the text, not
  every byte of the line, is what arrives.\<close>

theorem benchmark_stream_exact:
  assumes "decode_spec (hr_body req) = Some spec" and "validate_run_id (ps_run_id spec)"
    and "es_image (ps_engine spec) \<noteq> []" and "bs_image (ps_benchmark spec) \<noteq> []"
    and "runner spec (run_timeout spec) s = (evs, s')"
    and "benchmark_run (logged_writer server_writer) printable show_time leaves runner req s (logged_start left) = (s'', w)"
  shows "s'' = s' \<and> sent_status (lw_inner w) = 200 \<and> lw_status w = 200 \<and>
    (\<exists>k \<le> length (channel_until leaves evs). sse_parse (rs_body (lw_inner w)) =
       map (\<lambda>e. ([], the (event_text show_time e))) (take k (channel_until leaves evs))) \<and>
    (left = None \<longrightarrow> (\<forall>e \<in> set evs. event_text show_time e \<noteq> None) \<longrightarrow>
       sse_parse (rs_body (lw_inner w)) = map (\<lambda>e. ([], the (event_text show_time e))) (channel_until leaves evs))"
proof -
  note run = benchmark_streams [where left = left, OF assms]
  let ?evs = "channel_until leaves evs" and ?text = "event_text show_time"
  have "sse_parse (rs_body (lw_inner w)) = map (\<lambda>e. ([], the (?text e))) ?evs"
    if "left = None" and "\<forall>e \<in> set evs. ?text e \<noteq> None"
  proof -
    have "set ?evs \<subseteq> set evs"
      by (auto simp: channel_until_def split: option.splits dest: in_set_takeD)
    then have "\<forall>p \<in> set (map (\<lambda>e. the (?text e)) ?evs). one_line p"
      using that(2) event_one_line by fastforce
    then show ?thesis
      using sse_frames [of "map (\<lambda>e. the (?text e)) ?evs" "[]"] run(5) [OF that] by simp
  qed
  then show ?thesis
    using run(1-3) streamed_parse [OF event_one_line run(4)] by auto
qed

definition bench_body :: string where
  "bench_body = json_marshal (JObj
     [(''run_id'', JStr ''r1''),
      (''engine'', JObj [(''image'', JStr ''vllm'')]),
      (''benchmark'', JObj [(''image'', JStr ''bench''), (''kind'', JStr ''container''), (''config'', JNum ''1'')])])"

lemma bench_decoded: "decode_spec bench_body =
    Some (zero_spec\<lparr>ps_run_id := ''r1'', ps_engine := (ps_engine zero_spec)\<lparr>es_image := ''vllm''\<rparr>,
      ps_benchmark := (ps_benchmark zero_spec)\<lparr>bs_image := ''bench'', bs_kind := ''container'', bs_config := ''1''\<rparr>\<rparr>)"
  by code_simp

definition bench_request :: request where
  "bench_request = \<lparr>hr_method = ''POST'', hr_path = ''/api/v1/benchmark'', hr_headers = [], hr_body = bench_body\<rparr>"

definition one_event :: event where
  "one_event = (status_event ''creating-network'')\<lparr>ev_line := [CHR 0x0A]\<rparr>"

theorem benchmark_stream_exact_witness:
  "sse_parse (rs_body (lw_inner (snd (benchmark_run (logged_writer server_writer) (\<lambda>_. True) (\<lambda>_. ''now'') None
      (\<lambda>spec limit s. ([one_event], s)) bench_request () (logged_start None))))) =
     [([], the (event_text (\<lambda>_. ''now'') one_event))]"
proof -
  let ?r = "benchmark_run (logged_writer server_writer) (\<lambda>_. True) (\<lambda>_. ''now'') None
      (\<lambda>spec limit s. ([one_event], s)) bench_request () (logged_start None)"
  have "decode_spec (hr_body bench_request) =
      Some (zero_spec\<lparr>ps_run_id := ''r1'', ps_engine := (ps_engine zero_spec)\<lparr>es_image := ''vllm''\<rparr>,
        ps_benchmark := (ps_benchmark zero_spec)\<lparr>bs_image := ''bench'', bs_kind := ''container'', bs_config := ''1''\<rparr>\<rparr>)"
    unfolding bench_request_def request.simps by (rule bench_decoded)
  moreover have "validate_run_id ''r1''"
    by code_simp
  moreover have "event_text (\<lambda>_. ''now'') one_event \<noteq> None"
    by (simp add: event_text_def one_event_def status_event_def blank_event_def)
  moreover have "?r = ((), snd ?r)"
    by (cases ?r) simp
  ultimately show ?thesis
    using benchmark_stream_exact [of bench_request _ "\<lambda>spec limit s. ([one_event], s)" "()" "[one_event]" "()"
        "\<lambda>_. True" "\<lambda>_. ''now''" None None "()" "snd ?r"]
    by (auto simp: zero_spec_def channel_until_def)
qed

text \<open>The kind of the benchmark is not checked by the handler: a request whose only fault is an
  unknown kind is answered with status 200 and an event stream without a single event, and no
  container is created.\<close>

theorem unknown_kind_is_silent:
  assumes "decode_spec (hr_body req) = Some spec" and "validate_run_id (ps_run_id spec)"
    and "es_image (ps_engine spec) \<noteq> []" and "bs_image (ps_benchmark spec) \<noteq> []"
    and "bs_kind (ps_benchmark spec) \<notin> {[], ''yaml'', ''container''}"
    and "benchmark_run (logged_writer server_writer) printable show_time leaves
      (\<lambda>spec limit h. case paired_run fuel (env limit) v spec of (e, r) \<Rightarrow> (r_sent r, h @ r_calls r)) req h (logged_start left) = (h', w)"
  shows "h' = h \<and> sent_status (lw_inner w) = 200 \<and> sse_parse (rs_body (lw_inner w)) = []"
proof -
  have run_id: "ps_run_id spec \<noteq> []"
    using assms(2) by (auto simp: validate_run_id_def)
  have bad: "paired_run fuel (env limit) v spec = (Inl BadKind, fresh_run)" for limit
    using assms(2-5) run_id by (simp add: paired_run_def validate_spec_def)
  have "(case paired_run fuel (env (run_timeout spec)) v spec of (e, r) \<Rightarrow> (r_sent r, h @ r_calls r)) = ([], h)"
    by (simp add: bad fresh_run_def)
  then show ?thesis
    using benchmark_streams [OF assms(1-4) _ assms(6)] by (auto simp: channel_until_def split: option.splits)
qed

definition docker_kind_request :: request where
  "docker_kind_request = \<lparr>hr_method = ''POST'', hr_path = ''/api/v1/benchmark'', hr_headers = [],
     hr_body = json_marshal (JObj
       [(''run_id'', JStr ''r1''), (''engine'', JObj [(''image'', JStr ''vllm'')]),
        (''benchmark'', JObj [(''image'', JStr ''bench''), (''kind'', JStr ''docker'')])])\<rparr>"

lemma docker_kind_decoded: "decode_spec (hr_body docker_kind_request) =
    Some (zero_spec\<lparr>ps_run_id := ''r1'', ps_engine := (ps_engine zero_spec)\<lparr>es_image := ''vllm''\<rparr>,
      ps_benchmark := (ps_benchmark zero_spec)\<lparr>bs_image := ''bench'', bs_kind := ''docker''\<rparr>\<rparr>)"
  by code_simp

definition idle_env :: run_env where
  "idle_env =
     \<lparr>re_env = \<lparr>en_do = \<lambda>h c. Inr (), en_create = \<lambda>h c. Inr ''c1'', en_inspect = \<lambda>h c. Inr None,
        en_list = \<lambda>h. Inr [], en_wait = \<lambda>h i. WaitExit 0 [], en_copy_from = \<lambda>h c. Inr [],
        en_http = \<lambda>h u. None, en_clock = \<lambda>h. 0, en_ctx = \<lambda>h. None\<rparr>,
      re_room = \<lambda>r. True, re_room_wait = \<lambda>r. True\<rparr>"

theorem unknown_kind_is_silent_witness:
  "sse_parse (rs_body (lw_inner (snd (benchmark_run (logged_writer server_writer) (\<lambda>_. True) (\<lambda>_. ''now'') None
     (\<lambda>spec limit h. case paired_run 1 idle_env ''nvidia'' spec of (e, r) \<Rightarrow> (r_sent r, h @ r_calls r))
     docker_kind_request [] (logged_start None))))) = []"
proof -
  let ?runner = "\<lambda>spec limit h. case paired_run 1 idle_env ''nvidia'' spec of (e, r) \<Rightarrow> (r_sent r, h @ r_calls r)"
  let ?r = "benchmark_run (logged_writer server_writer) (\<lambda>_. True) (\<lambda>_. ''now'') None ?runner docker_kind_request [] (logged_start None)"
  have "validate_run_id ''r1''"
    by code_simp
  then show ?thesis
    using unknown_kind_is_silent [OF docker_kind_decoded, of "\<lambda>_. True" "\<lambda>_. ''now''" None 1 "\<lambda>_. idle_env" "''nvidia''" "[]" None
        "fst ?r" "snd ?r"]
    by (simp add: zero_spec_def)
qed

end
