(* ===== verification/Http_Router.thy ===== *)
theory Http_Router
  imports Http_Handlers Http_Benchmark
begin

text \<open>
  The router of \<open>internal/api/router.go\<close>: the table of routes it registers with chi, the handler of
  each endpoint over the state of the whole service, and the way of a request through recovery,
  logging and authentication.  chi itself is a parameter: a function that selects a route, of which
  the locale \<open>chi_mux\<close> states what chi documents, for requests that it routes by their \<open>URL.Path\<close>.
\<close>

section \<open>Routes\<close>

datatype endpoint =
    HealthE | ReadyE | MetricsE
  | SystemInfoE | GpuStatusE | GpuMetricsE
  | ContainerListE | ContainerCreateE | ContainerInspectE | ContainerStartE | ContainerStopE
  | ContainerRestartE | ContainerRemoveE | ContainerLogsE
  | ExecE
  | ModelsListE | ModelsFetchE | ModelsDeleteE
  | BenchmarkE

record route =
  rt_method :: string
  rt_pattern :: string
  rt_auth :: bool
  rt_endpoint :: endpoint

definition open_route :: "string \<Rightarrow> endpoint \<Rightarrow> route" where
  "open_route path e = \<lparr>rt_method = ''GET'', rt_pattern = path, rt_auth = False, rt_endpoint = e\<rparr>"

definition api_route :: "string \<Rightarrow> string \<Rightarrow> endpoint \<Rightarrow> route" where
  "api_route meth path e = \<lparr>rt_method = meth, rt_pattern = ''/api/v1'' @ path, rt_auth = True, rt_endpoint = e\<rparr>"

text \<open>A mounted subrouter answers for its prefix with and without the slash.\<close>

definition new_router :: "bool \<Rightarrow> bool \<Rightarrow> route list" where
  "new_router has_models has_runner =
     [open_route ''/health'' HealthE, open_route ''/ready'' ReadyE, open_route ''/metrics'' MetricsE,
      api_route ''GET'' ''/system/info'' SystemInfoE,
      api_route ''GET'' ''/gpu/status'' GpuStatusE, api_route ''GET'' ''/gpu/metrics'' GpuMetricsE,
      api_route ''GET'' ''/containers'' ContainerListE, api_route ''POST'' ''/containers'' ContainerCreateE,
      api_route ''GET'' ''/containers/{id}'' ContainerInspectE,
      api_route ''POST'' ''/containers/{id}/start'' ContainerStartE,
      api_route ''POST'' ''/containers/{id}/stop'' ContainerStopE,
      api_route ''POST'' ''/containers/{id}/restart'' ContainerRestartE,
      api_route ''DELETE'' ''/containers/{id}'' ContainerRemoveE,
      api_route ''GET'' ''/containers/{id}/logs'' ContainerLogsE,
      api_route ''POST'' ''/exec'' ExecE] @
     (if has_models then
        [api_route ''GET'' ''/models'' ModelsListE, api_route ''GET'' ''/models/'' ModelsListE,
         api_route ''POST'' ''/models/fetch'' ModelsFetchE, api_route ''DELETE'' ''/models/{id}'' ModelsDeleteE]
      else []) @
     (if has_runner then [api_route ''POST'' ''/benchmark'' BenchmarkE] else [])"

text \<open>
  A pattern against a path, segment by segment; \<open>{id}\<close> takes one segment that is not empty.  The
  result is the parameter, empty where the pattern has none.
\<close>

fun seg_match :: "string list \<Rightarrow> string list \<Rightarrow> string option" where
  "seg_match [] [] = Some []"
| "seg_match (p # ps) (s # ss) =
     (if has_prefix p ''{'' then (if s = [] \<or> seg_match ps ss = None then None else Some s)
      else if p = s then seg_match ps ss
      else None)"
| "seg_match _ _ = None"

definition path_matches :: "string \<Rightarrow> string \<Rightarrow> string option" where
  "path_matches pattern path = seg_match (go_split ''/'' pattern) (go_split ''/'' path)"

type_synonym mux = "route list \<Rightarrow> request \<Rightarrow> (route \<times> string) option"

locale chi_mux =
  fixes mux :: mux
  assumes routed: "mux rs req = Some (r, i) \<Longrightarrow>
      r \<in> set rs \<and> rt_method r = hr_method req \<and> path_matches (rt_pattern r) (hr_path req) = Some i"
    and found: "mux rs req = None \<Longrightarrow> r \<in> set rs \<Longrightarrow> rt_method r = hr_method req \<Longrightarrow>
      path_matches (rt_pattern r) (hr_path req) = None"

text \<open>The reference: the first route that matches.\<close>

fun first_match :: mux where
  "first_match [] req = None"
| "first_match (r # rs) req =
     (if rt_method r = hr_method req then
        (case path_matches (rt_pattern r) (hr_path req) of
           Some i \<Rightarrow> Some (r, i)
         | None \<Rightarrow> first_match rs req)
      else first_match rs req)"

interpretation reference: chi_mux first_match
proof
  show "r \<in> set rs \<and> rt_method r = hr_method req \<and> path_matches (rt_pattern r) (hr_path req) = Some i"
    if "first_match rs req = Some (r, i)" for rs req r i
    using that by (induction rs) (auto split: if_splits option.splits)
  show "path_matches (rt_pattern r) (hr_path req) = None"
    if "first_match rs req = None" "r \<in> set rs" "rt_method r = hr_method req" for rs req r
    using that by (induction rs) (auto split: if_splits option.splits)
qed

section \<open>The service\<close>

record app =
  ap_models :: sys
  ap_docker :: history
  ap_poller :: poller
  ap_commands :: commands

text \<open>What the handlers ask of the world around the service.\<close>

record api_env =
  ae_token :: string
  ae_vendor :: vendor
  ae_docker :: env
  ae_logs :: "history \<Rightarrow> string \<Rightarrow> (string, reads) result"
  ae_inspect_json :: "inspection \<Rightarrow> json"
  ae_ping :: "string option"
  ae_version :: string
  ae_checks :: "checker list"
  ae_order :: "nat list"
  ae_host :: host
  ae_float_text :: "go_float \<Rightarrow> string option"
  ae_printable :: "nat \<Rightarrow> bool"
  ae_exec :: "commands \<Rightarrow> runner"
  ae_store :: "sys model_store"
  ae_error_text :: "store_error \<Rightarrow> string"
  ae_show_time :: "int \<Rightarrow> string"
  ae_leaves :: "nat option"
  ae_runner :: "history paired_runner"

text \<open>A handler of one component as a handler of the service.\<close>

definition on_models :: "('w, sys) handler \<Rightarrow> ('w, app) handler" where
  "on_models h req a w = (case h req (ap_models a) w of (s, w') \<Rightarrow> (a\<lparr>ap_models := s\<rparr>, w'))"

definition on_docker :: "('w, history) handler \<Rightarrow> ('w, app) handler" where
  "on_docker h req a w = (case h req (ap_docker a) w of (s, w') \<Rightarrow> (a\<lparr>ap_docker := s\<rparr>, w'))"

definition on_poller :: "('w, poller) handler \<Rightarrow> ('w, app) handler" where
  "on_poller h req a w = (case h req (ap_poller a) w of (s, w') \<Rightarrow> (a\<lparr>ap_poller := s\<rparr>, w'))"

definition on_commands :: "('w, commands) handler \<Rightarrow> ('w, app) handler" where
  "on_commands h req a w = (case h req (ap_commands a) w of (s, w') \<Rightarrow> (a\<lparr>ap_commands := s\<rparr>, w'))"

definition endpoint_handler :: "api_env \<Rightarrow> 'w writer \<Rightarrow> endpoint \<Rightarrow> string \<Rightarrow> ('w, app) handler" where
  "endpoint_handler env ops e i =
     (case e of
        HealthE \<Rightarrow> health_handler ops (ae_version env) (ae_order env) (ae_checks env)
      | ReadyE \<Rightarrow> ready_handler ops (ae_ping env)
      | MetricsE \<Rightarrow> on_poller (gpu_metrics ops (ae_printable env))
      | SystemInfoE \<Rightarrow> system_info_handler ops (ae_float_text env) (ae_host env)
      | GpuStatusE \<Rightarrow> on_poller (gpu_status ops)
      | GpuMetricsE \<Rightarrow> on_poller (gpu_metrics ops (ae_printable env))
      | ContainerListE \<Rightarrow> on_docker (container_list ops (ae_docker env))
      | ContainerCreateE \<Rightarrow> on_docker (container_create ops (ae_docker env) (ae_vendor env))
      | ContainerInspectE \<Rightarrow> on_docker (container_inspect ops (ae_docker env) (ae_inspect_json env) i)
      | ContainerStartE \<Rightarrow> on_docker (container_start ops (ae_docker env) i)
      | ContainerStopE \<Rightarrow> on_docker (container_stop ops (ae_docker env) i)
      | ContainerRestartE \<Rightarrow> on_docker (container_restart ops (ae_docker env) i)
      | ContainerRemoveE \<Rightarrow> on_docker (container_remove ops (ae_docker env) i)
      | ContainerLogsE \<Rightarrow> on_docker (container_logs ops (ae_logs env) i)
      | ExecE \<Rightarrow> on_commands (exec_handler ops (ae_exec env) (ae_printable env))
      | ModelsListE \<Rightarrow> on_models (models_list ops (ae_store env))
      | ModelsFetchE \<Rightarrow> on_models (models_fetch ops (ae_error_text env) (ae_store env))
      | ModelsDeleteE \<Rightarrow> on_models (models_delete ops (ae_store env) i)
      | BenchmarkE \<Rightarrow> on_docker (benchmark_run ops (ae_printable env) (ae_show_time env) (ae_leaves env) (ae_runner env)))"

definition skip_paths :: "string list" where
  "skip_paths = [''/health'', ''/ready'', ''/metrics'']"

definition route_handler :: "api_env \<Rightarrow> 'w writer \<Rightarrow> route \<Rightarrow> string \<Rightarrow> ('w, app) handler" where
  "route_handler env ops r i =
     (if rt_auth r then auth (ae_token env) skip_paths ops (endpoint_handler env ops (rt_endpoint r) i)
      else endpoint_handler env ops (rt_endpoint r) i)"

text \<open>
  The subrouter for \<open>/api/v1\<close> is mounted inside the group that authenticates: chi gives it every request
  at or below that path whose method is one chi knows, so that those no route takes are authenticated
  as well.  The answer of chi to a request that no route takes is a parameter.
\<close>

definition chi_methods :: "string list" where
  "chi_methods = [''CONNECT'', ''DELETE'', ''GET'', ''HEAD'', ''OPTIONS'', ''PATCH'', ''POST'', ''PUT'', ''TRACE'']"

definition mounted :: "request \<Rightarrow> bool" where
  "mounted req \<longleftrightarrow> hr_method req \<in> set chi_methods \<and>
     (hr_path req = ''/api/v1'' \<or> has_prefix (hr_path req) ''/api/v1/'')"

definition router ::
  "mux \<Rightarrow> ('w writer \<Rightarrow> ('w, app) handler) \<Rightarrow> api_env \<Rightarrow> 'w writer \<Rightarrow> ('w, app) handler" where
  "router mux unrouted env ops req =
     (case mux (new_router True True) req of
        None \<Rightarrow>
          (if mounted req then auth (ae_token env) skip_paths ops (unrouted ops) req
           else unrouted ops req)
      | Some (r, i) \<Rightarrow> route_handler env ops r i req)"

definition no_panic :: "('w, 's) handler \<Rightarrow> ('w, 's) may_panic" where
  "no_panic h req s w = Returned (h req s w)"

definition serve ::
  "mux \<Rightarrow> (response logged writer \<Rightarrow> (response logged, app) handler) \<Rightarrow> api_env \<Rightarrow> nat option \<Rightarrow> request \<Rightarrow>
   app \<Rightarrow> (app \<times> log_line list) \<times> response" where
  "serve mux unrouted env left req a =
     (case recovery server_writer (logging server_writer (no_panic (router mux unrouted env (logged_writer server_writer))))
        req (a, []) (new_response left) of
      (al, r) \<Rightarrow> (al, finish_response r))"

section \<open>Writers behind the middleware\<close>

text \<open>
  Two handlers that differ in the writer only do the same to the state and to the response.
\<close>

definition same_effect :: "('w \<Rightarrow> response) \<Rightarrow> ('w, 's) handler \<Rightarrow> (response, 's) handler \<Rightarrow> bool" where
  "same_effect resp h h0 \<longleftrightarrow>
     (\<forall>req s w. fst (h req s w) = fst (h0 req s (resp w)) \<and> resp (snd (h req s w)) = snd (h0 req s (resp w)))"

lemma same_effectI:
  "(\<And>req s w. fst (h req s w) = fst (h0 req s (resp w))) \<Longrightarrow>
   (\<And>req s w. resp (snd (h req s w)) = snd (h0 req s (resp w))) \<Longrightarrow> same_effect resp h h0"
  by (simp add: same_effect_def)

lemma same_effect_on:
  "same_effect resp h h0 \<Longrightarrow> same_effect resp (on_docker h) (on_docker h0)"
  "same_effect resp h' h0' \<Longrightarrow> same_effect resp (on_models h') (on_models h0')"
  "same_effect resp h1 h01 \<Longrightarrow> same_effect resp (on_poller h1) (on_poller h01)"
  "same_effect resp h2 h02 \<Longrightarrow> same_effect resp (on_commands h2) (on_commands h02)"
  by (simp_all add: same_effect_def on_docker_def on_models_def on_poller_def on_commands_def case_prod_unfold
      del: split_paired_All)

context flushing_writer
begin

lemmas resp_simps = write_error_resp send_json_resp encode_resp code_resp set_resp
  server.write_error_resp server.send_json_resp server.encode_resp

lemma same_system: "same_effect resp (system_info_handler ops ft ho) (system_info_handler server_writer ft ho)"
  by (simp add: same_effect_def system_info_handler_def resp_simps Let_def split: option.split sum.split)

lemma same_health: "same_effect resp (health_handler ops v o1 cs) (health_handler server_writer v o1 cs)"
  by (simp add: same_effect_def health_handler_def resp_simps Let_def)

lemma same_ready: "same_effect resp (ready_handler ops p) (ready_handler server_writer p)"
  by (simp add: same_effect_def ready_handler_def resp_simps Let_def)

lemma same_status: "same_effect resp (gpu_status ops) (gpu_status server_writer)"
  by (simp add: same_effect_def gpu_status_def resp_simps)

lemma metrics_resp: "resp (fold (write_metric ops) ls w) = fold (write_metric server_writer) ls (resp w)"
  by (induction ls arbitrary: w) (simp_all add: write_metric_def write_resp)

lemma same_metrics: "same_effect resp (gpu_metrics ops pr) (gpu_metrics server_writer pr)"
  by (simp add: same_effect_def gpu_metrics_def metrics_resp resp_simps)

lemma same_containers:
  "same_effect resp (container_list ops env) (container_list server_writer env)"
  "same_effect resp (container_create ops env v) (container_create server_writer env v)"
  "same_effect resp (container_inspect ops env ij i) (container_inspect server_writer env ij i)"
  "same_effect resp (container_start ops env i) (container_start server_writer env i)"
  "same_effect resp (container_stop ops env i) (container_stop server_writer env i)"
  "same_effect resp (container_restart ops env i) (container_restart server_writer env i)"
  "same_effect resp (container_remove ops env i) (container_remove server_writer env i)"
  by (simp_all add: same_effect_def container_list_def container_create_def container_inspect_def
      container_start_def container_stop_def container_restart_def container_remove_def resp_simps
      split: prod.split sum.split option.split)

lemma same_models:
  "same_effect resp (models_list ops ms) (models_list server_writer ms)"
  "same_effect resp (models_fetch ops et ms) (models_fetch server_writer et ms)"
  "same_effect resp (models_delete ops ms i) (models_delete server_writer ms i)"
  by (simp_all add: same_effect_def models_list_def models_fetch_def models_delete_def resp_simps
      split: prod.split sum.split option.split)

lemma flush_is: "resp (flush w) = flush_body (resp w)"
  by (rule flush_resp [OF can_flush])

lemma sse_headers_resp: "resp (sse_headers ops w) = sse_headers server_writer (resp w)"
  by (simp add: sse_headers_def resp_simps)

lemma write_pair: "map_prod id resp (w_write ops s w) = write_body s (resp w)"
  using write_resp [of s w] by (simp add: prod_eq_iff)

lemma same_exec: "same_effect resp (exec_handler ops run pr) (exec_handler server_writer run pr)"
  by (simp add: same_effect_def exec_handler_def can_flush resp_simps flush_is sse_headers_resp write_resp
      Let_def split: sum.split option.split)

lemma copy_resp:
  "resp (snd (copy_reads (sse_write ops flush) rs w)) =
   snd (copy_reads (sse_write server_writer flush_body) rs (resp w))"
proof (induction rs arbitrary: w)
  case (Cons x rs)
  obtain tmp rerr where x: "x = (tmp, rerr)" by force
  have step: "sse_write server_writer flush_body (resp w) tmp = map_prod id resp (sse_write ops flush w tmp)" for w
    using write_pair [of "frame tmp" w, symmetric]
    by (simp add: sse_write_def flush_is split: prod.split sum.split)
  show ?case
    using Cons step [of w]
    by (cases "sse_write ops flush w tmp") (simp add: x split: sum.split option.split read_error.split)
qed simp

lemma same_logs: "same_effect resp (container_logs ops logs i) (container_logs server_writer logs i)"
  by (simp add: same_effect_def container_logs_def can_flush log_stream_def copy_resp flush_is sse_headers_resp
      split: sum.split)

lemma stream_resp_same:
  "resp (stream_events ops flush text evs w) = stream_events server_writer flush_body text evs (resp w)"
proof (induction evs arbitrary: w)
  case (Cons e es)
  have w: "write_body s (resp w) = (fst (w_write ops s w), resp (snd (w_write ops s w)))" for s w
    using write_pair [of s w] by (simp add: prod_eq_iff)
  show ?case
    by (simp add: Cons w flush_is case_prod_unfold split: sum.split option.split)
qed simp

lemma same_benchmark: "same_effect resp (benchmark_run ops pr st lv rn) (benchmark_run server_writer pr st lv rn)"
  by (simp add: same_effect_def benchmark_run_def can_flush resp_simps stream_resp_same flush_is sse_headers_resp
      case_prod_unfold split: option.split)

lemma same_endpoint: "same_effect resp (endpoint_handler env ops e i) (endpoint_handler env server_writer e i)"
  by (cases e) (simp_all add: endpoint_handler_def same_effect_on same_system same_health same_ready same_status
      same_metrics same_containers same_models same_exec same_logs same_benchmark)

lemma same_auth:
  "same_effect resp h h0 \<Longrightarrow> same_effect resp (auth t sk ops h) (auth t sk server_writer h0)"
  by (simp add: same_effect_def auth_def write_auth_error_def resp_simps split: list.split)

lemma same_route: "same_effect resp (route_handler env ops r i) (route_handler env server_writer r i)"
  by (simp add: route_handler_def same_endpoint same_auth)

end

end
