(* ===== verification/Http_Theorems.thy ===== *)
theory Http_Theorems
  imports Http_Router
begin

text \<open>
  The properties of the HTTP service: authentication, what the middlewares add to a handler and what
  they leave alone, the form of every response, panics, and the two text formats the handlers print.
\<close>

section \<open>The paths of the routes\<close>

lemma seg_match_static:
  "seg_match (p # ps) ss = Some i \<Longrightarrow> \<not> has_prefix p ''{'' \<Longrightarrow> \<exists>ss'. ss = p # ss' \<and> seg_match ps ss' = Some i"
  by (cases ss) (auto split: if_splits)

lemma api_pattern_split: "go_split ''/'' (''/api/v1/'' @ p) = [] # ''api'' # ''v1'' # go_split ''/'' p"
  using go_split_byte_Some [of "CHR ''/''" "[]" "''api/v1/'' @ p"]
    go_split_byte_Some [of "CHR ''/''" "''api''" "''v1/'' @ p"]
    go_split_byte_Some [of "CHR ''/''" "''v1''" p]
  by simp

lemma api_path:
  assumes "path_matches (''/api/v1/'' @ p) path = Some i"
  shows "has_prefix path ''/api/v1/''"
proof -
  have "seg_match ([] # ''api'' # ''v1'' # go_split ''/'' p) (go_split ''/'' path) = Some i"
    using assms by (simp only: path_matches_def api_pattern_split)
  then obtain ss where s: "go_split ''/'' path = [] # ''api'' # ''v1'' # ss" and "seg_match (go_split ''/'' p) ss = Some i"
    by (auto dest!: seg_match_static)
  then have "ss \<noteq> []"
    using go_split_nonempty [of "''/''" p] by (cases ss; cases "go_split ''/'' p") auto
  moreover have "path = go_join ''/'' ([] # ''api'' # ''v1'' # ss)"
    using go_join_split [of "''/''" path] unfolding s by simp
  ultimately show ?thesis
    by (cases ss) simp_all
qed

lemma open_path:
  assumes "path_matches (CHR ''/'' # p) path = Some i" and "p \<in> {''health'', ''ready'', ''metrics''}"
  shows "path = CHR ''/'' # p"
proof -
  have "go_split ''/'' (CHR ''/'' # p) = [[], p]"
    using assms(2) go_split_byte_Some [of "CHR ''/''" "[]" p] by (auto simp: go_split_byte_None)
  then have "seg_match [[], p] (go_split ''/'' path) = Some i"
    using assms(1) by (simp add: path_matches_def)
  then have "go_split ''/'' path = [[], p]"
    using assms(2) by (auto dest!: seg_match_static elim: seg_match.elims)
  then show ?thesis
    using go_join_split [of "''/''" path] by simp
qed

lemma api_route_slash: "rt_pattern (api_route m (CHR ''/'' # p) e) = ''/api/v1/'' @ p"
  by (simp add: api_route_def)

definition api_shape :: "route \<Rightarrow> bool" where
  "api_shape r \<longleftrightarrow> (\<exists>m p e. r = api_route m (CHR ''/'' # p) e)"

definition open_shape :: "route \<Rightarrow> bool" where
  "open_shape r \<longleftrightarrow> (\<exists>p e. r = open_route (CHR ''/'' # p) e \<and> p \<in> {''health'', ''ready'', ''metrics''})"

lemma shapes: "api_shape (api_route m (CHR ''/'' # p) e)"
  "p \<in> {''health'', ''ready'', ''metrics''} \<Longrightarrow> open_shape (open_route (CHR ''/'' # p) e)"
  by (auto simp: api_shape_def open_shape_def)

lemma new_router_shapes: "list_all (\<lambda>r. api_shape r \<or> open_shape r) (new_router b c)"
  by (simp add: new_router_def shapes)

lemma route_auth:
  assumes "r \<in> set (new_router b c)" and "path_matches (rt_pattern r) path = Some i"
  shows "rt_auth r \<longleftrightarrow> has_prefix path ''/api/v1/''" and "rt_auth r \<Longrightarrow> path \<notin> set skip_paths"
proof -
  consider "api_shape r" | "open_shape r"
    using assms(1) new_router_shapes [of b c] by (auto simp: list_all_iff)
  then have "rt_auth r \<and> has_prefix path ''/api/v1/'' \<or>
      \<not> rt_auth r \<and> path \<in> {''/health'', ''/ready'', ''/metrics''}"
  proof cases
    case 1
    then show ?thesis
      using assms(2) api_path by (auto simp: api_shape_def api_route_def)
  next
    case 2
    then obtain p e where p: "r = open_route (CHR ''/'' # p) e" "p \<in> {''health'', ''ready'', ''metrics''}"
      unfolding open_shape_def by blast
    then have "path = CHR ''/'' # p"
      using assms(2) open_path [of p path i] by (simp add: open_route_def)
    then show ?thesis
      using p by (auto simp: open_route_def)
  qed
  then show "rt_auth r \<longleftrightarrow> has_prefix path ''/api/v1/''" and "rt_auth r \<Longrightarrow> path \<notin> set skip_paths"
    by (auto simp: skip_paths_def)
qed

text \<open>Every request that a route below \<open>/api/v1\<close> takes comes through the mount.\<close>

lemma new_router_methods: "list_all (\<lambda>r. rt_method r \<in> set chi_methods) (new_router b c)"
  by (simp add: new_router_def open_route_def api_route_def chi_methods_def)

lemma routed_method:
  assumes "chi_mux mux" and "mux (new_router b c) req = Some (r, i)"
  shows "hr_method req \<in> set chi_methods"
  using chi_mux.routed [OF assms] new_router_methods [of b c] by (auto simp: list_all_iff)

lemma routed_mounted:
  assumes "chi_mux mux" and "mux (new_router b c) req = Some (r, i)"
  shows "mounted req \<longleftrightarrow> has_prefix (hr_path req) ''/api/v1/''"
proof -
  note r = chi_mux.routed [OF assms]
  have "hr_method req \<in> set chi_methods"
    by (rule routed_method [OF assms])
  moreover have "hr_path req \<noteq> ''/api/v1''"
  proof
    assume p: "hr_path req = ''/api/v1''"
    have "api_shape r \<or> open_shape r"
      using r new_router_shapes [of b c] by (auto simp: list_all_iff)
    then show False
    proof
      assume "api_shape r"
      then have "has_prefix (hr_path req) ''/api/v1/''"
        using r api_path by (auto simp: api_shape_def api_route_def)
      then show False
        by (simp add: p)
    next
      assume "open_shape r"
      then obtain q e where q: "r = open_route (CHR ''/'' # q) e" "q \<in> {''health'', ''ready'', ''metrics''}"
        unfolding open_shape_def by blast
      then have "hr_path req = CHR ''/'' # q"
        using r open_path [of q "hr_path req" i] by (simp add: open_route_def)
      then show False
        using q(2) p by auto
    qed
  qed
  ultimately show ?thesis
    by (auto simp: mounted_def)
qed

section \<open>Authentication\<close>

text \<open>The header carries the token under the scheme Bearer, in any case of its letters.\<close>

definition authorized :: "string \<Rightarrow> request \<Rightarrow> bool" where
  "authorized token req \<longleftrightarrow>
     (\<exists>scheme. equal_fold scheme ''Bearer'' \<and> header_get req ''Authorization'' = scheme @ '' '' @ token)"

lemma bearer_no_space: "equal_fold scheme ''Bearer'' \<Longrightarrow> CHR '' '' \<notin> set scheme"
proof
  assume "equal_fold scheme ''Bearer''" and "CHR '' '' \<in> set scheme"
  then have "to_lower (CHR '' '') \<in> set (map to_lower ''Bearer'')"
    unfolding equal_fold_def by (metis imageI list.set_map)
  moreover have "to_lower (CHR '' '') \<notin> set (map to_lower ''Bearer'')"
    by code_simp
  ultimately show False by contradiction
qed

lemma auth_guard:
  "auth token skip ops next req s w =
     (if hr_path req \<in> set skip \<or> authorized token req then next req s w
      else (s, write_error ops 401
        (if header_get req ''Authorization'' = [] then ''missing authorization header'' else ''unauthorized'') w))"
proof -
  let ?h = "header_get req ''Authorization''"
  show ?thesis
  proof (cases "cut '' '' ?h")
    case None
    then have "CHR '' '' \<notin> set ?h"
      by (rule iffD1 [OF cut_byte_None_iff])
    then have "\<not> authorized token req"
      by (auto simp: authorized_def)
    then show ?thesis
      using None by (auto simp: auth_def split_n2_def write_auth_error_def)
  next
    case (Some p)
    obtain a b where p: "p = (a, b)" by force
    have h: "?h = a @ '' '' @ b"
      using Some cut_Some unfolding p by blast
    have "authorized token req \<longleftrightarrow> equal_fold a ''Bearer'' \<and> b = token"
    proof
      assume "authorized token req"
      then obtain scheme where s: "equal_fold scheme ''Bearer''" "?h = scheme @ '' '' @ token"
        by (auto simp: authorized_def)
      have "cut '' '' (scheme @ CHR '' '' # token) = Some (scheme, token)"
        by (rule cut_byte_Some) (rule bearer_no_space [OF s(1)])
      then show "equal_fold a ''Bearer'' \<and> b = token"
        using s Some p by simp
    next
      assume "equal_fold a ''Bearer'' \<and> b = token"
      then show "authorized token req"
        unfolding authorized_def using h by blast
    qed
    then show ?thesis
      using Some h by (auto simp: auth_def split_n2_def write_auth_error_def p)
  qed
qed

section \<open>The logged status\<close>

abbreviation lw :: "response logged writer" where
  "lw \<equiv> logged_writer server_writer"

text \<open>The status the middleware keeps is the one the client gets.\<close>

definition agrees :: "response logged \<Rightarrow> bool" where
  "agrees rw \<longleftrightarrow> lw_status rw = sent_status (lw_inner rw)"

definition fresh :: "response logged \<Rightarrow> bool" where
  "fresh rw \<longleftrightarrow> rs_sent (lw_inner rw) = None \<and> lw_status rw = 200"

lemma sent_status_simps [simp]:
  "sent_status (send_header c r) = (if rs_sent r = None then c else sent_status r)"
  "sent_status (set_header k v r) = sent_status r"
  "rs_sent (set_header k v r) = rs_sent r"
  "sent_status (snd (write_body s r)) = sent_status r"
  "sent_status (flush_body r) = sent_status r"
  by (auto simp: sent_status_def send_header_def set_header_def write_body_def flush_body_def Let_def split: option.splits)

lemma lw_sel [simp]:
  "w_set lw k v rw = rw\<lparr>lw_inner := set_header k v (lw_inner rw)\<rparr>"
  "w_code lw c rw = rw\<lparr>lw_status := c, lw_inner := send_header c (lw_inner rw)\<rparr>"
  "lw_inner (snd (w_write lw s rw)) = snd (write_body s (lw_inner rw))"
  "lw_status (snd (w_write lw s rw)) = lw_status rw"
  "w_flush lw = Some (logged_flush server_writer)"
  "lw_inner (logged_flush server_writer rw) = flush_body (lw_inner rw)"
  "lw_status (logged_flush server_writer rw) = lw_status rw"
  by (simp_all add: logged_writer_def logged_code_def logged_flush_def split: prod.split)

lemma fresh_agrees: "fresh rw \<Longrightarrow> agrees rw"
  by (simp add: fresh_def agrees_def sent_status_def)

lemma agrees_write [simp]: "agrees (snd (w_write lw s rw)) \<longleftrightarrow> agrees rw"
  by (simp add: agrees_def)

lemma agrees_flush [simp]: "agrees (logged_flush server_writer rw) \<longleftrightarrow> agrees rw"
  by (simp add: agrees_def)

lemma agrees_set [simp]: "agrees (rw\<lparr>lw_inner := set_header k v (lw_inner rw)\<rparr>) \<longleftrightarrow> agrees rw"
  by (simp add: agrees_def)

lemma agrees_encode [simp]: "agrees (snd (encode lw j rw)) \<longleftrightarrow> agrees rw"
  by (simp add: encode_def)

lemma agrees_error: "fresh rw \<Longrightarrow> agrees (write_error lw c msg rw)"
  by (simp add: write_error_def) (simp add: agrees_def fresh_def)

lemma agrees_json: "fresh rw \<Longrightarrow> agrees (send_json lw j rw)"
  by (simp add: send_json_def fresh_agrees)

lemma agrees_code: "fresh rw \<Longrightarrow> agrees (rw\<lparr>lw_status := c, lw_inner := send_header c (lw_inner rw)\<rparr>)"
  by (simp add: agrees_def fresh_def)

lemma agrees_code_set:
  "fresh rw \<Longrightarrow> agrees (rw\<lparr>lw_status := c, lw_inner := send_header c (set_header k v (lw_inner rw))\<rparr>)"
  by (simp add: agrees_def fresh_def)

lemma agrees_sse: "fresh rw \<Longrightarrow> agrees (sse_headers lw rw)"
  by (simp add: sse_headers_def) (simp add: agrees_def fresh_def sent_status_def)

lemma agrees_metrics [simp]: "agrees (fold (write_metric lw) ls rw) \<longleftrightarrow> agrees rw"
  by (induction ls arbitrary: rw) (simp_all add: write_metric_def)

lemma agrees_copy: "agrees rw \<Longrightarrow> agrees (snd (copy_reads (sse_write lw (logged_flush server_writer)) rs rw))"
proof (induction rs arbitrary: rw)
  case (Cons x rs)
  have step: "agrees (snd (sse_write lw (logged_flush server_writer) w p))" if "agrees w" for w p
    using that by (simp add: sse_write_def case_prod_unfold split: sum.split)
  obtain tmp rerr where x: "x = (tmp, rerr)" by force
  show ?case
    using Cons.IH Cons.prems step [of rw tmp]
    by (cases "sse_write lw (logged_flush server_writer) rw tmp")
      (simp add: x split: sum.split option.split read_error.split)
qed simp

lemma agrees_stream [simp]:
  "agrees (stream_events lw (logged_flush server_writer) text evs rw) \<longleftrightarrow> agrees rw"
proof -
  have "sent_status (lw_inner (stream_events lw (logged_flush server_writer) text evs rw)) = sent_status (lw_inner rw)"
  proof (induction evs arbitrary: rw)
    case (Cons e es)
    then show ?case
      by (simp add: case_prod_unfold split: sum.split option.split)
  qed simp
  then show ?thesis
    by (simp add: agrees_def stream_status)
qed

definition honest :: "(response logged, 's) handler \<Rightarrow> bool" where
  "honest h \<longleftrightarrow> (\<forall>req s rw. fresh rw \<longrightarrow> agrees (snd (h req s rw)))"

lemmas honest_simps = honest_def agrees_error agrees_json agrees_code agrees_code_set agrees_sse fresh_agrees

lemma honest_on:
  "honest h \<Longrightarrow> honest (on_docker h)" "honest h' \<Longrightarrow> honest (on_models h')"
  "honest h1 \<Longrightarrow> honest (on_poller h1)" "honest h2 \<Longrightarrow> honest (on_commands h2)"
  by (simp_all add: honest_def on_docker_def on_models_def on_poller_def on_commands_def case_prod_unfold
      del: split_paired_All)

lemma honest_plain:
  "honest (system_info_handler lw ft ho)" "honest (health_handler lw v o1 cs)" "honest (ready_handler lw p)"
  "honest (gpu_status lw)" "honest (gpu_metrics lw pr)"
  by (simp_all add: honest_simps system_info_handler_def health_handler_def ready_handler_def gpu_status_def
      gpu_metrics_def Let_def split: option.split sum.split)

lemma honest_containers:
  "honest (container_list lw env)" "honest (container_create lw env v)" "honest (container_inspect lw env ij i)"
  "honest (container_start lw env i)" "honest (container_stop lw env i)" "honest (container_restart lw env i)"
  "honest (container_remove lw env i)"
  by (simp_all add: honest_simps container_list_def container_create_def container_inspect_def
      container_start_def container_stop_def container_restart_def container_remove_def
      split: prod.split sum.split option.split)

lemma honest_models:
  "honest (models_list lw ms)" "honest (models_fetch lw et ms)" "honest (models_delete lw ms i)"
  by (simp_all add: honest_simps models_list_def models_fetch_def models_delete_def
      split: prod.split sum.split option.split)

lemma honest_streams:
  "honest (container_logs lw logs i)" "honest (exec_handler lw run pr)" "honest (benchmark_run lw pr st lv rn)"
  by (simp_all add: honest_simps container_logs_def exec_handler_def benchmark_run_def log_stream_def Let_def
      agrees_copy case_prod_unfold split: sum.split option.split)

lemma honest_endpoint: "honest (endpoint_handler env lw e i)"
  by (cases e) (simp_all add: endpoint_handler_def honest_on honest_plain honest_containers honest_models honest_streams)

section \<open>A request from end to end\<close>

text \<open>What a routed request does: the handler of its endpoint directly on the server's response.\<close>

definition handled :: "api_env \<Rightarrow> route \<Rightarrow> string \<Rightarrow> nat option \<Rightarrow> request \<Rightarrow> app \<Rightarrow> app \<times> response" where
  "handled env r i left req a = endpoint_handler env server_writer (rt_endpoint r) i req a (new_response left)"

definition refused :: "nat option \<Rightarrow> request \<Rightarrow> response" where
  "refused left req = json_response 401 (error_json
     (if header_get req ''Authorization'' = [] then ''missing authorization header'' else ''unauthorized''))
     (new_response left)"

text \<open>A request whose handler keeps the logged status in step with the sent one.\<close>

lemma serve_agreeing:
  assumes "router mux unrouted env lw req a \<lparr>lw_inner = new_response left, lw_status = 200\<rparr> = (a', w)" and "agrees w"
  shows "serve mux unrouted env left req a =
    ((a', [RequestLine (hr_method req) (hr_path req) (sent_status (lw_inner w))]), finish_response (lw_inner w))"
  using assms by (simp add: serve_def recovery_def logging_def no_panic_def agrees_def)

lemma serve_routed:
  assumes "chi_mux mux" and "mux (new_router True True) req = Some (r, i)"
  shows "serve mux unrouted env left req a =
    (let (a', rsp) =
       (if has_prefix (hr_path req) ''/api/v1/'' \<and> \<not> authorized (ae_token env) req then (a, refused left req)
        else handled env r i left req a)
     in ((a', [RequestLine (hr_method req) (hr_path req) (sent_status rsp)]), finish_response rsp))"
proof -
  let ?start = "\<lparr>lw_inner = new_response left, lw_status = 200\<rparr>"
  have fresh: "fresh ?start"
    by (simp add: fresh_def new_response_def)
  have auth: "rt_auth r \<longleftrightarrow> has_prefix (hr_path req) ''/api/v1/''"
      "rt_auth r \<Longrightarrow> hr_path req \<notin> set skip_paths"
    using route_auth [of r True True "hr_path req" i] chi_mux.routed [OF assms] by blast+
  let ?x = "router mux unrouted env lw req a ?start"
  have x: "?x = (if rt_auth r \<and> \<not> authorized (ae_token env) req
      then (a, write_error lw 401 (if header_get req ''Authorization'' = [] then ''missing authorization header'' else ''unauthorized'') ?start)
      else endpoint_handler env lw (rt_endpoint r) i req a ?start)"
    using auth by (simp add: router_def assms(2) route_handler_def auth_guard)
  have same: "fst (endpoint_handler env lw (rt_endpoint r) i req a ?start) = fst (handled env r i left req a)"
      "lw_inner (snd (endpoint_handler env lw (rt_endpoint r) i req a ?start)) = snd (handled env r i left req a)"
    using logged.same_endpoint [of env "rt_endpoint r" i] by (simp_all add: same_effect_def handled_def)
  have "agrees (snd ?x)"
    using honest_endpoint [of env "rt_endpoint r" i] agrees_error [OF fresh] fresh
    unfolding x honest_def by simp
  then have answer: "serve mux unrouted env left req a =
      (let (a', rsp) = (fst ?x, lw_inner (snd ?x)) in
        ((a', [RequestLine (hr_method req) (hr_path req) (sent_status rsp)]), finish_response rsp))"
    by (simp add: serve_agreeing [of mux unrouted env req a left "fst ?x" "snd ?x"])
  have inner: "(fst ?x, lw_inner (snd ?x)) =
      (if has_prefix (hr_path req) ''/api/v1/'' \<and> \<not> authorized (ae_token env) req then (a, refused left req)
       else handled env r i left req a)"
    unfolding x auth(1) by (simp add: same refused_def logged.write_error_resp)
  show ?thesis
    using answer unfolding inner .
qed

text \<open>A request at the mount without the token, whether a route takes it or not.\<close>

lemma serve_refused:
  assumes "chi_mux mux" and "mounted req" and "\<not> authorized (ae_token env) req"
  shows "serve mux unrouted env left req a =
    ((a, [RequestLine (hr_method req) (hr_path req) (sent_status (refused left req))]),
     finish_response (refused left req))"
proof (cases "mux (new_router True True) req")
  case (Some ri)
  then show ?thesis
    using assms serve_routed [OF assms(1), of req "fst ri" "snd ri"] routed_mounted [OF assms(1), of True True req "fst ri" "snd ri"]
    by simp
next
  case None
  let ?w = "write_error lw 401
    (if header_get req ''Authorization'' = [] then ''missing authorization header'' else ''unauthorized'')
    \<lparr>lw_inner = new_response left, lw_status = 200\<rparr>"
  have "hr_path req \<notin> set skip_paths"
    using assms(2) by (auto simp: mounted_def skip_paths_def)
  then have "router mux unrouted env lw req a \<lparr>lw_inner = new_response left, lw_status = 200\<rparr> = (a, ?w)"
    using assms(2,3) by (simp add: router_def None auth_guard)
  moreover have "agrees ?w"
    by (rule agrees_error) (simp add: fresh_def new_response_def)
  ultimately show ?thesis
    by (simp add: serve_agreeing refused_def logged.write_error_resp)
qed

lemma refused_answer:
  "sent_status (finish_response (refused None req)) = 401"
  "rs_body (finish_response (refused None req)) = json_marshal (error_json
      (if header_get req ''Authorization'' = [] then ''missing authorization header'' else ''unauthorized'')) @ [lf]"
  by (simp_all add: refused_def json_response_def finish_response_def)
    (simp_all add: write_body_def send_header_def set_header_def new_response_def flush_body_def body_allowed_def
      sent_status_def Let_def lf_def)


text \<open>C11. The service refines its handlers: a routed request that is open or carries the token does to the
  state and answers to the client exactly what the handler of its endpoint does on a bare response;
  recovery, the logging writer and authentication change no byte of it, and the status in the log is
  the status the client was sent.\<close>

theorem api_refines:
  assumes "chi_mux mux" and "mux (new_router True True) req = Some (r, i)"
    and "has_prefix (hr_path req) ''/api/v1/'' \<longrightarrow> authorized (ae_token env) req"
    and "endpoint_handler env server_writer (rt_endpoint r) i req a (new_response left) = (a', rsp)"
  shows "serve mux unrouted env left req a =
    ((a', [RequestLine (hr_method req) (hr_path req) (sent_status rsp)]), finish_response rsp)"
  using assms(3,4) by (auto simp: serve_routed [OF assms(1,2)] handled_def)

section \<open>A service to try it on\<close>

definition sample_app :: app where
  "sample_app =
     \<lparr>ap_models = (\<lparr>st_dir = ''/m'', st_fetchers = [], st_entries = [], st_by_key = []\<rparr>, 
        \<lparr>w_fs = [([], Dir)], w_faults = [], w_cwd = None, w_rand = 0\<rparr>),
      ap_docker = [], ap_poller = poller_start 10 no_gpu, ap_commands = []\<rparr>"

definition sample_api :: api_env where
  "sample_api =
     \<lparr>ae_token = ''s3cret'', ae_vendor = vendor_unknown, ae_docker = re_env idle_env,
      ae_logs = \<lambda>h i. Inr [], ae_inspect_json = \<lambda>_. JNull, ae_ping = None, ae_version = ''v1'',
      ae_checks = [], ae_order = [], ae_host = sample_host, ae_float_text = \<lambda>_. Some ''0'',
      ae_printable = \<lambda>_. True, ae_exec = \<lambda>cs c as. Inr ''out'',
      ae_store = the_store (\<lambda>s. s) (\<lambda>k f. f) zero_time, ae_error_text = \<lambda>_. ''error'',
      ae_show_time = \<lambda>_. zero_time, ae_leaves = None, ae_runner = \<lambda>spec limit h. ([], h)\<rparr>"

definition exec_call :: "(string, string) gomap \<Rightarrow> request" where
  "exec_call headers = \<lparr>hr_method = ''POST'', hr_path = ''/api/v1/exec'', hr_headers = headers,
     hr_body = json_marshal (JObj [(''command'', JStr ''ls'')])\<rparr>"

lemma exec_routed: "first_match (new_router True True) (exec_call headers) = Some (api_route ''POST'' ''/exec'' ExecE, [])"
proof -
  have "first_match (new_router True True) (exec_call []) = Some (api_route ''POST'' ''/exec'' ExecE, [])"
    by code_simp
  moreover have "first_match rs (exec_call headers) = first_match rs (exec_call [])" for rs
    by (induction rs) (simp_all add: exec_call_def split: option.split)
  ultimately show ?thesis by simp
qed

lemma exec_path: "has_prefix (hr_path (exec_call headers)) ''/api/v1/''"
  by (simp add: exec_call_def)

text \<open>A method that the path does not have: no route takes the request, and it is refused all the same.\<close>

definition put_exec :: request where
  "put_exec = (exec_call [])\<lparr>hr_method := ''PUT''\<rparr>"


definition bearer :: "(string, string) gomap" where
  "bearer = [(''Authorization'', ''bearer s3cret'')]"

theorem api_refines_witness:
  "ap_commands (fst (fst (serve first_match (\<lambda>_ _. Pair) sample_api None (exec_call bearer) sample_app))) = [(''ls'', [])]"
proof -
  have "equal_fold ''bearer'' ''Bearer''"
    by code_simp
  then have a: "authorized (ae_token sample_api) (exec_call bearer)"
    unfolding authorized_def
    by (intro exI [of _ "''bearer''"]) (simp add: header_get_def exec_call_def sample_api_def bearer_def)
  have d: "decode_body exec_fields \<lparr>xr_command = [], xr_args = []\<rparr> (exec_call bearer) = Some \<lparr>xr_command = ''ls'', xr_args = []\<rparr>"
    by code_simp
  have "fst (exec_handler server_writer (\<lambda>cs c as. Inr ''out'') (\<lambda>_. True) (exec_call bearer) [] (new_response None)) = [(''ls'', [])]"
    by (simp add: exec_handler_def d)
  then have e: "ap_commands (fst (endpoint_handler sample_api server_writer ExecE [] (exec_call bearer) sample_app (new_response None))) = [(''ls'', [])]"
    by (simp add: endpoint_handler_def on_commands_def sample_api_def sample_app_def case_prod_unfold)
  let ?h = "endpoint_handler sample_api server_writer (rt_endpoint (api_route ''POST'' ''/exec'' ExecE)) [] (exec_call bearer)
      sample_app (new_response None)"
  have "?h = (fst ?h, snd ?h)"
    by simp
  from api_refines [OF reference.chi_mux_axioms exec_routed _ this] a e show ?thesis
    by (simp add: api_route_def)
qed

section \<open>The form of a response\<close>

definition event_stream :: string where
  "event_stream = ''text/event-stream''"

definition metrics_text :: string where
  "metrics_text = ''text/plain; version=0.0.4; charset=utf-8''"

definition well_formed :: "response \<Rightarrow> bool" where
  "well_formed r \<longleftrightarrow>
     (case rs_sent r of
        None \<Rightarrow> False
      | Some (code, h) \<Rightarrow>
          if code = 204 then rs_body r = []
          else case gm_get h ''Content-Type'' of
            None \<Rightarrow> False
          | Some t \<Rightarrow>
              if t = ''application/json''
              then code \<in> set [200, 201, 400, 401, 404, 500, 503] \<and> (rs_body r = [] \<or> json_valid (rs_body r))
              else code = 200 \<and> (t = event_stream \<or> t = metrics_text))"

lemma json_parse_line:
  assumes "json_ok j"
  shows "json_parse (json_marshal j @ [CHR 0x0A]) = Some (json_utf8 j)"
proof -
  have "reads_value ([] @ json_marshal j @ [CHR 0x0A]) (json_utf8 j) [CHR 0x0A]"
    unfolding json_marshal_def
    by (rule compact.json_ok_reads_back [OF assms, unfolded compact.reads_back_def, rule_format])
      (simp_all add: num_stop_def num_char_def is_digit_def digit_val_def)
  then obtain n where "pvalue n (json_marshal j @ [CHR 0x0A]) = Some (json_utf8 j, [CHR 0x0A])"
    unfolding reads_value_def by auto
  moreover have "skip_ws [CHR 0x0A] = []"
    by (simp add: skip_ws_def is_ws_def)
  ultimately show ?thesis
    unfolding json_parse_fuel by blast
qed

lemma json_valid_line: "json_ok j \<Longrightarrow> json_valid (json_marshal j @ [CHR 0x0A])"
  by (simp add: json_valid_def json_parse_line)

lemma wf_json:
  assumes "json_ok j" and "code \<in> set [200, 201, 400, 401, 404, 500, 503]"
  shows "well_formed (finish_response (json_response code j (new_response left)))"
proof -
  have "code \<noteq> 204" "body_allowed code"
    using assms(2) by (auto simp: body_allowed_def)
  then show ?thesis
    using assms(2) json_valid_line [OF assms(1)]
    by (simp add: well_formed_def json_response_def finish_response_def write_body_def send_header_def set_header_def
        new_response_def flush_body_def sent_status_def Let_def split: option.split)
qed

lemma wf_error: "code \<in> set [200, 201, 400, 401, 404, 500, 503] \<Longrightarrow>
    well_formed (finish_response (json_response code (error_json msg) (new_response left)))"
  by (rule wf_json) (simp_all add: error_json_def)

lemma wf_no_content: "well_formed (finish_response (send_header 204 (new_response left)))"
  by (simp add: well_formed_def finish_response_def send_header_def new_response_def flush_body_def)

lemma wf_stream:
  "rs_sent r = Some (200, h) \<Longrightarrow> gm_get h ''Content-Type'' = Some t \<Longrightarrow> t \<in> {event_stream, metrics_text} \<Longrightarrow>
     well_formed (finish_response r)"
  by (auto simp: well_formed_def finish_response_def flush_body_def send_header_def event_stream_def metrics_text_def)

lemma sent_stays [simp]:
  "rs_sent r = Some x \<Longrightarrow> rs_sent (snd (write_body s r)) = Some x"
  "rs_sent r = Some x \<Longrightarrow> rs_sent (flush_body r) = Some x"
  by (auto simp: write_body_def send_header_def flush_body_def Let_def split: option.splits)

lemma sent_copy:
  "rs_sent r = Some x \<Longrightarrow> rs_sent (snd (copy_reads (sse_write server_writer flush_body) rs r)) = Some x"
proof (induction rs arbitrary: r)
  case (Cons y rs)
  obtain tmp rerr where y: "y = (tmp, rerr)" by force
  have "rs_sent (snd (sse_write server_writer flush_body r tmp)) = Some x"
    using Cons.prems by (simp add: sse_write_def case_prod_unfold split: sum.split)
  then show ?case
    using Cons by (cases "sse_write server_writer flush_body r tmp")
      (simp add: y split: sum.split option.split read_error.split)
qed simp

lemma sent_stream: "rs_sent r = Some x \<Longrightarrow> rs_sent (stream_events server_writer flush_body text evs r) = Some x"
  by (induction evs arbitrary: r) (simp_all add: case_prod_unfold split: sum.split option.split)

lemma sent_metrics: "rs_sent r = Some x \<Longrightarrow> rs_sent (fold (write_metric server_writer) ls r) = Some x"
  by (induction ls arbitrary: r) (simp_all add: write_metric_def)

lemma sse_sent: "\<exists>h. rs_sent (flush_body (sse_headers server_writer (new_response left))) = Some (200, h) \<and>
    gm_get h ''Content-Type'' = Some event_stream"
  by (simp add: sse_headers_def flush_body_def send_header_def set_header_def new_response_def event_stream_def)

definition wf_handler :: "(response, 's) handler \<Rightarrow> bool" where
  "wf_handler h \<longleftrightarrow> (\<forall>req s left. well_formed (finish_response (snd (h req s (new_response left)))))"

lemma wf_on:
  "wf_handler h \<Longrightarrow> wf_handler (on_docker h)" "wf_handler h' \<Longrightarrow> wf_handler (on_models h')"
  "wf_handler h1 \<Longrightarrow> wf_handler (on_poller h1)" "wf_handler h2 \<Longrightarrow> wf_handler (on_commands h2)"
  by (simp_all add: wf_handler_def on_docker_def on_models_def on_poller_def on_commands_def case_prod_unfold
      del: split_paired_All)

lemma json_ok_nat [simp]: "json_ok (JNum (show_nat n))"
  using json_ok_show_int [of "int n"] by (simp add: show_int_def)

lemma json_ok_parts:
  "json_ok (info_json si)" "json_ok (status_json st)" "json_ok (report_json rp)" "json_ok (gpu_json g)"
  "json_ok (snapshot_json sn)" "json_ok (container_info_json ci)"
proof -
  note [simp del] = json_ok.simps(1)
  show s: "json_ok (status_json st)" for st
    by (simp add: status_json_def)
  show g: "json_ok (gpu_json g)" for g
    by (simp add: gpu_json_def)
  show "json_ok (info_json si)" "json_ok (report_json rp)" "json_ok (snapshot_json sn)" "json_ok (container_info_json ci)"
    using s g by (auto simp: info_json_def report_json_def snapshot_json_def container_info_json_def)
qed

lemmas wf_simps = wf_handler_def server.write_error_resp server.send_json_resp wf_error wf_no_content

lemma encode_set: "snd (encode server_writer j (set_header ''Content-Type'' ''application/json'' r)) = json_response 200 j r"
  by (simp add: encode_def json_response_def write_sends)

lemma encode_code:
  "snd (encode server_writer j (send_header c (set_header ''Content-Type'' ''application/json'' r))) = json_response c j r"
  by (simp add: encode_def json_response_def)

lemma wf_containers:
  "wf_handler (container_list server_writer env)" "wf_handler (container_create server_writer env v)"
  "(\<And>x. json_ok (ij x)) \<Longrightarrow> wf_handler (container_inspect server_writer env ij i)"
  "wf_handler (container_start server_writer env i)" "wf_handler (container_stop server_writer env i)"
  "wf_handler (container_restart server_writer env i)" "wf_handler (container_remove server_writer env i)"
  by (simp_all add: wf_simps container_list_def container_create_def container_inspect_def
      container_start_def container_stop_def container_restart_def container_remove_def encode_code wf_json json_ok_parts
      split: prod.split sum.split option.split)

lemma wf_models:
  "wf_handler (models_list server_writer ms)" "wf_handler (models_fetch server_writer et ms)" "wf_handler (models_delete server_writer ms i)"
  by (simp_all add: wf_simps models_list_def models_fetch_def models_delete_def wf_json
      split: prod.split sum.split option.split)

lemma disk_ok:
  assumes "\<And>x t. float_text x = Some t \<Longrightarrow> json_ok (JNum t)" and "disk_json float_text d = Some j"
  shows "json_ok j"
  using assms by (auto simp: disk_json_def split: option.splits simp del: json_ok.simps(1))

lemma wf_header_only: "well_formed (finish_response (set_header ''Content-Type'' ''application/json'' (new_response left)))"
  by (simp add: well_formed_def finish_response_def send_header_def set_header_def new_response_def flush_body_def)

lemma wf_system:
  assumes "\<And>x t. float_text x = Some t \<Longrightarrow> json_ok (JNum t)"
  shows "wf_handler (system_info_handler server_writer float_text ho)"
proof -
  have "json_ok d" if "disk_json float_text x = Some d" for x d
    using disk_ok [OF assms that] .
  then show ?thesis
    by (auto simp: wf_handler_def system_info_handler_def server.send_json_resp wf_json wf_header_only json_ok_parts
        Let_def split: option.split sum.split)
qed

lemma wf_plain:
  "wf_handler (health_handler server_writer v o1 cs)" "wf_handler (ready_handler server_writer p)"
  "wf_handler (gpu_status server_writer)"
  by (simp_all add: wf_simps health_handler_def ready_handler_def gpu_status_def encode_set encode_code wf_json
      json_ok_parts Let_def)

lemma metric_lines_Cons: "\<exists>l ls. metric_lines pr sn = l # ls"
  by (simp add: metric_lines_def gauge_lines_def)

lemma wf_metrics: "wf_handler (gpu_metrics server_writer pr)"
proof -
  have "well_formed (finish_response (fold (write_metric server_writer) (l # ls)
      (set_header ''Content-Type'' metrics_text (new_response left))))" for l ls left
  proof -
    let ?r = "write_metric server_writer l (set_header ''Content-Type'' metrics_text (new_response left))"
    have "rs_sent ?r = Some (200, [(''Content-Type'', metrics_text)])"
      by (simp add: write_metric_def write_body_def send_header_def set_header_def new_response_def Let_def split: option.split)
    then have "rs_sent (fold (write_metric server_writer) ls ?r) = Some (200, [(''Content-Type'', metrics_text)])"
      by (rule sent_metrics)
    then show ?thesis
      by (simp add: wf_stream [where t = metrics_text])
  qed
  moreover have "\<exists>l ls. metric_lines pr (latest p) = l # ls" for p
    by (rule metric_lines_Cons)
  ultimately have "well_formed (finish_response (fold (write_metric server_writer) (metric_lines pr (latest p))
      (set_header ''Content-Type'' metrics_text (new_response left))))" for p left
    by metis
  then show ?thesis
    by (simp add: wf_handler_def gpu_metrics_def metrics_text_def)
qed

lemma wf_sse:
  assumes "\<And>h. rs_sent (flush_body (sse_headers server_writer (new_response left))) = Some (200, h) \<Longrightarrow> rs_sent r = Some (200, h)"
  shows "well_formed (finish_response r)"
  using assms sse_sent [of left] wf_stream [of r _ event_stream] by blast

lemma wf_streams:
  "wf_handler (container_logs server_writer logs i)" "wf_handler (exec_handler server_writer run pr)"
  "wf_handler (benchmark_run server_writer pr st lv rn)"
proof -
  have logs: "well_formed (finish_response (snd (log_stream l (sse_write server_writer flush_body)
      (flush_body (sse_headers server_writer (new_response left))))))" for l left
    by (rule wf_sse [of left]) (simp add: log_stream_def sent_copy split: sum.split)
  show "wf_handler (container_logs server_writer logs i)"
    by (simp add: wf_handler_def container_logs_def logs)
  have one: "well_formed (finish_response (flush_body (snd (write_body s (flush_body (sse_headers server_writer (new_response left)))))))" for s left
    by (rule wf_sse [of left]) simp
  have two: "well_formed (finish_response (flush_body (snd (write_body s (flush_body (snd (write_body u
      (flush_body (sse_headers server_writer (new_response left))))))))))" for s u left
    by (rule wf_sse [of left]) simp
  show "wf_handler (exec_handler server_writer run pr)"
    by (simp add: wf_simps exec_handler_def one two Let_def split: option.split sum.split)
  have stream: "well_formed (finish_response (stream_events server_writer flush_body tx evs
      (flush_body (sse_headers server_writer (new_response left)))))" for tx evs left
    by (rule wf_sse [of left]) (simp add: sent_stream)
  show "wf_handler (benchmark_run server_writer pr st lv rn)"
    by (simp add: wf_simps benchmark_run_def stream case_prod_unfold split: option.split)
qed

lemma wf_endpoint:
  assumes "\<And>x. json_ok (ae_inspect_json env x)" and "\<And>x t. ae_float_text env x = Some t \<Longrightarrow> json_ok (JNum t)"
  shows "wf_handler (endpoint_handler env server_writer e i)"
  using assms
  by (cases e) (simp_all add: endpoint_handler_def wf_on wf_plain wf_metrics wf_system wf_containers wf_models wf_streams
      del: json_ok.simps(1))

text \<open>C18. Every response to a routed request has a form a client can rely on, whatever the state of the
  service, the answers of Docker and the commands, and whenever the connection is lost: either status
  204 and no body, or a status of a fixed set with a content type that fits the body, where a JSON
  body is one valid value or missing, and a stream or a metrics page has status 200.\<close>

theorem responses_well_formed:
  assumes "chi_mux mux" and "mux (new_router True True) req = Some (r, i)"
    and "\<forall>x. json_ok (ae_inspect_json env x)" and "\<forall>x t. ae_float_text env x = Some t \<longrightarrow> json_ok (JNum t)"
  shows "well_formed (snd (serve mux unrouted env left req a))"
proof -
  have "wf_handler (endpoint_handler env server_writer (rt_endpoint r) i)"
    by (rule wf_endpoint) (use assms(3,4) in blast)+
  then show ?thesis
    using wf_error [of 401 _ left]
    by (simp add: serve_routed [OF assms(1,2)] refused_def handled_def wf_handler_def case_prod_unfold Let_def)
qed

theorem responses_well_formed_witness:
  "well_formed (snd (serve first_match (\<lambda>_ _. Pair) sample_api (Some 1) (exec_call bearer) sample_app))"
proof -
  have "\<forall>x. json_ok (ae_inspect_json sample_api x)"
    by (simp add: sample_api_def)
  moreover have "json_ok (JNum ''0'')"
    by code_simp
  then have "\<forall>x t. ae_float_text sample_api x = Some t \<longrightarrow> json_ok (JNum t)"
    by (simp add: sample_api_def del: json_ok.simps(1))
  ultimately show ?thesis
    by (rule responses_well_formed [OF reference.chi_mux_axioms exec_routed])
qed

section \<open>Panics\<close>

text \<open>C39. A handler that panics never takes the service down: the client gets the error as JSON with
  status 500 if nothing had been sent, and otherwise the status that was sent, with the error
  appended to what had been written; the log has the panic but no line for the request.\<close>

theorem panic_recovered:
  assumes "inner req a \<lparr>lw_inner = new_response None, lw_status = 200\<rparr> = Panicked e (a', rw)"
    and "rs_left (lw_inner rw) = None" and "body_allowed (sent_status (lw_inner rw))"
    and "recovery server_writer (logging server_writer inner) req (a, l) (new_response None) = (al, r)"
  shows "al = (a', l @ [PanicLine e (hr_method req) (hr_path req)]) \<and>
    sent_status r = (if rs_sent (lw_inner rw) = None then 500 else sent_status (lw_inner rw)) \<and>
    rs_body r = rs_body (lw_inner rw) @ json_marshal (error_json ''internal server error'') @ [lf]"
  using assms(2-4)
  by (auto simp: recovery_def logging_def assms(1) server.write_error_resp json_response_def write_body_def
      send_header_def set_header_def sent_status_def body_allowed_def Let_def lf_def split: option.splits)

definition panics_late :: "(response logged, unit) may_panic" where
  "panics_late req a w = Panicked ''boom'' (a, snd (w_write lw ''data: 1'' w))"

theorem panic_recovered_witness:
  "rs_body (snd (recovery server_writer (logging server_writer panics_late) (exec_call []) ((), []) (new_response None))) =
     ''data: 1'' @ json_marshal (error_json ''internal server error'') @ [lf]"
proof -
  let ?w = "snd (w_write lw ''data: 1'' \<lparr>lw_inner = new_response None, lw_status = 200\<rparr>)"
  let ?r = "recovery server_writer (logging server_writer panics_late) (exec_call []) ((), []) (new_response None)"
  have w: "rs_left (lw_inner ?w) = None" "body_allowed (sent_status (lw_inner ?w))" "rs_body (lw_inner ?w) = ''data: 1''"
    by (simp_all add: write_body_def send_header_def new_response_def body_allowed_def sent_status_def Let_def)
  have "?r = (fst ?r, snd ?r)"
    by simp
  from panic_recovered [OF panics_late_def w(1,2) this] w(3) show ?thesis
    by simp
qed

end
