(* ===== verification/Secrets.thy ===== *)
theory Secrets
  imports Go_Float
begin

text \<open>
  The secrets providers of \<open>internal/flagcommons/secrets\<close>: environment variables, the OpenBao client
  with its cache, and the factory.  The server and the clock are functions of what the client has
  done so far.  The interface the configuration loads through is a locale, and both providers are
  instances of it.
\<close>

datatype secret_error =
    NotSet string
  | EmptyKey
  | EmptyPath string
  | EmptyField string
  | RequestError string
  | BadStatus nat string
  | BadBody
  | NoField string string
  | NotString string string
  | UnknownProvider string

section \<open>The interface\<close>

locale secrets_provider =
  fixes get :: "string \<Rightarrow> 's \<Rightarrow> (secret_error, string) result \<times> 's"
    and get_or_default :: "string \<Rightarrow> string \<Rightarrow> 's \<Rightarrow> string \<times> 's"
  assumes get_or_default: "get_or_default key d s =
    (case get key s of (Inl e, s') \<Rightarrow> (d, s') | (Inr v, s') \<Rightarrow> (v, s'))"
begin

lemma default_used: "fst (get key s) = Inl e \<Longrightarrow> fst (get_or_default key d s) = d"
  by (auto simp: get_or_default split: prod.splits)

lemma value_used: "fst (get key s) = Inr v \<Longrightarrow> fst (get_or_default key d s) = v"
  by (auto simp: get_or_default split: prod.splits)

lemma same_effect: "snd (get_or_default key d s) = snd (get key s)"
  by (simp add: get_or_default split: prod.split sum.split)

end

section \<open>Environment variables\<close>

definition env_get :: "string \<Rightarrow> (string, string) gomap \<Rightarrow> (secret_error, string) result \<times> (string, string) gomap" where
  "env_get key vars = (case gm_get vars key of None \<Rightarrow> (Inl (NotSet key), vars) | Some v \<Rightarrow> (Inr v, vars))"

definition env_get_or_default :: "string \<Rightarrow> string \<Rightarrow> (string, string) gomap \<Rightarrow> string \<times> (string, string) gomap" where
  "env_get_or_default key d vars = (case gm_get vars key of Some v \<Rightarrow> (v, vars) | None \<Rightarrow> (d, vars))"

interpretation env_provider: secrets_provider env_get env_get_or_default
  by unfold_locales (simp add: env_get_def env_get_or_default_def split: option.split)

section \<open>OpenBao\<close>

record bao_config =
  bc_addr :: string
  bc_token :: string
  bc_mount :: string
  bc_cache_ttl :: int

definition default_cache_ttl :: int where
  "default_cache_ttl = 300000000000"

definition max_error_body_bytes :: nat where
  "max_error_body_bytes = 4096"

definition default_mount :: string where
  "default_mount = ''kv''"

text \<open>The options change the provider in the order in which they are given; those for the logger and
  the HTTP client change nothing that is modelled.\<close>

type_synonym bao_option = "bao_config \<Rightarrow> bao_config"

definition with_mount :: "string \<Rightarrow> bao_option" where
  "with_mount m p = p\<lparr>bc_mount := m\<rparr>"

definition with_cache_ttl :: "int \<Rightarrow> bao_option" where
  "with_cache_ttl ttl p = p\<lparr>bc_cache_ttl := ttl\<rparr>"

definition new_openbao :: "string \<Rightarrow> string \<Rightarrow> bao_option list \<Rightarrow> bao_config" where
  "new_openbao addr token opts =
     fold (\<lambda>opt p. opt p) opts
       \<lparr>bc_addr = addr, bc_token = token, bc_mount = default_mount, bc_cache_ttl = default_cache_ttl\<rparr>"

record cache_entry =
  ce_value :: string
  ce_expires :: int

datatype bao_event = ClockRead | Requested string string

datatype http_reply = NoReply string | Reply nat string

text \<open>The provider's cache, and what it has done.\<close>

record bao_state =
  bs_cache :: "(string, cache_entry) gomap"
  bs_events :: "bao_event list"

record bao_env =
  be_now :: "bao_event list \<Rightarrow> int"
  be_reply :: "bao_event list \<Rightarrow> string \<Rightarrow> string \<Rightarrow> http_reply"

definition parse_key :: "string \<Rightarrow> (secret_error, string \<times> string) result" where
  "parse_key key =
     (case cut ''#'' key of
        Some (path, field) \<Rightarrow>
          (if path = [] then Inl (EmptyPath key)
           else if field = [] then Inl (EmptyField key)
           else Inr (path, field))
      | None \<Rightarrow> (if key = [] then Inl EmptyKey else Inr (key, ''value'')))"

text \<open>\<open>url.PathEscape\<close>.\<close>

definition path_safe :: "char \<Rightarrow> bool" where
  "path_safe c \<longleftrightarrow>
     (CHR ''a'' \<le> c \<and> c \<le> CHR ''z'') \<or> (CHR ''A'' \<le> c \<and> c \<le> CHR ''Z'') \<or>
     (CHR ''0'' \<le> c \<and> c \<le> CHR ''9'') \<or> c \<in> set ''-_.~$&+=:@''"

definition upper_hex :: "nat \<Rightarrow> char" where
  "upper_hex n = (if n < 10 then digit_char n else char_of (n + 55))"

definition path_escape :: "string \<Rightarrow> string" where
  "path_escape s = concat (map (\<lambda>c. if path_safe c then [c]
     else [CHR ''%'', upper_hex (of_char c div 16), upper_hex (of_char c mod 16)]) s)"

definition secret_url :: "bao_config \<Rightarrow> string \<Rightarrow> string" where
  "secret_url cfg path = bc_addr cfg @ ''/v1/'' @ bc_mount cfg @ ''/data/'' @ path_escape path"

text \<open>
  A JSON value in an \<open>interface{}\<close>: its numbers must be in the range of a \<open>float64\<close>.
\<close>

fun numbers_ok :: "json \<Rightarrow> bool" where
  "numbers_ok (JNum t) \<longleftrightarrow> fst (parse_float t) = None"
| "numbers_ok (JArr js) \<longleftrightarrow> (\<forall>j \<in> set js. numbers_ok j)"
| "numbers_ok (JObj ms) \<longleftrightarrow> (\<forall>m \<in> set ms. numbers_ok (snd m))"
| "numbers_ok _ \<longleftrightarrow> True"

definition dec_any_map :: "json \<Rightarrow> (string, json) gomap \<Rightarrow> (string, json) gomap option" where
  "dec_any_map j old =
     (case j of
        JObj ms \<Rightarrow>
          (if numbers_ok j then Some (foldl (\<lambda>m (k, v). gm_set k v m) old ms) else None)
      | JNull \<Rightarrow> Some []
      | _ \<Rightarrow> None)"

definition kv_response :: "string \<Rightarrow> (string, json) gomap option" where
  "kv_response body =
     (case json_decode body of
        None \<Rightarrow> None
      | Some j \<Rightarrow> dec_struct [(''data'', \<lambda>j old. dec_struct [(''data'', dec_any_map)] j old)] j [])"

definition secret_of_reply :: "string \<Rightarrow> string \<Rightarrow> http_reply \<Rightarrow> (secret_error, string) result" where
  "secret_of_reply path field r =
     (case r of
        NoReply e \<Rightarrow> Inl (RequestError e)
      | Reply code body \<Rightarrow>
          (if code \<noteq> 200 then Inl (BadStatus code (take max_error_body_bytes body))
           else case kv_response body of
             None \<Rightarrow> Inl BadBody
           | Some data \<Rightarrow>
               (case gm_get data field of
                  None \<Rightarrow> Inl (NoField field path)
                | Some (JStr v) \<Rightarrow> Inr v
                | Some _ \<Rightarrow> Inl (NotString field path))))"

definition fetch_secret ::
  "bao_env \<Rightarrow> bao_config \<Rightarrow> string \<Rightarrow> string \<Rightarrow> bao_state \<Rightarrow> (secret_error, string) result \<times> bao_state" where
  "fetch_secret env cfg path field st =
     (let url = secret_url cfg path in
      (secret_of_reply path field (be_reply env (bs_events st) url (bc_token cfg)),
       st\<lparr>bs_events := bs_events st @ [Requested url (bc_token cfg)]\<rparr>))"

definition bao_now :: "bao_env \<Rightarrow> bao_state \<Rightarrow> int \<times> bao_state" where
  "bao_now env st = (be_now env (bs_events st), st\<lparr>bs_events := bs_events st @ [ClockRead]\<rparr>)"

definition from_cache :: "bao_env \<Rightarrow> string \<Rightarrow> bao_state \<Rightarrow> string option \<times> bao_state" where
  "from_cache env key st =
     (case gm_get (bs_cache st) key of
        None \<Rightarrow> (None, st)
      | Some e \<Rightarrow>
          (case bao_now env st of (t, st') \<Rightarrow>
             if ce_expires e < t then (None, st'\<lparr>bs_cache := gm_del key (bs_cache st')\<rparr>)
             else (Some (ce_value e), st')))"

definition to_cache :: "bao_env \<Rightarrow> string \<Rightarrow> string \<Rightarrow> int \<Rightarrow> bao_state \<Rightarrow> bao_state" where
  "to_cache env key v ttl st =
     (case bao_now env st of (t, st') \<Rightarrow>
        st'\<lparr>bs_cache := gm_set key \<lparr>ce_value = v, ce_expires = t + ttl\<rparr> (bs_cache st')\<rparr>)"

definition bao_get ::
  "bao_env \<Rightarrow> bao_config \<Rightarrow> string \<Rightarrow> bao_state \<Rightarrow> (secret_error, string) result \<times> bao_state" where
  "bao_get env cfg key st =
     (case parse_key key of
        Inl e \<Rightarrow> (Inl e, st)
      | Inr (path, field) \<Rightarrow>
          (case from_cache env key st of
             (Some v, st1) \<Rightarrow> (Inr v, st1)
           | (None, st1) \<Rightarrow>
               (case fetch_secret env cfg path field st1 of
                  (Inl e, st2) \<Rightarrow> (Inl e, st2)
                | (Inr v, st2) \<Rightarrow>
                    (Inr v, if 0 < bc_cache_ttl cfg then to_cache env key v (bc_cache_ttl cfg) st2 else st2))))"

definition bao_get_or_default :: "bao_env \<Rightarrow> bao_config \<Rightarrow> string \<Rightarrow> string \<Rightarrow> bao_state \<Rightarrow> string \<times> bao_state" where
  "bao_get_or_default env cfg key d st =
     (case bao_get env cfg key st of (Inl e, st') \<Rightarrow> (d, st') | (Inr v, st') \<Rightarrow> (v, st'))"

interpretation bao_provider: secrets_provider "bao_get env cfg" "bao_get_or_default env cfg" for env cfg
  by unfold_locales (simp add: bao_get_or_default_def)

section \<open>The factory\<close>

datatype provider = EnvProvider | OpenBaoProvider bao_config

text \<open>\<open>os.Getenv\<close> does not tell an empty variable from a missing one.\<close>

definition getenv :: "(string, string) gomap \<Rightarrow> string \<Rightarrow> string" where
  "getenv vars k = (case gm_get vars k of None \<Rightarrow> [] | Some v \<Rightarrow> v)"

definition new_provider :: "(string, string) gomap \<Rightarrow> string \<Rightarrow> (secret_error, provider) result" where
  "new_provider vars kind =
     (if kind = ''env'' then Inr EnvProvider
      else if kind = ''openbao'' then
        (if getenv vars ''OPENBAO_ADDR'' = [] then Inl (NotSet ''OPENBAO_ADDR'')
         else if getenv vars ''OPENBAO_TOKEN'' = [] then Inl (NotSet ''OPENBAO_TOKEN'')
         else Inr (OpenBaoProvider (new_openbao (getenv vars ''OPENBAO_ADDR'') (getenv vars ''OPENBAO_TOKEN'') [])))
      else Inl (UnknownProvider kind))"

section \<open>Keys\<close>

text \<open>A key names a path and a field in one way: a path without a hash sign and a field, both not
  empty, are what the key made of them gives back, a key without a hash sign names the field value,
  and every other key is an error.\<close>

theorem parse_key_exact:
  "parse_key key = Inr (path, field) \<longleftrightarrow>
     path \<noteq> [] \<and> field \<noteq> [] \<and> CHR ''#'' \<notin> set path \<and>
     (key = path @ ''#'' @ field \<or> key = path \<and> field = ''value'')"
proof (cases "cut ''#'' key")
  case None
  then have "CHR ''#'' \<notin> set key"
    by (rule iffD1 [OF cut_byte_None_iff])
  then show ?thesis
    using None by (auto simp only: parse_key_def option.case split: if_splits) auto
next
  case (Some p)
  obtain a b where p: "p = (a, b)" by force
  have key: "key = a @ ''#'' @ b" and a: "CHR ''#'' \<notin> set a"
    using Some cut_Some cut_byte_fresh unfolding p by (blast, blast)
  have "key = path @ ''#'' @ field \<longleftrightarrow> a = path \<and> b = field" if "CHR ''#'' \<notin> set path"
    using a that unfolding key by (metis append_Cons append_Nil append_eq_append_conv_if cut_byte_Some option.inject prod.inject)
  moreover have "key \<noteq> path" if "CHR ''#'' \<notin> set path"
    using that unfolding key by auto
  ultimately show ?thesis
    using a by (auto simp: parse_key_def Some p)
qed

section \<open>The cache\<close>

text \<open>The server gave the value for the key after the events \<open>h\<close>.\<close>

definition served :: "bao_env \<Rightarrow> bao_config \<Rightarrow> string \<Rightarrow> string \<Rightarrow> bao_event list \<Rightarrow> bool" where
  "served env cfg key v h \<longleftrightarrow>
     (\<exists>path field. parse_key key = Inr (path, field) \<and>
        secret_of_reply path field (be_reply env h (secret_url cfg path) (bc_token cfg)) = Inr v)"

text \<open>Every cached value was served, and expires the time to live after a reading of the clock
  that followed the request.\<close>

definition fresh_entry :: "bao_env \<Rightarrow> bao_config \<Rightarrow> bao_event list \<Rightarrow> string \<Rightarrow> cache_entry \<Rightarrow> bool" where
  "fresh_entry env cfg h key e \<longleftrightarrow>
     (\<exists>h0 url. served env cfg key (ce_value e) h0 \<and> prefix (h0 @ [Requested url (bc_token cfg), ClockRead]) h \<and>
        ce_expires e = be_now env (h0 @ [Requested url (bc_token cfg)]) + bc_cache_ttl cfg)"

definition cache_ok :: "bao_env \<Rightarrow> bao_config \<Rightarrow> bao_state \<Rightarrow> bool" where
  "cache_ok env cfg st \<longleftrightarrow>
     gomap_ok (bs_cache st) \<and>
     (\<forall>key e. gm_get (bs_cache st) key = Some e \<longrightarrow> fresh_entry env cfg (bs_events st) key e)"

lemma fresh_entry_append: "fresh_entry env cfg h key e \<Longrightarrow> fresh_entry env cfg (h @ h') key e"
  unfolding fresh_entry_def using prefix_prefix by blast

lemma cache_ok_events:
  "cache_ok env cfg st \<Longrightarrow> cache_ok env cfg (st\<lparr>bs_events := bs_events st @ h\<rparr>)"
  by (auto simp: cache_ok_def intro: fresh_entry_append)

lemma from_cache_ok:
  assumes "cache_ok env cfg st" and "from_cache env key st = (r, st')"
  shows "cache_ok env cfg st'" and "\<exists>h. bs_events st' = bs_events st @ h"
    and "r = Some v \<Longrightarrow> \<exists>h0 url. served env cfg key v h0 \<and>
      prefix (h0 @ [Requested url (bc_token cfg)]) (bs_events st) \<and>
      be_now env (bs_events st) \<le> be_now env (h0 @ [Requested url (bc_token cfg)]) + bc_cache_ttl cfg"
proof -
  consider "gm_get (bs_cache st) key = None" "r = None" "st' = st"
    | e where "gm_get (bs_cache st) key = Some e" "r = None"
        "st' = st\<lparr>bs_events := bs_events st @ [ClockRead], bs_cache := gm_del key (bs_cache st)\<rparr>"
    | e where "gm_get (bs_cache st) key = Some e" "r = Some (ce_value e)" "be_now env (bs_events st) \<le> ce_expires e"
        "st' = st\<lparr>bs_events := bs_events st @ [ClockRead]\<rparr>"
    using assms(2) by (auto simp: from_cache_def bao_now_def split: option.splits if_splits)
  note cases = this
  have entry: "fresh_entry env cfg (bs_events st) k e" if "gm_get (bs_cache st) k = Some e" for k e
    using assms(1) that by (simp add: cache_ok_def)
  from cases show "cache_ok env cfg st'"
  proof cases
    case (2 e)
    then show ?thesis
      using assms(1) entry by (auto simp: cache_ok_def gm_get_del intro!: fresh_entry_append split: if_splits)
  qed (use assms(1) cache_ok_events in simp_all)
  from cases show "\<exists>h. bs_events st' = bs_events st @ h"
    by cases simp_all
  assume v: "r = Some v"
  from cases show "\<exists>h0 url. served env cfg key v h0 \<and>
      prefix (h0 @ [Requested url (bc_token cfg)]) (bs_events st) \<and>
      be_now env (bs_events st) \<le> be_now env (h0 @ [Requested url (bc_token cfg)]) + bc_cache_ttl cfg"
  proof cases
    case (3 e)
    obtain h0 url where h0: "served env cfg key (ce_value e) h0"
        "prefix (h0 @ [Requested url (bc_token cfg), ClockRead]) (bs_events st)"
        "ce_expires e = be_now env (h0 @ [Requested url (bc_token cfg)]) + bc_cache_ttl cfg"
      using entry [OF 3(1)] by (auto simp: fresh_entry_def)
    have "prefix (h0 @ [Requested url (bc_token cfg)]) (bs_events st)"
      using h0(2) by (auto simp: prefix_def)
    then show ?thesis
      using h0 3 v by auto
  qed (use v in simp_all)
qed

lemma bao_get_ok:
  assumes "cache_ok env cfg st" and "bao_get env cfg key st = (r, st')"
  shows "cache_ok env cfg st' \<and>
    (\<forall>v. r = Inr v \<longrightarrow> (\<exists>h0 url. served env cfg key v h0 \<and>
       prefix (h0 @ [Requested url (bc_token cfg)]) (bs_events st') \<and>
       (length (bs_events st) \<le> length h0 \<or>
        be_now env (bs_events st) \<le> be_now env (h0 @ [Requested url (bc_token cfg)]) + bc_cache_ttl cfg)))"
proof (cases "parse_key key")
  case (Inl e)
  then have "r = Inl e" "st' = st"
    using assms(2) by (simp_all add: bao_get_def)
  then show ?thesis using assms(1) by simp
next
  case (Inr pf)
  obtain path field where pf: "pf = (path, field)" by force
  obtain o1 st1 where c: "from_cache env key st = (o1, st1)" by force
  note st1 = from_cache_ok [OF assms(1) c]
  obtain h where h: "bs_events st1 = bs_events st @ h"
    using st1(2) by blast
  show ?thesis
  proof (cases o1)
    case (Some v)
    then have r: "r = Inr v" "st' = st1"
      using assms(2) Inr c by (simp_all add: bao_get_def pf)
    obtain h0 url where h0: "served env cfg key v h0" "prefix (h0 @ [Requested url (bc_token cfg)]) (bs_events st)"
        "be_now env (bs_events st) \<le> be_now env (h0 @ [Requested url (bc_token cfg)]) + bc_cache_ttl cfg"
      using st1(3) [OF Some] by blast
    have "prefix (h0 @ [Requested url (bc_token cfg)]) (bs_events st')"
      unfolding r h using h0(2) by (rule prefix_prefix)
    then show ?thesis
      using st1(1) h0 unfolding r by blast
  next
    case None
    let ?url = "secret_url cfg path" and ?h0 = "bs_events st1"
    let ?reply = "secret_of_reply path field (be_reply env ?h0 (secret_url cfg path) (bc_token cfg))"
    let ?st2 = "st1\<lparr>bs_events := bs_events st1 @ [Requested ?url (bc_token cfg)]\<rparr>"
    have f: "fetch_secret env cfg path field st1 = (?reply, ?st2)"
      by (simp add: fetch_secret_def Let_def)
    have st2: "cache_ok env cfg ?st2"
      using st1(1) by (rule cache_ok_events)
    show ?thesis
    proof (cases ?reply)
      case (Inl e)
      then have "r = Inl e" "st' = ?st2"
        using assms(2) Inr c None f by (simp_all add: bao_get_def pf)
      then show ?thesis using st2 by simp
    next
      case reply: (Inr v)
      let ?st3 = "if 0 < bc_cache_ttl cfg then to_cache env key v (bc_cache_ttl cfg) ?st2 else ?st2"
      have r: "r = Inr v" "st' = ?st3"
        using assms(2) Inr c None f reply by (simp_all add: bao_get_def pf)
      have served: "served env cfg key v ?h0"
        using Inr reply by (auto simp: served_def pf)
      let ?e = "\<lparr>ce_value = v, ce_expires = be_now env (bs_events ?st2) + bc_cache_ttl cfg\<rparr>"
      have "fresh_entry env cfg (bs_events ?st2 @ [ClockRead]) key ?e"
        unfolding fresh_entry_def
        by (intro exI [of _ ?h0] exI [of _ ?url]) (simp add: served)
      moreover have "fresh_entry env cfg (bs_events ?st2 @ [ClockRead]) k e" if "gm_get (bs_cache ?st2) k = Some e" for k e
        by (rule fresh_entry_append) (use st2 that in \<open>simp add: cache_ok_def\<close>)
      moreover have "gomap_ok (bs_cache ?st2)"
        using st2 by (simp add: cache_ok_def)
      ultimately have "cache_ok env cfg (to_cache env key v (bc_cache_ttl cfg) ?st2)"
        by (simp add: cache_ok_def to_cache_def bao_now_def gm_get_set)
      then have "cache_ok env cfg ?st3"
        using st2 by simp
      moreover have "prefix (?h0 @ [Requested ?url (bc_token cfg)]) (bs_events ?st3)"
        by (simp add: to_cache_def bao_now_def)
      moreover have "length (bs_events st) \<le> length ?h0"
        by (simp add: h)
      ultimately show ?thesis
        using served unfolding r by blast
    qed
  qed
qed

fun run_gets :: "bao_env \<Rightarrow> bao_config \<Rightarrow> string list \<Rightarrow> bao_state \<Rightarrow> bao_state" where
  "run_gets env cfg [] st = st"
| "run_gets env cfg (k # ks) st = run_gets env cfg ks (snd (bao_get env cfg k st))"

definition empty_cache :: bao_state where
  "empty_cache = \<lparr>bs_cache = [], bs_events = []\<rparr>"

lemma run_gets_ok: "cache_ok env cfg st \<Longrightarrow> cache_ok env cfg (run_gets env cfg ks st)"
proof (induction ks arbitrary: st)
  case (Cons k ks)
  have "cache_ok env cfg (snd (bao_get env cfg k st))"
    using bao_get_ok [OF Cons.prems] by (metis prod.collapse)
  then show ?case using Cons.IH by simp
qed simp

text \<open>C21. A secret is never older than the time to live: whatever was asked before, a value that Get
  returns is one the server gave for this very key, in a request made by this call or in one after
  which no more than the time to live has passed when the call starts.\<close>

theorem secret_not_stale:
  assumes "st = run_gets env cfg keys empty_cache" and "bao_get env cfg key st = (Inr v, st')"
  shows "\<exists>h0 url. served env cfg key v h0 \<and>
    prefix (h0 @ [Requested url (bc_token cfg)]) (bs_events st') \<and>
    (length (bs_events st) \<le> length h0 \<or>
     be_now env (bs_events st) \<le> be_now env (h0 @ [Requested url (bc_token cfg)]) + bc_cache_ttl cfg)"
proof -
  have "cache_ok env cfg empty_cache"
    by (simp add: cache_ok_def empty_cache_def)
  then have "cache_ok env cfg st"
    unfolding assms(1) by (rule run_gets_ok)
  from bao_get_ok [OF this assms(2)] show ?thesis
    by blast
qed

text \<open>A server with one secret, and a clock that stands still.\<close>

definition secret_body :: string where
  "secret_body = json_marshal (JObj [(''data'', JObj [(''data'', JObj [(''hf'', JStr ''s3'')])])])"

definition one_secret :: bao_env where
  "one_secret = \<lparr>be_now = (\<lambda>h. 0), be_reply = (\<lambda>h url token.
     if url = ''http://bao/v1/kv/data/bonnie'' then Reply 200 secret_body else Reply 404 [])\<rparr>"

theorem secret_not_stale_witness:
  "\<exists>st st'. st = run_gets one_secret (new_openbao ''http://bao'' ''t'' []) [''bonnie#hf''] empty_cache \<and>
     bao_get one_secret (new_openbao ''http://bao'' ''t'' []) ''bonnie#hf'' st = (Inr ''s3'', st') \<and>
     length (bs_events st') = 3 \<and>
     (\<exists>h0. served one_secret (new_openbao ''http://bao'' ''t'' []) ''bonnie#hf'' ''s3'' h0)"
proof -
  let ?cfg = "new_openbao ''http://bao'' ''t'' []"
  let ?st = "run_gets one_secret ?cfg [''bonnie#hf''] empty_cache"
  have url: "secret_url ?cfg ''bonnie'' = ''http://bao/v1/kv/data/bonnie''"
    by code_simp
  have reply: "secret_of_reply ''bonnie'' ''hf'' (Reply 200 secret_body) = Inr ''s3''"
    by code_simp
  have key: "parse_key ''bonnie#hf'' = Inr (''bonnie'', ''hf'')"
    by code_simp
  have env: "be_reply one_secret h ''http://bao/v1/kv/data/bonnie'' tok = Reply 200 secret_body" "be_now one_secret h = 0"
    for h tok
    by (simp_all add: one_secret_def)
  have cfg: "bc_token ?cfg = ''t''" "bc_cache_ttl ?cfg = default_cache_ttl" "0 < default_cache_ttl"
    by (simp_all add: new_openbao_def default_cache_ttl_def)
  have st: "?st = \<lparr>bs_cache = [(''bonnie#hf'', \<lparr>ce_value = ''s3'', ce_expires = default_cache_ttl\<rparr>)],
      bs_events = [Requested ''http://bao/v1/kv/data/bonnie'' ''t'', ClockRead]\<rparr>"
    by (simp add: bao_get_def key from_cache_def empty_cache_def fetch_secret_def Let_def url cfg env reply
        to_cache_def bao_now_def)
  have get: "bao_get one_secret ?cfg ''bonnie#hf'' ?st = (Inr ''s3'', ?st\<lparr>bs_events := bs_events ?st @ [ClockRead]\<rparr>)"
    unfolding st using cfg(3) by (simp add: bao_get_def key from_cache_def bao_now_def env)
  then show ?thesis
    using secret_not_stale [OF refl get] st by auto
qed

end
