(* ===== verification/Config.thy ===== *)
theory Config
  imports Secrets
begin

text \<open>
  The configuration of \<open>internal/config/config.go\<close>, loaded through any secrets provider, and the
  logging and version helpers of \<open>internal/flagcommons\<close> that it configures.
\<close>

section \<open>Loading\<close>

record config =
  cf_component :: string
  cf_log_level :: string
  cf_log_format :: string
  cf_listen_addr :: string
  cf_auth_token :: string
  cf_poll_interval :: int
  cf_docker_host :: string
  cf_model_storage_dir :: string
  cf_hf_token :: string

datatype config_error =
    ProviderRequired
  | AuthTokenRequired secret_error
  | PollNotInteger num_error
  | PollNotPositive int

type_synonym 's getter = "string \<Rightarrow> 's \<Rightarrow> (secret_error, string) result \<times> 's"
type_synonym 's default_getter = "string \<Rightarrow> string \<Rightarrow> 's \<Rightarrow> string \<times> 's"

definition load ::
  "('s getter \<times> 's default_getter) option \<Rightarrow> 's \<Rightarrow> (config_error, config) result \<times> 's" where
  "load provider s0 =
     (case provider of
        None \<Rightarrow> (Inl ProviderRequired, s0)
      | Some (get, get_or_default) \<Rightarrow>
     (case get ''BONNIE_AUTH_TOKEN'' s0 of
        (Inl e, s1) \<Rightarrow> (Inl (AuthTokenRequired e), s1)
      | (Inr auth_token, s1) \<Rightarrow>
     (case get_or_default ''BONNIE_POLL_INTERVAL'' ''10'' s1 of (poll_str, s2) \<Rightarrow>
     (case atoi poll_str of
        Inl e \<Rightarrow> (Inl (PollNotInteger e), s2)
      | Inr poll \<Rightarrow>
     (if poll \<le> 0 then (Inl (PollNotPositive poll), s2)
      else
     (case get_or_default ''bonnie/hf_token'' [] s2 of (hf1, s3) \<Rightarrow>
     (case (if hf1 = [] then get_or_default ''BONNIE_HF_TOKEN'' [] s3 else (hf1, s3)) of (hf2, s4) \<Rightarrow>
     (case (if hf2 = [] then get_or_default ''HF_TOKEN'' [] s4 else (hf2, s4)) of (hf3, s5) \<Rightarrow>
     (case get_or_default ''LOG_LEVEL'' ''info'' s5 of (log_level, s6) \<Rightarrow>
     (case get_or_default ''LOG_FORMAT'' ''text'' s6 of (log_format, s7) \<Rightarrow>
     (case get_or_default ''BONNIE_LISTEN_ADDR'' '':7777'' s7 of (addr, s8) \<Rightarrow>
     (case get_or_default ''BONNIE_DOCKER_HOST'' ''unix:///var/run/docker.sock'' s8 of (docker, s9) \<Rightarrow>
     (case get_or_default ''BONNIE_MODEL_STORAGE_DIR'' ''/var/lib/bonnie/models'' s9 of (dir, s10) \<Rightarrow>
       (Inr \<lparr>cf_component = ''bonnie'', cf_log_level = log_level, cf_log_format = log_format,
          cf_listen_addr = addr, cf_auth_token = auth_token, cf_poll_interval = poll,
          cf_docker_host = docker, cf_model_storage_dir = dir, cf_hf_token = hf3\<rparr>, s10))))))))))))))"

section \<open>Logging and version\<close>

datatype level = LevelDebug | LevelInfo | LevelWarn | LevelError

definition parse_level :: "string \<Rightarrow> level" where
  "parse_level s =
     (let t = map to_lower (trim_space s) in
      if t = ''debug'' then LevelDebug
      else if t = ''warn'' \<or> t = ''warning'' then LevelWarn
      else if t = ''error'' then LevelError
      else LevelInfo)"

text \<open>The functional options; an output is named by a number, standard error by 2.\<close>

record log_options =
  lo_level :: level
  lo_format :: string
  lo_output :: nat

type_synonym log_option = "log_options \<Rightarrow> log_options"

definition with_level :: "level \<Rightarrow> log_option" where
  "with_level l o1 = o1\<lparr>lo_level := l\<rparr>"

definition with_format :: "string \<Rightarrow> log_option" where
  "with_format f o1 = o1\<lparr>lo_format := f\<rparr>"

definition with_output :: "nat \<Rightarrow> log_option" where
  "with_output w o1 = o1\<lparr>lo_output := w\<rparr>"

text \<open>The handlers of \<open>slog\<close> with their output and the level below which they drop a record.\<close>

datatype log_handler = TextHandler nat level | JsonHandler nat level

record logger =
  lg_handler :: log_handler
  lg_component :: string
  lg_version :: string

definition new_logger :: "string \<Rightarrow> string \<Rightarrow> log_option list \<Rightarrow> logger" where
  "new_logger version component opts =
     (let cfg = fold (\<lambda>opt o1. opt o1) opts \<lparr>lo_level = LevelInfo, lo_format = ''text'', lo_output = 2\<rparr> in
      \<lparr>lg_handler = (if lo_format cfg = ''json'' then JsonHandler (lo_output cfg) (lo_level cfg)
                     else TextHandler (lo_output cfg) (lo_level cfg)),
       lg_component = component, lg_version = version\<rparr>)"

definition config_logger :: "string \<Rightarrow> config \<Rightarrow> logger" where
  "config_logger version c =
     new_logger version (cf_component c)
       [with_level (parse_level (cf_log_level c)), with_format (cf_log_format c)]"

lemma config_logger_handler:
  "lg_handler (config_logger version c) =
     (if cf_log_format c = ''json'' then JsonHandler else TextHandler) 2 (parse_level (cf_log_level c))"
  by (simp add: config_logger_def new_logger_def with_level_def with_format_def)

definition version_info :: "string \<Rightarrow> string \<Rightarrow> string \<Rightarrow> string" where
  "version_info version commit date = version @ '' (commit: '' @ commit @ '', built: '' @ date @ '')''"

section \<open>Properties\<close>

text \<open>What is loaded through any provider has a positive interval that fits an \<open>int\<close>.\<close>

context secrets_provider
begin

lemma load_positive:
  assumes "load (Some (get, get_or_default)) s = (Inr c, s')"
  shows "0 < cf_poll_interval c \<and> cf_poll_interval c < 2 ^ 63 \<and> cf_component c = ''bonnie''"
proof -
  have "0 < cf_poll_interval c \<and> (\<exists>t. atoi t = Inr (cf_poll_interval c)) \<and> cf_component c = ''bonnie''"
    using assms by (auto simp: load_def Let_def split: sum.splits prod.splits if_splits)
  then show ?thesis
    using atoi_range by (auto simp: int64_range_def)
qed

lemma load_token:
  assumes "load (Some (get, get_or_default)) s = (Inr c, s')"
  shows "fst (get ''BONNIE_AUTH_TOKEN'' s) = Inr (cf_auth_token c)"
  using assms by (auto simp: load_def split: sum.splits prod.splits if_splits)

end

text \<open>The value of a variable, or the default where it is not set.\<close>

definition var :: "(string, string) gomap \<Rightarrow> string \<Rightarrow> string \<Rightarrow> string" where
  "var vars k d = (case gm_get vars k of None \<Rightarrow> d | Some v \<Rightarrow> v)"

definition first_set :: "string list \<Rightarrow> string" where
  "first_set vs = (case filter (\<lambda>v. v \<noteq> []) vs of [] \<Rightarrow> [] | v # _ \<Rightarrow> v)"

lemma env_default [simp]: "env_get_or_default k d vars = (var vars k d, vars)"
  by (simp add: env_get_or_default_def var_def split: option.split)

text \<open>C26. Loading from environment variables: it succeeds exactly when the authentication token is
  set and the interval is a positive integer of 64 bits, and then every setting is the variable or
  its default, the Hugging Face token the first of its three variables that is not empty, and the
  variables are left as they are.\<close>

theorem load_from_environment:
  "load (Some (env_get, env_get_or_default)) vars = (Inr c, vars') \<longleftrightarrow>
     vars' = vars \<and> gm_get vars ''BONNIE_AUTH_TOKEN'' = Some (cf_auth_token c) \<and>
     atoi (var vars ''BONNIE_POLL_INTERVAL'' ''10'') = Inr (cf_poll_interval c) \<and> 0 < cf_poll_interval c \<and>
     cf_component c = ''bonnie'' \<and>
     cf_log_level c = var vars ''LOG_LEVEL'' ''info'' \<and> cf_log_format c = var vars ''LOG_FORMAT'' ''text'' \<and>
     cf_listen_addr c = var vars ''BONNIE_LISTEN_ADDR'' '':7777'' \<and>
     cf_docker_host c = var vars ''BONNIE_DOCKER_HOST'' ''unix:///var/run/docker.sock'' \<and>
     cf_model_storage_dir c = var vars ''BONNIE_MODEL_STORAGE_DIR'' ''/var/lib/bonnie/models'' \<and>
     cf_hf_token c = first_set [var vars ''bonnie/hf_token'' [], var vars ''BONNIE_HF_TOKEN'' [], var vars ''HF_TOKEN'' []]"
proof -
  have hf: "(if (if a = [] then b else a) = [] then c else if a = [] then b else a) = first_set [a, b, c]"
    for a b c :: string
    by (simp add: first_set_def)
  show ?thesis
  proof (cases "gm_get vars ''BONNIE_AUTH_TOKEN''")
    case None
    then show ?thesis by (simp add: load_def env_get_def)
  next
    case (Some tok)
    show ?thesis
    proof (cases "atoi (var vars ''BONNIE_POLL_INTERVAL'' ''10'')")
      case (Inl e)
      then show ?thesis using Some by (simp add: load_def env_get_def)
    next
      case (Inr poll)
      have pair: "(if q then (x, vars) else (y, vars)) = (if q then x else y, vars)" for q and x y :: string
        by simp
      show ?thesis
      proof (cases "poll \<le> 0")
        case True
        then show ?thesis using Some Inr by (auto simp: load_def env_get_def)
      next
        case False
        have "load (Some (env_get, env_get_or_default)) vars =
          (Inr \<lparr>cf_component = ''bonnie'', cf_log_level = var vars ''LOG_LEVEL'' ''info'',
            cf_log_format = var vars ''LOG_FORMAT'' ''text'', cf_listen_addr = var vars ''BONNIE_LISTEN_ADDR'' '':7777'',
            cf_auth_token = tok, cf_poll_interval = poll,
            cf_docker_host = var vars ''BONNIE_DOCKER_HOST'' ''unix:///var/run/docker.sock'',
            cf_model_storage_dir = var vars ''BONNIE_MODEL_STORAGE_DIR'' ''/var/lib/bonnie/models'',
            cf_hf_token = first_set [var vars ''bonnie/hf_token'' [], var vars ''BONNIE_HF_TOKEN'' [], var vars ''HF_TOKEN'' []]\<rparr>, vars)"
          unfolding load_def option.case prod.case env_get_def Some sum.case env_default Inr
            if_not_P [OF False] pair hf ..
        moreover have "0 < poll"
          using False by simp
        ultimately show ?thesis
          using Some Inr by (auto intro!: config.equality)
      qed
    qed
  qed
qed

end
