(* ===== verification/Bonnie_Main.thy ===== *)
theory Bonnie_Main
  imports Http_Theorems Storage_Fetchers Gpu_Detect Config Container_Health
begin

text \<open>
  The agent of \<open>cmd/bonnie/main.go\<close>: the steps from the environment variables to the running service,
  and how it ends.  What the process meets on its host is a record: the variables, the server of
  secrets, the vendor tools, whether the Docker client can be built, the file system, and how the
  server comes to its end.
\<close>

datatype server_end = Signalled | ListenFailed string | ServeFailed string

record machine =
  mc_vars :: "(string, string) gomap"
  mc_bao :: bao_env
  mc_processes :: "string \<Rightarrow> string list \<Rightarrow> process_end"
  mc_atoi_other :: int
  mc_now :: timestamp
  mc_docker_error :: "string \<Rightarrow> string option"
  mc_hf_cli :: "string option"
  mc_hf_command :: command
  mc_fuel :: nat
  mc_world :: world
  mc_server_end :: "string \<Rightarrow> server_end"
  mc_shutdown_error :: "string option"

datatype main_error =
    ConfigFailed config_error
  | DockerFailed string
  | StoreFailed store_error
  | ShutdownFailed string

text \<open>What \<open>run\<close> has built when it starts the server.\<close>

record service =
  sv_config :: config
  sv_logger :: logger
  sv_poller :: poller
  sv_vendor :: vendor
  sv_store :: store
  sv_routes :: "route list"

text \<open>OpenBao if its two variables are set, the environment otherwise.\<close>

definition bootstrap :: "(string, string) gomap \<Rightarrow> provider" where
  "bootstrap vars =
     (case new_provider vars ''openbao'' of
        Inr p \<Rightarrow> p
      | Inl _ \<Rightarrow> (case new_provider vars ''env'' of Inr p \<Rightarrow> p | Inl _ \<Rightarrow> EnvProvider))"

definition load_config :: "machine \<Rightarrow> (config_error, config) result" where
  "load_config mc =
     (case bootstrap (mc_vars mc) of
        EnvProvider \<Rightarrow> fst (load (Some (env_get, env_get_or_default)) (mc_vars mc))
      | OpenBaoProvider c \<Rightarrow>
          fst (load (Some (bao_get (mc_bao mc) c, bao_get_or_default (mc_bao mc) c)) empty_cache))"

definition store_fetchers :: "machine \<Rightarrow> string \<Rightarrow> (string, fetcher) gomap" where
  "store_fetchers mc hf_token =
     [(''huggingface'', hf_fetch (mc_hf_cli mc) (mc_hf_command mc) (map (\<lambda>(k, v). k @ ''='' @ v) (mc_vars mc)) hf_token),
      (''nfs'', nfs_fetch (mc_fuel mc))]"

text \<open>Everything up to the start of the server.\<close>

definition start_service :: "string \<Rightarrow> machine \<Rightarrow> (main_error, service) result \<times> world" where
  "start_service version mc =
     (case load_config mc of
        Inl e \<Rightarrow> (Inl (ConfigFailed e), mc_world mc)
      | Inr c \<Rightarrow>
          (let snap = fst (detect (mc_atoi_other mc) (exec_runner (mc_processes mc)) (mc_now mc));
               p = poller_start (seconds (cf_poll_interval c)) snap
           in case mc_docker_error mc (cf_docker_host c) of
             Some e \<Rightarrow> (Inl (DockerFailed e), mc_world mc)
           | None \<Rightarrow>
               (case new_store (store_fetchers mc (cf_hf_token c)) (cf_model_storage_dir c) (mc_world mc) of
                  (Inl e, w) \<Rightarrow> (Inl (StoreFailed e), w)
                | (Inr st, w) \<Rightarrow>
                    (Inr \<lparr>sv_config = c, sv_logger = config_logger version c, sv_poller = p,
                       sv_vendor = sn_vendor (latest p), sv_store = st, sv_routes = new_router True True\<rparr>, w))))"

text \<open>The wait for a signal or the end of the server, and the shutdown: what \<open>run\<close> returns and the
  messages it logs on the way.  An error of the server is logged, not returned.\<close>

datatype notice = SignalReceived | ServerError string | AgentStopped

fun wait_notice :: "server_end \<Rightarrow> notice" where
  "wait_notice Signalled = SignalReceived"
| "wait_notice (ListenFailed e) = ServerError e"
| "wait_notice (ServeFailed e) = ServerError e"

definition run_main :: "string \<Rightarrow> machine \<Rightarrow> (main_error, unit) result \<times> notice list" where
  "run_main version mc =
     (case start_service version mc of
        (Inl e, w) \<Rightarrow> (Inl e, [])
      | (Inr sv, w) \<Rightarrow>
          (let ended = wait_notice (mc_server_end mc (cf_listen_addr (sv_config sv)))
           in case mc_shutdown_error mc of
             Some e \<Rightarrow> (Inl (ShutdownFailed e), [ended])
           | None \<Rightarrow> (Inr (), [ended, AgentStopped])))"

definition exit_status :: "string \<Rightarrow> machine \<Rightarrow> nat" where
  "exit_status version mc = (case fst (run_main version mc) of Inl _ \<Rightarrow> 1 | Inr _ \<Rightarrow> 0)"

text \<open>\<open>dockerChecker\<close>, the one check of the registry.\<close>

definition docker_checker :: "string option \<Rightarrow> int \<Rightarrow> checker" where
  "docker_checker ping ms = \<lparr>ck_name = ''docker'', ck_answer = ping, ck_latency_ms = ms\<rparr>"

text \<open>The environment of the handlers of a service.\<close>

definition service_env :: "service \<Rightarrow> api_env \<Rightarrow> api_env" where
  "service_env sv env = env\<lparr>ae_token := cf_auth_token (sv_config sv), ae_vendor := sv_vendor sv\<rparr>"

section \<open>The start\<close>

lemma started:
  assumes "start_service version mc = (Inr sv, w)"
  shows "load_config mc = Inr (sv_config sv)"
    and "sv_poller sv = poller_start (seconds (cf_poll_interval (sv_config sv)))
      (fst (detect (mc_atoi_other mc) (exec_runner (mc_processes mc)) (mc_now mc)))"
    and "mc_docker_error mc (cf_docker_host (sv_config sv)) = None"
  using assms by (auto simp: start_service_def Let_def split: sum.splits option.splits prod.splits)

lemma loaded:
  assumes "load_config mc = Inr c"
  shows "0 < cf_poll_interval c \<and> cf_poll_interval c < 2 ^ 63"
proof (cases "bootstrap (mc_vars mc)")
  case EnvProvider
  with assms have "load (Some (env_get, env_get_or_default)) (mc_vars mc) =
      (Inr c, snd (load (Some (env_get, env_get_or_default)) (mc_vars mc)))"
    by (simp add: load_config_def prod_eq_iff)
  then show ?thesis
    using env_provider.load_positive by blast
next
  case (OpenBaoProvider b)
  let ?p = "Some (bao_get (mc_bao mc) b, bao_get_or_default (mc_bao mc) b)"
  have "load ?p empty_cache = (Inr c, snd (load ?p empty_cache))"
    using assms OpenBaoProvider by (simp add: load_config_def prod_eq_iff)
  then show ?thesis
    using bao_provider.load_positive by blast
qed

lemma no_ticker_stuck:
  assumes "(poll_step D)\<^sup>*\<^sup>* (poller_start interval first, log_start) s" and "interval \<le> 0"
  shows "po_stage (fst s) \<in> {Launching, Crashed} \<and> po_interval (fst s) = interval \<and> pl_published (snd s) = []"
  using assms(1)
proof (induction rule: rtranclp_induct)
  case base
  then show ?case
    by (simp add: poller_start_def log_start_def)
next
  case (step t u)
  from step.hyps(2) step.IH assms(2) show ?case
    by (cases rule: poll_step.cases) (auto simp: subscribe_def)
qed

text \<open>What the interval decides: every run goes on without a crash, or no run gets past the launch.\<close>

definition poller_fate :: "(snapshot \<Rightarrow> bool) \<Rightarrow> poller \<Rightarrow> bool" where
  "poller_fate D p \<longleftrightarrow>
    (if 0 < po_interval p
     then \<forall>s. (poll_step D)\<^sup>*\<^sup>* (p, log_start) s \<longrightarrow> po_stage (fst s) \<noteq> Crashed
     else (\<exists>s. (poll_step D)\<^sup>*\<^sup>* (p, log_start) s \<and> po_stage (fst s) = Crashed) \<and>
       (\<forall>s. (poll_step D)\<^sup>*\<^sup>* (p, log_start) s \<longrightarrow>
          po_stage (fst s) \<in> {Launching, Crashed} \<and> pl_published (snd s) = []))"

lemma poller_fated: "poller_fate D (poller_start interval first)"
proof -
  have i: "po_interval (poller_start interval first) = interval"
    by (simp add: poller_start_def)
  show ?thesis
  proof (cases "0 < interval")
    case True
    then show ?thesis
      unfolding poller_fate_def i using poller_crash [of D interval first] by (simp only: if_True) force
  next
    case False
    then have "interval \<le> 0"
      by simp
    then show ?thesis
      unfolding poller_fate_def i using poller_crash [of D interval first] no_ticker_stuck [of D interval first] False
      by (simp only: if_False) blast
  qed
qed

text \<open>C24. The poll interval of a started service is positive as configured, but the poller runs with its
  product with 1000000000 wrapped to 64 bits.  Up to 9223372036 seconds the two agree; from there to
  18446744073 the wrapped interval is negative; at 18446744074 it is 290 milliseconds.  Where the
  wrapped interval is positive no run of the poller crashes.  Where it is not, the configuration was
  accepted all the same, no run of the poller ever gets past its launch, where its ticker panics, and
  nothing is ever polled or published.\<close>

theorem poll_interval_of_service:
  assumes "start_service version mc = (Inr sv, w)"
  shows "0 < cf_poll_interval (sv_config sv) \<and>
    po_interval (sv_poller sv) = sint (word_of_int (cf_poll_interval (sv_config sv) * 1000000000) :: 64 word) \<and>
    (cf_poll_interval (sv_config sv) \<le> 9223372036 \<longrightarrow>
       po_interval (sv_poller sv) = cf_poll_interval (sv_config sv) * 1000000000) \<and>
    (9223372036 < cf_poll_interval (sv_config sv) \<and> cf_poll_interval (sv_config sv) \<le> 18446744073 \<longrightarrow>
       po_interval (sv_poller sv) < 0) \<and>
    (cf_poll_interval (sv_config sv) = 18446744074 \<longrightarrow> po_interval (sv_poller sv) = 290448384) \<and>
    poller_fate D (sv_poller sv)"
proof -
  let ?n = "cf_poll_interval (sv_config sv)"
  have pos: "0 < ?n"
    using loaded [OF started(1) [OF assms(1)]] by simp
  note p = started(2) [OF assms(1)]
  have i: "po_interval (sv_poller sv) = seconds ?n"
    by (simp add: p poller_start_def)
  have at: "seconds 18446744074 = 290448384"
    by (simp add: seconds_signed signed_take_bit_def)
  have runs: "poller_fate D (sv_poller sv)"
    unfolding p by (rule poller_fated)
  show ?thesis
    using pos seconds_exact [of ?n] seconds_wraps(2) [of ?n] at
    unfolding i
    by (intro conjI impI runs) (simp_all add: seconds_def)
qed

definition host_vars :: "string \<Rightarrow> string \<Rightarrow> (string, string) gomap" where
  "host_vars token interval =
     [(''BONNIE_AUTH_TOKEN'', token), (''BONNIE_POLL_INTERVAL'', interval), (''BONNIE_MODEL_STORAGE_DIR'', ''/m'')]"

definition machine_with :: "string \<Rightarrow> string \<Rightarrow> machine" where
  "machine_with token interval =
     \<lparr>mc_vars = host_vars token interval,
      mc_bao = \<lparr>be_now = \<lambda>h. 0, be_reply = \<lambda>h url token. NoReply ''down''\<rparr>,
      mc_processes = \<lambda>c args. \<lparr>pe_stdout = [], pe_error = Some ''not found''\<rparr>, mc_atoi_other = 0, mc_now = zero_time,
      mc_docker_error = \<lambda>h. None, mc_hf_cli = None, mc_hf_command = \<lambda>bin args environ w. (Inr [], w), mc_fuel = 0,
      mc_world = \<lparr>w_fs = [([], Dir)], w_faults = [], w_cwd = Some ''/'', w_rand = 0\<rparr>,
      mc_server_end = \<lambda>a. ListenFailed ''address already in use'', mc_shutdown_error = None\<rparr>"

definition config_with :: "string \<Rightarrow> int \<Rightarrow> config" where
  "config_with token poll =
     \<lparr>cf_component = ''bonnie'', cf_log_level = ''info'', cf_log_format = ''text'', cf_listen_addr = '':7777'',
      cf_auth_token = token, cf_poll_interval = poll, cf_docker_host = ''unix:///var/run/docker.sock'',
      cf_model_storage_dir = ''/m'', cf_hf_token = []\<rparr>"

lemma machine_config: "atoi interval = Inr poll \<Longrightarrow> 0 < poll \<Longrightarrow> load_config (machine_with token interval) = Inr (config_with token poll)"
  by (simp add: load_config_def bootstrap_def new_provider_def getenv_def machine_with_def host_vars_def load_def
      env_get_def config_with_def var_def)

lemma machine_store: "\<exists>st w. new_store fetchers ''/m'' (mc_world (machine_with token interval)) = (Inr st, w)"
proof -
  have "with_path ''/m'' mkdir_all \<lparr>w_fs = [([], Dir)], w_faults = [], w_cwd = Some ''/'', w_rand = 0\<rparr> =
      (Inr (), snd (with_path ''/m'' mkdir_all \<lparr>w_fs = [([], Dir)], w_faults = [], w_cwd = Some ''/'', w_rand = 0\<rparr>))"
    by code_simp
  moreover have "fst (with_path (path_join ''/m'' ''index.json'') read_file
      (snd (with_path ''/m'' mkdir_all \<lparr>w_fs = [([], Dir)], w_faults = [], w_cwd = Some ''/'', w_rand = 0\<rparr>))) = Inl ENOENT"
    by code_simp
  ultimately show ?thesis
    by (simp add: new_store_def load_index_def index_path_def machine_with_def split: prod.split sum.split os_error.split) auto
qed

lemma machine_starts:
  assumes "atoi interval = Inr poll" and "0 < poll"
  shows "\<exists>sv w. start_service version (machine_with token interval) = (Inr sv, w) \<and> sv_config sv = config_with token poll"
proof -
  let ?mc = "machine_with token interval"
  obtain st w where "new_store (store_fetchers ?mc []) ''/m'' (mc_world ?mc) = (Inr st, w)"
    using machine_store by blast
  then show ?thesis
    using machine_config [OF assms] by (simp add: start_service_def config_with_def Let_def) (simp add: machine_with_def)
qed

lemma huge_poll: "atoi ''9223372037'' = Inr 9223372037"
  by (simp add: num_eval)

theorem poll_interval_of_service_witness:
  "\<exists>sv w. start_service ''v1'' (machine_with ''t'' ''9223372037'') = (Inr sv, w) \<and>
     cf_poll_interval (sv_config sv) = 9223372037 \<and> po_interval (sv_poller sv) < 0"
proof -
  obtain sv w where s: "start_service ''v1'' (machine_with ''t'' ''9223372037'') = (Inr sv, w)"
    "sv_config sv = config_with ''t'' 9223372037"
    using machine_starts [OF huge_poll, where version = "''v1''" and token = "''t''"] by auto
  then show ?thesis
    using poll_interval_of_service [OF s(1), of "\<lambda>_. True"] by (auto simp: config_with_def)
qed

section \<open>Tokens that no header can carry\<close>

text \<open>C25. A token that is empty or ends in a space is accepted as configuration and locks every client
  out: \<open>net/http\<close> strips the white space at the end of a header value, so no request below
  \<open>/api/v1/\<close>, routed or not, is ever authorized; each is answered with status 401 and changes nothing.\<close>

theorem token_locks_out:
  assumes "start_service version mc = (Inr sv, w)"
    and "cf_auth_token (sv_config sv) = [] \<or> last (cf_auth_token (sv_config sv)) = CHR '' ''"
    and "chi_mux mux" and "mux (sv_routes sv) req \<noteq> None \<or> hr_method req \<in> set chi_methods"
    and "has_prefix (hr_path req) ''/api/v1/''"
    and "header_get req ''Authorization'' = [] \<or> last (header_get req ''Authorization'') \<noteq> CHR '' ''"
  shows "fst (fst (serve mux unrouted (service_env sv env) None req a)) = a \<and>
    sent_status (snd (serve mux unrouted (service_env sv env) None req a)) = 401"
proof -
  have "sv_routes sv = new_router True True"
    using assms(1) by (auto simp: start_service_def Let_def split: sum.splits option.splits prod.splits)
  then have "hr_method req \<in> set chi_methods"
    using assms(4) routed_method [OF assms(3), of True True req] by fastforce
  then have m: "mounted req"
    using assms(5) by (simp add: mounted_def)
  have "\<not> authorized (cf_auth_token (sv_config sv)) req"
  proof
    assume "authorized (cf_auth_token (sv_config sv)) req"
    then obtain scheme where h: "header_get req ''Authorization'' = scheme @ '' '' @ cf_auth_token (sv_config sv)"
      by (auto simp: authorized_def)
    then show False
      using assms(2,6) by (cases "cf_auth_token (sv_config sv) = []") auto
  qed
  then show ?thesis
    by (simp add: serve_refused [OF assms(3) m] refused_answer service_env_def)
qed

theorem token_locks_out_witness:
  "\<exists>sv w. start_service ''v1'' (machine_with [] ''10'') = (Inr sv, w) \<and>
     sent_status (snd (serve first_match (\<lambda>_ _. Pair) (service_env sv sample_api) None
       (exec_call [(''Authorization'', ''Bearer'')]) sample_app)) = 401"
proof -
  have "atoi ''10'' = Inr 10"
    by (simp add: num_eval)
  then obtain sv w where s: "start_service ''v1'' (machine_with [] ''10'') = (Inr sv, w)" "sv_config sv = config_with [] 10"
    using machine_starts [where interval = "''10''" and poll = 10 and version = "''v1''" and token = "[]"] by auto
  have r: "sv_routes sv = new_router True True"
    using s(1) by (auto simp: start_service_def Let_def split: sum.splits option.splits prod.splits)
  have t: "cf_auth_token (sv_config sv) = [] \<or> last (cf_auth_token (sv_config sv)) = CHR '' ''"
    by (simp add: s(2) config_with_def)
  have m: "first_match (sv_routes sv) (exec_call [(''Authorization'', ''Bearer'')]) = Some (api_route ''POST'' ''/exec'' ExecE, [])"
    unfolding r by (rule exec_routed)
  then have m: "first_match (sv_routes sv) (exec_call [(''Authorization'', ''Bearer'')]) \<noteq> None \<or>
      hr_method (exec_call [(''Authorization'', ''Bearer'')]) \<in> set chi_methods"
    by simp
  have h: "header_get (exec_call [(''Authorization'', ''Bearer'')]) ''Authorization'' = [] \<or>
      last (header_get (exec_call [(''Authorization'', ''Bearer'')]) ''Authorization'') \<noteq> CHR '' ''"
    by (simp add: header_get_def exec_call_def)
  show ?thesis
    using s(1) token_locks_out [OF s(1) t reference.chi_mux_axioms m exec_path h] by blast
qed

section \<open>The end\<close>

text \<open>The exit status does not depend on how the server ended: a service that started and whose
  shutdown succeeds exits with status 0, also when it could not listen on its address at all and
  never served a request; the error is only logged.\<close>

theorem server_error_exits_zero:
  assumes "start_service version mc = (Inr sv, w)"
  shows "exit_status version mc = (if mc_shutdown_error mc = None then 0 else 1) \<and>
    exit_status version (mc\<lparr>mc_server_end := (\<lambda>a. ListenFailed e)\<rparr>) = exit_status version mc \<and>
    hd (snd (run_main version (mc\<lparr>mc_server_end := (\<lambda>a. ListenFailed e)\<rparr>))) = ServerError e"
proof -
  have "start_service version (mc\<lparr>mc_server_end := f\<rparr>) = start_service version mc" for f
    by (simp add: start_service_def load_config_def store_fetchers_def
        cong: sum.case_cong option.case_cong prod.case_cong provider.case_cong)
  then show ?thesis
    using assms by (simp add: exit_status_def run_main_def Let_def split: option.split)
qed

theorem server_error_exits_zero_witness:
  "exit_status ''v1'' (machine_with ''t'' ''10'') = 0"
proof -
  have "atoi ''10'' = Inr 10"
    by (simp add: num_eval)
  then obtain sv w where "start_service ''v1'' (machine_with ''t'' ''10'') = (Inr sv, w)"
    using machine_starts [where interval = "''10''" and poll = 10 and version = "''v1''" and token = "''t''"] by auto
  then show ?thesis
    using server_error_exits_zero by (simp add: machine_with_def)
qed

end
