(* ===== verification/Bonnie_Restart.thy ===== *)
theory Bonnie_Restart
  imports Bonnie_Main Storage_Theorems
begin

text \<open>
  The cache across a restart of the agent, as its clients see it: a model that one process fetched for
  a client is on the list that the next process serves.  The parts are those of \<open>Storage_Theorems\<close>
  (memory and \<open>index.json\<close> agree after a fetch, and opening the directory restores the entries),
  \<open>Http_Theorems\<close> (what a served request answers) and \<open>Bonnie_Main\<close> (what a start builds).
\<close>

section \<open>The service and its clients\<close>

text \<open>\<open>main\<close> hands its store to the router; the state of a service that has just started.\<close>

definition with_store :: "(string \<Rightarrow> string) \<Rightarrow> flight \<Rightarrow> timestamp \<Rightarrow> api_env \<Rightarrow> api_env" where
  "with_store sha256 fl now env = env\<lparr>ae_store := the_store sha256 fl now\<rparr>"

definition booted :: "service \<Rightarrow> world \<Rightarrow> app" where
  "booted sv w = \<lparr>ap_models = (sv_store sv, w), ap_docker = [], ap_poller = sv_poller sv, ap_commands = []\<rparr>"

text \<open>What a client reads from the body of an answer.\<close>

definition client_entry :: "string \<Rightarrow> entry option" where
  "client_entry body = (case json_parse body of None \<Rightarrow> None | Some j \<Rightarrow> entry_of_json j)"

lemma client_entry_line: "entry_wf e \<Longrightarrow> client_entry (json_marshal (entry_json e) @ [lf]) = Some e"
  using json_parse_line [OF json_ok_entry [of e]] by (simp add: client_entry_def lf_def entry_of_json_entry)

lemma client_entries_line:
  assumes "\<forall>e \<in> set es. entry_wf e"
  shows "index_parse (json_marshal (JArr (map entry_json es)) @ [lf]) = Some es"
proof -
  have "json_ok (JArr (map entry_json es))"
    by simp
  moreover have "dec_elems entry_of_json (map (json_utf8 \<circ> entry_json) es) = Some es"
    using assms by (intro dec_elems_map) (simp add: entry_of_json_entry)
  ultimately show ?thesis
    using json_parse_line [of "JArr (map entry_json es)"] by (simp add: index_parse_def lf_def dec_list_def)
qed

lemma json_body:
  "rs_body (finish_response (json_response 200 j (new_response None))) = json_marshal j @ [lf]"
  "sent_status (finish_response (json_response c j (new_response None))) = c"
  by (auto simp: finish_response_def json_response_def write_body_def send_header_def set_header_def new_response_def
      flush_body_def sent_status_def body_allowed_def Let_def lf_def split: option.split)

lemma finish_status: "sent_status (finish_response r) = sent_status r"
  by (simp add: finish_response_def)

section \<open>One process\<close>

lemma models_fetch_answer:
  assumes "decode_body fetch_fields zero_fetch req = Some rq" and "rq_source rq \<noteq> []" and "rq_model_id rq \<noteq> []"
  shows "models_fetch server_writer text ms req s (new_response left) =
    (case ms_fetch ms rq s of
       (Inl e, s') \<Rightarrow> (s', json_response 500 (error_json (text e)) (new_response left))
     | (Inr e, s') \<Rightarrow> (s', json_response 200 (entry_json e) (new_response left)))"
  using assms by (simp add: models_fetch_def server.write_error_resp server.send_json_resp split: prod.split sum.split)

lemma fetch_served:
  assumes mux: "chi_mux mux" "mux (new_router True True) req = Some (r, i)" "rt_endpoint r = ModelsFetchE"
    and req: "decode_body fetch_fields zero_fetch req = Some rq" "rq_source rq \<noteq> []" "rq_model_id rq \<noteq> []"
    and f: "fetch sha256 fl now rq (ap_models a) = (x, s')"
  shows "serve mux unrouted (with_store sha256 fl now env) None req a =
    (let (a', rsp) =
       (if has_prefix (hr_path req) ''/api/v1/'' \<and> \<not> authorized (ae_token env) req then (a, refused None req)
        else (a\<lparr>ap_models := s'\<rparr>,
          case x of
            Inl e \<Rightarrow> json_response 500 (error_json (ae_error_text env e)) (new_response None)
          | Inr e \<Rightarrow> json_response 200 (entry_json e) (new_response None)))
     in ((a', [RequestLine (hr_method req) (hr_path req) (sent_status rsp)]), finish_response rsp))"
proof -
  let ?env = "with_store sha256 fl now env"
  have ms: "ms_fetch (ae_store ?env) = fetch sha256 fl now" "ae_error_text ?env = ae_error_text env" "ae_token ?env = ae_token env"
    by (simp_all add: with_store_def the_store_def)
  have "handled ?env r i None req a = (a\<lparr>ap_models := s'\<rparr>,
      case x of
        Inl e \<Rightarrow> json_response 500 (error_json (ae_error_text env e)) (new_response None)
      | Inr e \<Rightarrow> json_response 200 (entry_json e) (new_response None))"
    by (simp add: handled_def endpoint_handler_def mux(3) on_models_def models_fetch_answer [OF req] ms f split: sum.split)
  then show ?thesis
    by (simp only: serve_routed [OF mux(1,2)] ms)
qed

text \<open>A fetch answered with status 200 went through, and the answer is the entry.\<close>

lemma fetch_answered:
  assumes mux: "chi_mux mux" "mux (new_router True True) req = Some (r, i)" "rt_endpoint r = ModelsFetchE"
    and req: "decode_body fetch_fields zero_fetch req = Some rq" "rq_source rq \<noteq> []" "rq_model_id rq \<noteq> []"
    and served: "serve mux unrouted (with_store sha256 fl now env) None req a = ((a', l), rsp)" "sent_status rsp = 200"
  obtains e where "fetch sha256 fl now rq (ap_models a) = (Inr e, ap_models a')"
    and "rs_body rsp = json_marshal (entry_json e) @ [lf]"
proof -
  obtain x s' where x: "fetch sha256 fl now rq (ap_models a) = (x, s')"
    by (metis prod.exhaust)
  have "sent_status (finish_response (refused None req)) = 401"
    by (simp add: refused_def json_body)
  with served have "\<exists>e. x = Inr e \<and> ap_models a' = s' \<and> rs_body rsp = json_marshal (entry_json e) @ [lf]"
    by (cases x) (auto simp: fetch_served [OF mux req x] json_body Let_def split: if_splits)
  with x that show thesis
    by blast
qed

text \<open>The list of models as a client with the token gets it.\<close>

lemma list_answered:
  assumes mux: "chi_mux mux" "mux (new_router True True) req = Some (r, i)" "rt_endpoint r = ModelsListE"
    and "authorized (ae_token env) req"
  shows "snd (serve mux unrouted (with_store sha256 fl now env) None req a) =
    finish_response (json_response 200 (JArr (map entry_json (list_models (ap_models a)))) (new_response None))"
proof -
  have "authorized (ae_token (with_store sha256 fl now env)) req"
    using assms(4) by (simp add: with_store_def)
  then show ?thesis
    by (simp add: serve_routed [OF mux(1,2)] handled_def endpoint_handler_def mux(3) on_models_def models_list_def
        with_store_def the_store_def server.send_json_resp Let_def)
qed

section \<open>The next process\<close>

text \<open>A start on the world of a store that was in step with its index serves the same list.\<close>

lemma restarted:
  assumes "in_sync st w" and "place_ok st w" and "w_faults w = []" and "dir_comps st w = Some d"
    and "dir_path (w_fs w) d" and "list_all (\<lambda>(i, e). entry_wf e) (st_entries st)" and "store_inv st"
    and "load_config mc = Inr c" and "mc_world mc = w" and "cf_model_storage_dir c = st_dir st"
    and "mc_docker_error mc (cf_docker_host c) = None"
  obtains sv where "start_service version mc = (Inr sv, w)" and "sv_config sv = c"
    and "list_models (ap_models (booted sv w)) = sorted_entries st"
proof -
  let ?st = "\<lambda>fs. fold put_entry (sorted_entries st) (empty_store fs (st_dir st))"
  note new = reopened [OF assms(1-6)]
  obtain sv where "start_service version mc = (Inr sv, w)" "sv_config sv = c"
      "sv_store sv = ?st (store_fetchers mc (cf_hf_token c))"
    using assms(8-11) by (simp add: start_service_def Let_def new)
  with reload_sorted [OF assms(7)] show thesis
    by (intro that [of sv]) (simp_all add: booted_def list_models_def)
qed

text \<open>C3.  From the client's side: if a request to fetch a model is answered with status 200 and the
  agent is restarted on the disk it left, the new process comes up and answers the list request of
  an authorized client with all the models the old process had, among them the very entry that the
  first answer carried.\<close>

theorem fetched_model_survives_restart:
  assumes mux: "chi_mux mux"
    and post: "mux (new_router True True) preq = Some (pr, pi)" "rt_endpoint pr = ModelsFetchE"
      "decode_body fetch_fields zero_fetch preq = Some rq"
    and get: "mux (new_router True True) greq = Some (gr, gi)" "rt_endpoint gr = ModelsListE"
      "authorized (cf_auth_token c) greq"
    and store: "ap_models a = (st, w)" "store_inv st" "place_ok st w" "request_ok rq st f" "fetcher_contract f"
      "flight_ok fl" "collision_free sha256 st rq" "dest_clear sha256 st rq w"
    and first: "serve mux unrouted (with_store sha256 fl now env) None preq a = ((a', l), rsp)" "sent_status rsp = 200"
      "ap_models a' = (st', w')"
    and disk: "w_faults w' = []" "dir_comps st' w' = Some d" "dir_path (w_fs w') d"
      "list_all (\<lambda>(i, e). entry_wf e) (st_entries st')"
    and mc: "load_config mc = Inr c" "mc_world mc = w'" "cf_model_storage_dir c = st_dir st'"
      "mc_docker_error mc (cf_docker_host c) = None"
  shows "\<exists>sv e. start_service version mc = (Inr sv, w') \<and> client_entry (rs_body rsp) = Some e \<and> ekey e = rkey rq \<and>
    (case serve mux unrouted (with_store sha256' fl' now' (service_env sv env')) None greq (booted sv w') of
       (_, page) \<Rightarrow>
         sent_status page = 200 \<and> index_parse (rs_body page) = Some (list_models (ap_models a')) \<and>
         e \<in> set (list_models (ap_models a')))"
proof -
  have rq: "rq_source rq \<noteq> []" "rq_model_id rq \<noteq> []"
    using store(4) by (simp_all add: request_ok_def)
  obtain e where f: "fetch sha256 fl now rq (st, w) = (Inr e, (st', w'))"
    and body: "rs_body rsp = json_marshal (entry_json e) @ [lf]"
    by (rule fetch_answered [OF mux post(1,2,3) rq first(1,2)]) (simp add: store(1) first(3))
  note stored = fetch_succeeds [OF store(4,5,6,2,7,3,8) f]
  from stored have inv: "store_inv st'" and sync: "in_sync st' w'" and e: "staged st' (rkey rq) = Some e"
    and place: "place_ok st' w'"
    using store(3) by (auto simp: place_ok_def changes_only_def)
  obtain sv where sv: "start_service version mc = (Inr sv, w')" "sv_config sv = c"
    and same: "list_models (ap_models (booted sv w')) = sorted_entries st'"
    by (rule restarted [OF sync place disk inv mc])
  have wf: "\<forall>e \<in> set (sorted_entries st'). entry_wf e"
    by (rule sorted_entries_wf [OF disk(4)])
  have mem: "e \<in> set (sorted_entries st')" and key: "ekey e = rkey rq"
    using e staged_iff [OF inv] sorted_entries_set [OF inv] by simp_all
  then have entry: "client_entry (rs_body rsp) = Some e"
    using wf client_entry_line by (simp add: body)
  have "authorized (ae_token (service_env sv env')) greq"
    using get(3) sv(2) by (simp add: service_env_def)
  then have page: "snd (serve mux unrouted (with_store sha256' fl' now' (service_env sv env')) None greq (booted sv w')) =
      finish_response (json_response 200 (JArr (map entry_json (sorted_entries st'))) (new_response None))"
    unfolding same [symmetric] by (rule list_answered [OF mux get(1,2)])
  show ?thesis
    using sv(1) entry key page mem client_entries_line [OF wf]
    by (auto simp: same json_body first(3) list_models_def split: prod.split)
qed

section \<open>An example\<close>

definition post_fetch :: request where
  "post_fetch = \<lparr>hr_method = ''POST'', hr_path = ''/api/v1/models/fetch'', hr_headers = bearer,
     hr_body = json_marshal (JObj [(''source'', JStr ''nfs''), (''model_id'', JStr ''m''),
       (''mount_source'', JStr ''/mnt''), (''subpath'', JStr ''x'')])\<rparr>"

definition get_models :: request where
  "get_models = \<lparr>hr_method = ''GET'', hr_path = ''/api/v1/models'', hr_headers = bearer, hr_body = []\<rparr>"

definition ex_app :: app where
  "ex_app = sample_app\<lparr>ap_models := (ex_store, ex_world)\<rparr>"

definition restart_machine :: "world \<Rightarrow> machine" where
  "restart_machine w = (machine_with [] [])
     \<lparr>mc_vars := [(''BONNIE_AUTH_TOKEN'', ''s3cret''), (''BONNIE_MODEL_STORAGE_DIR'', ''/models'')], mc_world := w\<rparr>"

lemma post_routed: "first_match (new_router True True) post_fetch = Some (api_route ''POST'' ''/models/fetch'' ModelsFetchE, [])"
  by code_simp

lemma get_routed: "first_match (new_router True True) get_models = Some (api_route ''GET'' ''/models'' ModelsListE, [])"
  by code_simp

lemma post_decodes: "decode_body fetch_fields zero_fetch post_fetch = Some (ex_request ''m'')"
  by code_simp

lemma bearer_authorized: "hr_headers req = bearer \<Longrightarrow> authorized ''s3cret'' req"
proof -
  assume "hr_headers req = bearer"
  then have "header_get req ''Authorization'' = ''bearer'' @ '' '' @ ''s3cret''"
    by (simp add: header_get_def bearer_def)
  moreover have "equal_fold ''bearer'' ''Bearer''"
    by code_simp
  ultimately show ?thesis
    unfolding authorized_def by blast
qed

lemma restart_config: "\<exists>c. load_config (restart_machine w) = Inr c \<and> cf_model_storage_dir c = ''/models'' \<and>
    cf_auth_token c = ''s3cret''"
proof -
  have "atoi ''10'' = Inr 10"
    by (simp add: num_eval)
  then show ?thesis
    by (simp add: load_config_def bootstrap_def new_provider_def getenv_def restart_machine_def machine_with_def
        load_def env_get_def var_def)
qed

lemma ex_hit:
  obtains w' where "fetch ex_sha (\<lambda>k f s. f s) ex_now (ex_request ''m'') (ex_store, ex_world) =
      (Inr (ex_entry\<lparr>e_last_used_at := ex_now\<rparr>), (touch ex_now (e_id ex_entry) ex_entry ex_store, w'))"
    and "w_faults w' = []" and "changes_only (index_file ex_store ex_world) ex_world w'"
proof -
  let ?st = "touch ex_now (e_id ex_entry) ex_entry ex_store"
  have "dir_comps ?st ex_world = Some [''models'']"
    using ex_dir by (simp add: dir_comps_def)
  then obtain w' where w': "save_index ?st ex_world = (Inr (), w')" "w_faults w' = []"
    using save_index_succeeds [of ?st ex_world "[''models'']"] ex_place by (auto simp: ex_world_def node_at_def)
  have "changes_only (index_file ?st ex_world) ex_world w'"
    by (rule save_index_ok(2) [OF w'(1)]) (simp add: ex_place)
  moreover have "index_file ?st ex_world = index_file ex_store ex_world"
    by (simp add: index_file_def dir_comps_def fun_eq_iff)
  ultimately show thesis
    using that w' fetch_hit_eq [OF ex_request_ok ex_inv ex_staged] by simp
qed

theorem fetched_model_survives_restart_witness:
  "\<exists>w' sv e es. start_service ''v1'' (restart_machine w') = (Inr sv, w') \<and>
    client_entry (rs_body (snd (serve first_match (\<lambda>_ _. Pair)
      (with_store ex_sha (\<lambda>k f s. f s) ex_now sample_api) None post_fetch ex_app))) = Some e \<and>
    index_parse (rs_body (snd (serve first_match (\<lambda>_ _. Pair)
      (with_store ex_sha (\<lambda>k f s. f s) ex_now (service_env sv sample_api)) None get_models (booted sv w')))) = Some es \<and>
    e \<in> set es"
proof -
  let ?env = "with_store ex_sha (\<lambda>k f s. f s) ex_now sample_api" and ?st = "touch ex_now (e_id ex_entry) ex_entry ex_store"
  obtain w' where hit: "fetch ex_sha (\<lambda>k f s. f s) ex_now (ex_request ''m'') (ex_store, ex_world) =
      (Inr (ex_entry\<lparr>e_last_used_at := ex_now\<rparr>), (?st, w'))"
    and w': "w_faults w' = []" "changes_only (index_file ex_store ex_world) ex_world w'"
    by (rule ex_hit)
  obtain c where c: "load_config (restart_machine w') = Inr c" "cf_model_storage_dir c = ''/models''" "cf_auth_token c = ''s3cret''"
    using restart_config by blast
  obtain a' l rsp where s: "serve first_match (\<lambda>_ _. Pair) ?env None post_fetch ex_app = ((a', l), rsp)"
    by (metis prod.exhaust)
  have "authorized (ae_token ?env) post_fetch"
    using bearer_authorized [of post_fetch] by (simp add: with_store_def sample_api_def post_fetch_def)
  then have "serve first_match (\<lambda>_ _. Pair) ?env None post_fetch ex_app =
      ((ex_app\<lparr>ap_models := (?st, w')\<rparr>, l), rsp) \<and> sent_status rsp = 200"
    using s hit fetch_served [OF reference.chi_mux_axioms post_routed _ post_decodes, of ex_sha "\<lambda>k f s. f s" ex_now ex_app]
    by (auto simp: api_route_def ex_app_def ex_request_def with_store_def json_body)
  then have first: "serve first_match (\<lambda>_ _. Pair) ?env None post_fetch ex_app = ((ex_app\<lparr>ap_models := (?st, w')\<rparr>, l), rsp)"
    "sent_status rsp = 200"
    by simp_all
  have rfc: "rfc3339_ok ex_now" "rfc3339_ok ''2024-01-01T00:00:00Z''"
    by code_simp+
  have wf: "list_all (\<lambda>(i, e). entry_wf e) (st_entries ?st)"
    using rfc by code_simp
  have dir: "dir_comps ?st w' = Some [''models'']"
    using ex_dir changes_only_cwd [OF w'(2)] by (simp add: dir_comps_def)
  have path: "dir_path (w_fs w') [''models'']"
    using ex_dir_path w'(2) by (auto simp: dir_path_iff changes_only_def index_file_def prefix_Cons)
  have "\<exists>sv e. start_service ''v1'' (restart_machine w') = (Inr sv, w') \<and> client_entry (rs_body rsp) = Some e \<and>
      ekey e = rkey (ex_request ''m'') \<and>
      (case serve first_match (\<lambda>_ _. Pair) (with_store ex_sha (\<lambda>k f s. f s) ex_now (service_env sv sample_api)) None
          get_models (booted sv w') of
         (_, page) \<Rightarrow> sent_status page = 200 \<and>
           index_parse (rs_body page) = Some (list_models (ap_models (ex_app\<lparr>ap_models := (?st, w')\<rparr>))) \<and>
           e \<in> set (list_models (ap_models (ex_app\<lparr>ap_models := (?st, w')\<rparr>))))"
  proof (rule fetched_model_survives_restart [OF reference.chi_mux_axioms post_routed _ post_decodes get_routed _ _ _
        ex_inv ex_place ex_request_ok nfs.fetcher_contract_axioms ex_flight ex_collision_free ex_dest_clear first _
        w'(1) dir path wf c(1)])
    show "authorized (cf_auth_token c) get_models"
      by (simp add: c(3) bearer_authorized get_models_def)
  qed (simp_all add: api_route_def ex_app_def restart_machine_def machine_with_def c(2) ex_store_def)
  then show ?thesis
    unfolding first(1) snd_conv case_prod_unfold by blast
qed

end
