(* ===== verification/Bonnie_Service.thy ===== *)
theory Bonnie_Service
  imports Bonnie_Restart Storage_Concurrent
begin

text \<open>
  The service over any sequence of requests: whatever clients ask for, with or without the token,
  in whatever order and whichever system call fails, the cache stays consistent and the list of
  models stays a list without duplicates.
\<close>

section \<open>One operation of the store\<close>

text \<open>The sequential \<open>Fetch\<close> keeps the invariant of the concurrent one.\<close>

lemma use_existing_keeps:
  assumes "store_ok sha256 reqs st" and "use_existing now e (st, w) = (r, (st', w'))"
  shows "store_ok sha256 reqs st'"
proof -
  obtain r1 st1 w1 where m: "mark_used now (e_id e) (st, w) = (r1, (st1, w1))"
    by (metis prod.exhaust)
  with assms(2) have "st' = st1"
    by (simp add: use_existing_def split: sum.splits)
  with mark_used_evolves [OF assms(1) m] show ?thesis
    by (simp add: evolves_def)
qed

lemma do_fetch_keeps:
  assumes ok: "store_ok sha256 reqs st" and "req \<in> reqs" and "staged st (rkey req) = None"
    and "do_fetch sha256 f now req (st, w) = (r, (st', w'))"
  shows "store_ok sha256 reqs st'"
proof -
  have inv: "store_inv st"
    using ok by (simp add: store_ok_def)
  have "st' = st \<or> (\<exists>sz files e. e = new_entry sha256 st now req sz files \<and>
      st' \<in> {put_entry e st, drop_entry (e_id e) e (put_entry e st)})"
    using assms(4) by (auto simp: do_fetch_dest Let_def simp del: new_entry_names split: prod.splits sum.splits if_splits)
  then show ?thesis
  proof (elim disjE exE conjE)
    fix sz files e
    assume e: "e = new_entry sha256 st now req sz files"
      and st': "st' \<in> {put_entry e st, drop_entry (e_id e) e (put_entry e st)}"
    have "e_id e = rid sha256 req" "ekey e = rkey req"
      by (simp_all add: e)
    note put = evolves_put [OF ok assms(2) this assms(3)]
    have "store_inv (drop_entry (e_id e) e (put_entry e st))"
      using inv put(3) by (rule store_inv_same_maps)
        (simp_all add: drop_entry_def put_entry_def store_inv_maps [OF inv])
    then have "evolves False None sha256 reqs st (drop_entry (e_id e) e (put_entry e st))"
      by (rule evolves_same [OF ok put(3)])
    with put(1) [of False] st' show ?thesis
      by (auto simp: evolves_def)
  qed (simp add: ok)
qed

lemma fetch_keeps:
  assumes ok: "store_ok sha256 reqs st" and "req \<in> reqs" and "flight_ok fl"
    and f: "fetch sha256 fl now req (st, w) = (r, (st', w'))"
  shows "store_ok sha256 reqs st'"
proof (cases "\<exists>f. request_ok req st f")
  case False
  with fetch_rejects [of req st sha256 fl now w] f ok show ?thesis
    by auto
next
  case True
  then obtain g where g: "request_ok req st g" ..
  show ?thesis
  proof (cases "lookup_by_key st (rkey req)")
    case None
    with f do_fetch_keeps [OF ok assms(2)] show ?thesis
      by (simp add: fetch_absent [OF g None assms(3)] staged_lookup)
  next
    case (Some e)
    with f use_existing_keeps [OF ok] show ?thesis
      by (simp add: fetch_present [OF g Some])
  qed
qed

lemma delete_keeps:
  "store_ok sha256 reqs st \<Longrightarrow> delete_model i (st, w) = (r, (st', w')) \<Longrightarrow> store_ok sha256 reqs st'"
  using delete_evolves [of sha256 reqs st i w r st' w'] by (simp add: evolves_def)

section \<open>One request\<close>

definition app_ok :: "(string \<Rightarrow> string) \<Rightarrow> fetch_request set \<Rightarrow> app \<Rightarrow> bool" where
  [inv_defs]: "app_ok sha256 reqs a \<longleftrightarrow> store_ok sha256 reqs (fst (ap_models a))"

text \<open>The fetch that a request asks for: its body decodes to one with a source and a model.\<close>

definition fetches :: "request \<Rightarrow> fetch_request set" where
  "fetches req = {rq. decode_body fetch_fields zero_fetch req = Some rq \<and> rq_source rq \<noteq> [] \<and> rq_model_id rq \<noteq> []}"

lemma endpoint_keeps:
  assumes "app_ok sha256 reqs a" and "flight_ok fl"
    and "fetches req \<subseteq> reqs"
  shows "app_ok sha256 reqs (fst (endpoint_handler (with_store sha256 fl now env) ops e i req a w))"
proof -
  obtain st v where s: "ap_models a = (st, v)" by force
  have ok: "store_ok sha256 reqs st"
    using assms(1) s by (simp add: app_ok_def)
  show ?thesis
  proof (cases e)
    case ModelsFetchE
    show ?thesis
    proof (cases "decode_body fetch_fields zero_fetch req")
      case (Some rq)
      obtain r st' v' where f: "fetch sha256 fl now rq (st, v) = (r, (st', v'))"
        by (metis prod.exhaust)
      have "store_ok sha256 reqs st'" if "rq_source rq \<noteq> []" "rq_model_id rq \<noteq> []"
        by (rule fetch_keeps [OF ok _ assms(2) f]) (use assms(3) Some that in \<open>auto simp: fetches_def\<close>)
      with ok show ?thesis
        by (simp add: ModelsFetchE endpoint_handler_def on_models_def models_fetch_def Some s f with_store_def
            the_store_def app_ok_def split: sum.split)
    qed (use assms(1) in \<open>simp add: ModelsFetchE endpoint_handler_def on_models_def models_fetch_def app_ok_def
        split: prod.split\<close>)
  next
    case ModelsDeleteE
    obtain r st' v' where d: "delete_model i (st, v) = (r, (st', v'))"
      by (metis prod.exhaust)
    with ok delete_keeps [OF ok d] show ?thesis
      by (simp add: ModelsDeleteE endpoint_handler_def on_models_def models_delete_def s with_store_def the_store_def
          app_ok_def split: sum.split)
  qed (use assms(1) in \<open>simp_all add: endpoint_handler_def on_models_def on_docker_def on_poller_def on_commands_def
      models_list_def with_store_def the_store_def app_ok_def health_handler_def ready_handler_def
      system_info_handler_def Let_def case_prod_unfold split: option.split sum.split\<close>)
qed

text \<open>What chi answers to a request that no route takes does not reach the service.\<close>

definition keeps_state :: "(response logged writer \<Rightarrow> (response logged, app) handler) \<Rightarrow> bool" where
  "keeps_state unrouted \<longleftrightarrow> (\<forall>ops req a w. fst (unrouted ops req a w) = a)"

lemma serve_unrouted:
  assumes "mux (new_router True True) req = None" and "keeps_state unrouted"
  shows "fst (fst (serve mux unrouted env left req a)) = a"
  using assms(2)
  by (simp add: serve_def recovery_def logging_def no_panic_def router_def assms(1) auth_guard keeps_state_def
      case_prod_unfold)

lemma serve_keeps:
  assumes "chi_mux mux" and "keeps_state unrouted" and "app_ok sha256 reqs a" and "flight_ok fl"
    and "fetches req \<subseteq> reqs"
  shows "app_ok sha256 reqs (fst (fst (serve mux unrouted (with_store sha256 fl now env) left req a)))"
proof (cases "mux (new_router True True) req")
  case None
  with assms(2,3) show ?thesis
    by (simp add: serve_unrouted)
next
  case (Some ri)
  obtain r i where ri: "ri = (r, i)" by force
  have "app_ok sha256 reqs (fst (handled (with_store sha256 fl now env) r i left req a))"
    unfolding handled_def by (rule endpoint_keeps [OF assms(3-5)])
  with assms(3) show ?thesis
    by (simp add: serve_routed [OF assms(1) Some [unfolded ri]] Let_def case_prod_unfold)
qed

section \<open>Any sequence of requests\<close>

text \<open>A request with what the world answers while it is served, and the time of use it writes.\<close>

type_synonym visit = "api_env \<times> timestamp \<times> request"

definition serve_all ::
  "mux \<Rightarrow> (response logged writer \<Rightarrow> (response logged, app) handler) \<Rightarrow> (string \<Rightarrow> string) \<Rightarrow> flight \<Rightarrow>
   visit list \<Rightarrow> app \<Rightarrow> app" where
  "serve_all mux unrouted sha256 fl =
     fold (\<lambda>(env, now, req) a. fst (fst (serve mux unrouted (with_store sha256 fl now env) None req a)))"

definition fetches_of :: "visit list \<Rightarrow> fetch_request set" where
  "fetches_of vs = (\<Union>(env, now, req) \<in> set vs. fetches req)"

lemma serve_all_keeps:
  assumes "chi_mux mux" and "keeps_state unrouted" and "flight_ok fl"
  shows "app_ok sha256 reqs a \<Longrightarrow> fetches_of vs \<subseteq> reqs \<Longrightarrow> app_ok sha256 reqs (serve_all mux unrouted sha256 fl vs a)"
proof (induction vs arbitrary: a)
  case (Cons v vs)
  obtain env now req where v: "v = (env, now, req)"
    by (metis prod.exhaust)
  have "fetches req \<subseteq> reqs"
    using Cons.prems(2) v by (auto simp: fetches_of_def)
  then have "app_ok sha256 reqs (fst (fst (serve mux unrouted (with_store sha256 fl now env) None req a)))"
    by (rule serve_keeps [OF assms(1,2) Cons.prems(1) assms(3)])
  moreover have "fetches_of vs \<subseteq> reqs"
    using Cons.prems(2) by (auto simp: fetches_of_def)
  ultimately show ?case
    using Cons.IH by (simp add: serve_all_def v)
qed (simp add: serve_all_def)

text \<open>C7.  The cache as clients see it, after any requests at all.  Whatever was asked, by whom, and
  whatever failed underneath, the two maps of the store agree, and an authorized client that asks
  for the models gets exactly the entries staged, in strictly increasing order of their ids and with
  no key twice.\<close>

theorem service_keeps_cache:
  assumes "chi_mux mux" and "keeps_state unrouted" and "flight_ok fl" and "store_inv (fst (ap_models a))"
    and "no_clash sha256 (fetches_of vs) (fst (ap_models a))"
    and "mux (new_router True True) greq = Some (gr, gi)" and "rt_endpoint gr = ModelsListE"
    and "authorized (ae_token env) greq"
  shows "case serve_all mux unrouted sha256 fl vs a of a' \<Rightarrow>
    store_inv (fst (ap_models a')) \<and>
    (\<exists>es. rs_body (snd (serve mux unrouted (with_store sha256 fl now env) None greq a')) =
        json_marshal (JArr (map entry_json es)) @ [lf] \<and>
      sorted_wrt (<) (map e_id es) \<and> distinct (map ekey es) \<and>
      (\<forall>e. e \<in> set es \<longleftrightarrow> staged (fst (ap_models a')) (ekey e) = Some e))"
proof -
  let ?a = "serve_all mux unrouted sha256 fl vs a"
  have "app_ok sha256 (fetches_of vs) ?a"
    by (rule serve_all_keeps [OF assms(1-3)]) (simp_all add: app_ok_def store_ok_def assms(4,5))
  then have inv: "store_inv (fst (ap_models ?a))"
    by (simp add: app_ok_def store_ok_def)
  have "rs_body (snd (serve mux unrouted (with_store sha256 fl now env) None greq ?a)) =
      json_marshal (JArr (map entry_json (sorted_entries (fst (ap_models ?a))))) @ [lf]"
    unfolding list_answered [OF assms(1,6-8)] by (simp add: json_body list_models_def)
  then show ?thesis
    using inv sorted_entries_ids [OF inv] entries_keys_distinct [OF inv] sorted_entries_set [OF inv] staged_iff [OF inv]
    by auto
qed

text \<open>Two fetches of one model, one of them without the token, a command, and a list.\<close>

definition ex_visits :: "visit list" where
  "ex_visits = [(sample_api, ex_now, post_fetch), (sample_api, ex_now, post_fetch\<lparr>hr_headers := []\<rparr>),
     (sample_api, ex_now, exec_call bearer), (sample_api, ex_now, get_models)]"

theorem service_keeps_cache_witness:
  "\<exists>es. rs_body (snd (serve first_match (\<lambda>_ _. Pair) (with_store ex_sha (\<lambda>k f s. f s) ex_now sample_api) None get_models
      (serve_all first_match (\<lambda>_ _. Pair) ex_sha (\<lambda>k f s. f s) ex_visits ex_app))) =
    json_marshal (JArr (map entry_json es)) @ [lf] \<and> sorted_wrt (<) (map e_id es) \<and> distinct (map ekey es)"
proof -
  have "decode_body fetch_fields zero_fetch (exec_call bearer) = Some zero_fetch"
    "decode_body fetch_fields zero_fetch get_models = None"
    by code_simp+
  moreover have "decode_body fetch_fields zero_fetch (post_fetch\<lparr>hr_headers := []\<rparr>) = Some (ex_request ''m'')"
    using post_decodes by (simp add: decode_body_def)
  ultimately have "fetches_of ex_visits \<subseteq> {ex_request ''m''}"
    using post_decodes by (auto simp: fetches_of_def fetches_def ex_visits_def zero_fetch_def)
  then have clash: "no_clash ex_sha (fetches_of ex_visits) (fst (ap_models ex_app))"
    by (auto simp: no_clash_def ex_app_def ex_collision_free)
  have unrouted: "keeps_state (\<lambda>_ _. Pair)"
    by (simp add: keeps_state_def)
  have inv: "store_inv (fst (ap_models ex_app))"
    by (simp add: ex_app_def ex_inv)
  have token: "authorized (ae_token sample_api) get_models"
    using bearer_authorized [of get_models] by (simp add: sample_api_def get_models_def)
  have "rt_endpoint (api_route ''GET'' ''/models'' ModelsListE) = ModelsListE"
    by (simp add: api_route_def)
  from service_keeps_cache [OF reference.chi_mux_axioms unrouted ex_flight inv clash get_routed this token, where now = ex_now]
  show ?thesis
    by auto
qed

end
