(* ===== verification/Spec2Isabelle.thy ===== *)
theory Spec2Isabelle
  imports Storage_Schedules Storage_Links Container_Theorems Container_Logs Gpu_Theorems Gpu_Poller
    System_Info Http_Formats Bonnie_Main Bonnie_Restart Bonnie_Service
begin

text \<open>
  A verification development for BONNIE, the agent that a GPU host runs: it detects the GPUs, manages
  Docker containers, keeps a cache of staged models, runs paired benchmarks and serves all of it as an
  HTTP API behind one token.  This theory only collects the others.

  \<^bold>\<open>How the program hangs together.\<close>  \<open>cmd/bonnie/main.go\<close> picks a secrets provider, loads the
  configuration, starts the GPU poller, builds the Docker client, the container manager and the model
  store, and hands them to the router of \<open>internal/api\<close>.  A request passes recovery, logging and, below
  \<open>/api/v1/\<close>, authentication, and then the handler of its endpoint, which calls one component: the
  store (\<open>internal/storage\<close>), the manager and its paired run (\<open>internal/container\<close>), the poller
  (\<open>internal/gpu\<close>), the system information (\<open>internal/system\<close>) or the health registry.

  \<^bold>\<open>Conventions.\<close>  A Go function with an error result is a sum (\<open>Inl\<close> the error), state is passed
  explicitly, a map is an association list whose order is the order in which one \<open>range\<close> loop visits
  it, bytes are characters, and 64-bit integers are words, or integers with the wrap-around written
  out (\<open>seconds\<close>, \<open>add_int64\<close>).  What the program meets outside itself is a record of functions from the history of
  the calls so far, so a theorem about every such record covers every daemon, clock, failure and moment
  of cancellation.

  \<^bold>\<open>Which theory models what.\<close>
  \<^item> The standard library, as far as it is used: \<open>Go_Strings\<close> (\<open>strings\<close>, \<open>strconv\<close>), \<open>Go_Paths\<close>
    (\<open>path/filepath\<close>), \<open>Go_Utf8\<close> (\<open>unicode/utf8\<close>), \<open>Go_Json\<close> and \<open>Go_Compact\<close> (\<open>encoding/json\<close>), \<open>Go_Float\<close> (\<open>ParseFloat\<close> and the
    conversion to integers), \<open>Go_Quote\<close> (\<open>%q\<close>), \<open>Storage_Fs\<close> (a file system whose every call can fail),
    \<open>Http\<close> (requests, responses, writers).
  \<^item> \<open>internal/storage\<close>: \<open>Storage_Index\<close> (the entry and \<open>index.json\<close>), \<open>Storage_Store\<close> (\<open>NewStore\<close>, \<open>Fetch\<close>,
    \<open>List\<close>, \<open>Get\<close>, \<open>Delete\<close>, \<open>MarkUsed\<close> on the store and the file system), \<open>Storage_Fetchers\<close> (both
    fetchers); lemmas and properties in \<open>Storage_Ops\<close>, \<open>Storage_Correct\<close>, \<open>Storage_Copy\<close>,
    \<open>Storage_CopyTree\<close> and \<open>Storage_Theorems\<close>.  \<open>Storage_Concurrent\<close> cuts the same operations into the
    stretches between which another caller can run; \<open>Storage_Schedules\<close> has what holds of every schedule.
    \<open>Storage_Links\<close> shows how a link below the storage directory leads \<open>Delete\<close> out of it.
  \<^item> \<open>internal/container\<close>: \<open>Container_Docker\<close> (the client's calls, the manager, the GPU settings),
    \<open>Container_Run\<close> (\<open>PairedRun\<close> with all its steps), \<open>Container_Logs\<close> (both log streams and the channel
    they share with the run); lemmas and properties in \<open>Container_Correct\<close>, \<open>Container_Health\<close> and
    \<open>Container_Theorems\<close>.
  \<^item> \<open>internal/gpu\<close>: \<open>Gpu_Types\<close>, \<open>Gpu_Detect\<close> (the detector and the parsers of the three vendor tools),
    \<open>Gpu_Poller\<close> (the goroutine, its readers and subscribers as a step relation), \<open>Gpu_Theorems\<close>.
  \<^item> \<open>internal/system\<close>: \<open>System_Info\<close>.  \<open>internal/flagcommons\<close>: \<open>Secrets\<close> (both providers, the cache, the
    factory), \<open>Health\<close> (the registry), and with \<open>internal/config\<close> in \<open>Config\<close> the loader, the logger and
    the version.
  \<^item> \<open>internal/api\<close>: \<open>Http\<close> (the three middlewares over the interface of a writer), \<open>Http_Sse\<close> (frames, and
    the client that parses them), \<open>Http_Handlers\<close> and \<open>Http_Benchmark\<close> (every handler), \<open>Http_Router\<close> (the
    table of routes and the service), \<open>Http_Formats\<close> and \<open>Http_Theorems\<close> (properties).
  \<^item> \<open>cmd/bonnie\<close>: \<open>Bonnie_Main\<close>; the parts together in \<open>Bonnie_Restart\<close> (a fetch, a restart, the list) and
    \<open>Bonnie_Service\<close> (any sequence of requests).

  \<^bold>\<open>What the lemmas show.\<close>
  \<^item> Storage: memory and \<open>index.json\<close> agree after every operation that succeeds, whichever system call
    fails in one that does not; the index is replaced as a whole or not at all; a restart restores
    every entry, up to bytes that are not UTF-8; deletion stays inside the directory where no link leads
    out of it; a copied tree is an image of its source.  Concurrent calls
    keep the maps consistent, run one fetcher per key, and all return; alone, the steps of \<open>Fetch\<close> are
    the sequential \<open>Fetch\<close> (\<open>fetch_alone\<close>, which relates the two models).
  \<^item> Paired run: everything a run created is removed on every outcome; a run ends, and on the channel,
    among the lines of both log streams, the last event of the orchestrator is its one result or an
    error; the benchmark starts only after the engine was seen healthy; log lines do
    not depend on how the stream is cut into reads.
  \<^item> GPUs and system: the detector's order, the parsers as inverses of the formats they ask for, the
    arithmetic at its width, and what subscribers see under every interleaving.
  \<^item> Service: nothing at or below \<open>/api/v1\<close> happens without the token, on a route or not; the middlewares add nothing to what a
    handler does (a refinement); every response has a form a client can rely on; the event stream of a
    benchmark parses to the events of the run; the metrics page cannot be broken by device names.
  \<^item> Agent: what the configuration accepts and what becomes of it in the poller and in authentication;
    what one process fetched for a client the next one lists; no sequence of requests leaves the cache
    inconsistent.
  \<^item> Some properties state what the code does where it surely means something else: a fetch into its own
    source, a fetch through a link that leads out of the share, a deletion through a link that leads out
    of the store, a removed network of another run, a wrapped time, a fetch that a deletion overtakes, the
    lost lines of a command's output.  The automaton at the end of \<open>Container_Logs\<close> shows the order of
    steps in which the event channel is closed under a sender.

  \<^bold>\<open>Interfaces.\<close>  \<open>secrets_provider\<close> (laws of a provider, interpreted by both), \<open>http_writer\<close> and
  \<open>flushing_writer\<close> (a writer does to the response behind it what \<open>net/http\<close> does, interpreted by the
  server's and by the logging writer), \<open>chi_mux\<close> (what chi documents, interpreted by a linear search),
  \<open>bounded_channel\<close> (the subscribers of the poller), \<open>line_parser\<close> (the parsers of the NVIDIA and Intel
  tools) and \<open>json_layout\<close> (the two layouts of JSON).

  \<^bold>\<open>Fuel.\<close>  The JSON parser has twice the length of the text and two more, which \<open>json_parse_fuel\<close> shows
  to decide every text.  The wait for the engine has a number of rounds; \<open>health_rounds\<close> of them are
  enough when the clock advances with the sleeps (\<open>outcome_delivered\<close>).  The tree walk spends a unit per
  node; \<open>nfs_fetch_copies_tree\<close> shows that the number of nodes is enough when the trees are apart, and
  \<open>nfs_fetch_into_source\<close> that with any number the fetch fails when the destination is inside the source.
  A call of the
  store takes at most nine steps, so nine rounds per call end every schedule (\<open>every_call_returns\<close>).

  \<^bold>\<open>Not modelled.\<close>  The Docker daemon, huggingface-cli, the vendor tools, OpenBao, chi, \<open>singleflight\<close>
  and SHA-256 are parameters, as are the tables of printable runes, the decimal text of a float, the
  text of store errors and times in the host's zone.  A link may be the last component of a path;
  links as directories on the way to it are followed by \<open>Delete\<close> only (\<open>remove_all_path\<close>): the other calls
  fail there, \<open>mkdir_all\<close> already on a link at the end of its path, where the system would go on.  The
  kernel's limit on the length of a path is one of the calls that fail.  Debug logging, \<open>slog\<close>, the
  sockets, signals and timeouts of the HTTP server, and the processes behind \<open>os/exec\<close> are left out;
  constructors that only fill in fields have no definition of their own.  A request has its \<open>URL.Path\<close>
  only: those with a \<open>RawPath\<close>, by which chi routes, are not covered.  JSON texts nest less than 10000
  deep.  The context of thirty seconds of a run's cleanup shows only in calls that fail.
  Handlers run one at a time here; where goroutines share state (store, poller, log streams, health
  checks) their interleavings are modelled.  A mutex is not a state of its own there: a section under a
  lock is one step, and so is a call of a fetcher, which always returns, so that deadlock and a fetcher
  that hangs are not covered.
\<close>

end
